(* ===== verification/C_Prelude.thy ===== *)
theory C_Prelude
  imports Main "HOL-Library.While_Combinator" "HOL-Library.Signed_Division" "HOL-Library.Word"
begin

text \<open>
  The shared base of the development.  Every C function of the repository is a program
  over a world: it takes the world (the file system and the random number generator, or
  the clocks) and ends in one of five outcomes.  A statement that falls through yields a
  value, a \<open>return\<close> leaves the enclosing function, an \<open>exit\<close> leaves the process,
  undefined behaviour of the C standard is an outcome of its own that names its reason, and
  a loop that never ends is \<open>Diverge\<close>.  Loops keep their shape: \<open>c_while\<close> runs a
  guard and a body over the loop's local variables.

  Properties are proved through the weakest precondition \<open>wp\<close>.  Its equations are simp
  rules and its loop rule is total: the body decreases a measure, so a proved program ends.
  The flag \<open>u\<close> says whether undefined behaviour is an acceptable outcome.

  The theory ends with bounded machine arithmetic and the byte lists files are made of.
\<close>

section \<open>Outcomes and programs\<close>

datatype ub =
    SignedOverflow
  | DivByZero
  | FloatCast
  | UninitRead
  | NullDeref
  | ShiftRange

datatype ('a, 'w) out =
    Val 'a 'w
  | Return int 'w
  | Exit int 'w
  | Undef ub
  | Diverge

type_synonym ('w, 'a) prog = "'w \<Rightarrow> ('a, 'w) out"

definition c_val :: "'a \<Rightarrow> ('w, 'a) prog" where
  "c_val a w = Val a w"

definition c_return :: "int \<Rightarrow> ('w, 'a) prog" where
  "c_return v w = Return v w"

definition c_exit :: "int \<Rightarrow> ('w, 'a) prog" where
  "c_exit n w = Exit n w"

definition c_undef :: "ub \<Rightarrow> ('w, 'a) prog" where
  "c_undef r w = Undef r"

definition c_gets :: "('w \<Rightarrow> 'a) \<Rightarrow> ('w, 'a) prog" where
  "c_gets f w = Val (f w) w"

definition c_modify :: "('w \<Rightarrow> 'w) \<Rightarrow> ('w, unit) prog" where
  "c_modify f w = Val () (f w)"

text \<open>A library call: a function on the world that always returns a value.\<close>

definition c_lib :: "('w \<Rightarrow> 'a \<times> 'w) \<Rightarrow> ('w, 'a) prog" where
  "c_lib f w = (case f w of (a, w') \<Rightarrow> Val a w')"

definition c_bind :: "('w, 'a) prog \<Rightarrow> ('a \<Rightarrow> ('w, 'b) prog) \<Rightarrow> ('w, 'b) prog" where
  "c_bind p f w =
     (case p w of
        Val a w' \<Rightarrow> f a w'
      | Return v w' \<Rightarrow> Return v w'
      | Exit n w' \<Rightarrow> Exit n w'
      | Undef r \<Rightarrow> Undef r
      | Diverge \<Rightarrow> Diverge)"

text \<open>The boundary of a C function that returns an \<open>int\<close>.\<close>

definition c_call :: "('w, int) prog \<Rightarrow> ('w, int) prog" where
  "c_call p w =
     (case p w of
        Val v w' \<Rightarrow> Val v w'
      | Return v w' \<Rightarrow> Val v w'
      | Exit n w' \<Rightarrow> Exit n w'
      | Undef r \<Rightarrow> Undef r
      | Diverge \<Rightarrow> Diverge)"

text \<open>The equations that run a program on a given world by rewriting.\<close>

named_theorems c_run

lemmas [c_run] = c_val_def c_return_def c_exit_def c_undef_def c_gets_def c_modify_def c_lib_def c_bind_def c_call_def

definition loop_guard :: "('s \<Rightarrow> bool) \<Rightarrow> ('s, 'w) out \<Rightarrow> bool" where
  "loop_guard b r = (case r of Val s w \<Rightarrow> b s | _ \<Rightarrow> False)"

definition loop_body :: "('s \<Rightarrow> ('w, 's) prog) \<Rightarrow> ('s, 'w) out \<Rightarrow> ('s, 'w) out" where
  "loop_body c r = (case r of Val s w \<Rightarrow> c s w | _ \<Rightarrow> r)"

definition c_while :: "('s \<Rightarrow> bool) \<Rightarrow> ('s \<Rightarrow> ('w, 's) prog) \<Rightarrow> 's \<Rightarrow> ('w, 's) prog" where
  "c_while b c s w =
     (case while_option (loop_guard b) (loop_body c) (Val s w) of
        None \<Rightarrow> Diverge
      | Some r \<Rightarrow> r)"

lemma loop_guard_simps [simp]:
  "loop_guard b (Val s w) = b s"
  "loop_guard b (Return v w) = False"
  "loop_guard b (Exit v w) = False"
  "loop_guard b (Undef r) = False"
  "loop_guard b Diverge = False"
  by (simp_all add: loop_guard_def)

lemma loop_body_Val [simp]: "loop_body c (Val s w) = c s w"
  by (simp add: loop_body_def)

lemma while_option_stopped: "\<not> loop_guard b r \<Longrightarrow> while_option (loop_guard b) c r = Some r"
  by (simp add: while_option_unfold)

lemma c_while_unfold:
  "c_while b c s w = (if b s then c_bind (c s) (c_while b c) w else Val s w)"
proof (cases "b s")
  case True
  then have "c_while b c s w =
      (case while_option (loop_guard b) (loop_body c) (c s w) of None \<Rightarrow> Diverge | Some r \<Rightarrow> r)"
    unfolding c_while_def by (subst while_option_unfold) simp
  also have "\<dots> = c_bind (c s) (c_while b c) w"
    by (cases "c s w") (simp_all add: c_bind_def c_while_def while_option_stopped)
  finally show ?thesis using True by simp
next
  case False
  then show ?thesis
    unfolding c_while_def by (subst while_option_unfold) simp
qed

section \<open>Weakest preconditions\<close>

fun ok_out :: "bool \<Rightarrow> ('a \<Rightarrow> 'w \<Rightarrow> bool) \<Rightarrow> (int \<Rightarrow> 'w \<Rightarrow> bool) \<Rightarrow> (int \<Rightarrow> 'w \<Rightarrow> bool)
    \<Rightarrow> ('a, 'w) out \<Rightarrow> bool" where
  "ok_out u Q R X (Val a w) = Q a w"
| "ok_out u Q R X (Return v w) = R v w"
| "ok_out u Q R X (Exit n w) = X n w"
| "ok_out u Q R X (Undef r) = u"
| "ok_out u Q R X Diverge = False"

definition wp :: "bool \<Rightarrow> ('w, 'a) prog \<Rightarrow> ('a \<Rightarrow> 'w \<Rightarrow> bool) \<Rightarrow> (int \<Rightarrow> 'w \<Rightarrow> bool)
    \<Rightarrow> (int \<Rightarrow> 'w \<Rightarrow> bool) \<Rightarrow> 'w \<Rightarrow> bool" where
  "wp u p Q R X w = ok_out u Q R X (p w)"

lemma wp_val [simp]: "wp u (c_val a) Q R X = Q a"
  by (simp add: fun_eq_iff wp_def c_val_def)

lemma wp_return [simp]: "wp u (c_return v) Q R X = R v"
  by (simp add: fun_eq_iff wp_def c_return_def)

lemma wp_exit [simp]: "wp u (c_exit n) Q R X = X n"
  by (simp add: fun_eq_iff wp_def c_exit_def)

lemma wp_undef [simp]: "wp u (c_undef r) Q R X = (\<lambda>_. u)"
  by (simp add: fun_eq_iff wp_def c_undef_def)

lemma wp_gets [simp]: "wp u (c_gets f) Q R X = (\<lambda>w. Q (f w) w)"
  by (simp add: fun_eq_iff wp_def c_gets_def)

lemma wp_modify [simp]: "wp u (c_modify f) Q R X = (\<lambda>w. Q () (f w))"
  by (simp add: fun_eq_iff wp_def c_modify_def)

lemma wp_lib: "wp u (c_lib f) Q R X w = (case f w of (a, w') \<Rightarrow> Q a w')"
  by (simp add: wp_def c_lib_def split: prod.splits)

lemma wp_bind [simp]: "wp u (c_bind p f) Q R X = wp u p (\<lambda>a. wp u (f a) Q R X) R X"
  by (simp add: fun_eq_iff wp_def c_bind_def split: out.splits)

lemma wp_call [simp]: "wp u (c_call p) Q R X = wp u p Q Q X"
  by (simp add: fun_eq_iff wp_def c_call_def split: out.splits)

lemma wp_if [simp]:
  "wp u (if b then p else q) Q R X = (if b then wp u p Q R X else wp u q Q R X)"
  by simp

lemma wp_mono:
  assumes "wp u p Q R X w"
    and "\<And>a w'. Q a w' \<Longrightarrow> Q' a w'"
    and "\<And>v w'. R v w' \<Longrightarrow> R' v w'"
    and "\<And>n w'. X n w' \<Longrightarrow> X' n w'"
  shows "wp u p Q' R' X' w"
  using assms by (cases "p w") (auto simp: wp_def)

lemma wp_mono_val:
  assumes "wp u p Q R X w" and "\<And>a w'. Q a w' \<Longrightarrow> Q' a w'"
  shows "wp u p Q' R X w"
  using assms by (rule wp_mono)

text \<open>A partial and a total fact about the same program combine.\<close>

lemma wp_conj:
  assumes "wp u p Q R X w" and "wp True p Q' R' X' w"
  shows "wp u p (\<lambda>a w. Q a w \<and> Q' a w) (\<lambda>v w. R v w \<and> R' v w) (\<lambda>n w. X n w \<and> X' n w) w"
  using assms by (cases "p w") (auto simp: wp_def)

lemma wp_weaken_flag: "wp u p Q R X w \<Longrightarrow> wp True p Q R X w"
  by (cases "p w") (auto simp: wp_def)

subsection \<open>Loops\<close>

lemma wp_while_unfold:
  "wp u (c_while b c s) Q R X w =
     (if b s then wp u (c s) (\<lambda>s'. wp u (c_while b c s') Q R X) R X w else Q s w)"
proof (cases "b s")
  case True
  then have "c_while b c s w = c_bind (c s) (c_while b c) w"
    by (simp add: c_while_unfold [of b c s w])
  then have "wp u (c_while b c s) Q R X w = wp u (c_bind (c s) (c_while b c)) Q R X w"
    by (simp only: wp_def)
  with True show ?thesis by simp
next
  case False
  then show ?thesis by (simp add: wp_def c_while_unfold [of b c s w])
qed

lemma wp_while:
  fixes m :: "'s \<Rightarrow> 'w \<Rightarrow> nat"
  assumes inv: "I s w"
    and step: "\<And>s w. I s w \<Longrightarrow> b s \<Longrightarrow>
                 wp u (c s) (\<lambda>s' w'. I s' w' \<and> m s' w' < m s w) R X w"
    and fin: "\<And>s w. I s w \<Longrightarrow> \<not> b s \<Longrightarrow> Q s w"
  shows "wp u (c_while b c s) Q R X w"
  using inv
proof (induction "m s w" arbitrary: s w rule: less_induct)
  case less
  show ?case
  proof (cases "b s")
    case True
    have "wp u (c s) (\<lambda>s'. wp u (c_while b c s') Q R X) R X w"
      using step [OF less.prems True] by (rule wp_mono_val) (auto intro: less.hyps)
    with True show ?thesis by (simp add: wp_while_unfold [of u b c s])
  next
    case False
    with fin [OF less.prems] show ?thesis by (simp add: wp_while_unfold [of u b c s])
  qed
qed

subsection \<open>From weakest preconditions to runs\<close>

lemma wp_totalD:
  assumes "wp False p Q (\<lambda>_ _. False) (\<lambda>_ _. False) w"
  obtains a w' where "p w = Val a w'" and "Q a w'"
  using assms by (cases "p w") (auto simp: wp_def)

lemma wp_ValD: "wp u p Q R X w \<Longrightarrow> p w = Val a w' \<Longrightarrow> Q a w'"
  by (simp add: wp_def)

lemma wp_ExitD: "wp u p Q R X w \<Longrightarrow> p w = Exit n w' \<Longrightarrow> X n w'"
  by (simp add: wp_def)

lemma wp_no_undef: "wp False p Q R X w \<Longrightarrow> p w \<noteq> Undef r"
  by (auto simp: wp_def)

lemma wp_terminates: "wp u p Q R X w \<Longrightarrow> p w \<noteq> Diverge"
  by (auto simp: wp_def)

section \<open>Machine integers\<close>

text \<open>
  Signed types of the C code are 64 bits wide on the platforms the tools run on
  (\<open>off_t\<close>, \<open>int64_t\<close>, \<open>time_t\<close>, \<open>long\<close>, \<open>long long\<close>).  They are integers;
  an arithmetic result outside their range is undefined behaviour.
\<close>

abbreviation LLONG_MAX :: int where "LLONG_MAX \<equiv> 9223372036854775807"
abbreviation LLONG_MIN :: int where "LLONG_MIN \<equiv> -9223372036854775808"

definition in_s64 :: "int \<Rightarrow> bool" where
  "in_s64 x \<longleftrightarrow> LLONG_MIN \<le> x \<and> x \<le> LLONG_MAX"

definition s64 :: "int \<Rightarrow> ('w, int) prog" where
  "s64 x w = (if in_s64 x then Val x w else Undef SignedOverflow)"

definition s64_div :: "int \<Rightarrow> int \<Rightarrow> ('w, int) prog" where
  "s64_div a b = (if b = 0 then c_undef DivByZero else s64 (a sdiv b))"

definition s64_mod :: "int \<Rightarrow> int \<Rightarrow> ('w, int) prog" where
  "s64_mod a b = (if b = 0 then c_undef DivByZero
     else if in_s64 (a sdiv b) then s64 (a smod b) else c_undef SignedOverflow)"

lemma in_s64_iff: "in_s64 x \<longleftrightarrow> -(2 ^ 63) \<le> x \<and> x < 2 ^ 63"
  by (auto simp: in_s64_def)

lemma wp_s64 [simp]: "wp u (s64 x) Q R X = (if in_s64 x then Q x else (\<lambda>_. u))"
  by (simp add: fun_eq_iff wp_def s64_def)

lemma sdiv_nonneg_int: "0 \<le> (a::int) \<Longrightarrow> 0 \<le> b \<Longrightarrow> a sdiv b = a div b"
  by (cases "a = 0"; cases "b = 0") (auto simp: signed_divide_int_def)

lemma smod_nonneg_int: "0 \<le> (a::int) \<Longrightarrow> 0 \<le> b \<Longrightarrow> a smod b = a mod b"
  by (cases "a = 0"; cases "b = 0") (auto simp: signed_modulo_int_def sdiv_nonneg_int minus_div_mult_eq_mod)

lemma in_s64_between: "in_s64 a \<Longrightarrow> in_s64 b \<Longrightarrow> a \<le> x \<Longrightarrow> x \<le> b \<Longrightarrow> in_s64 x"
  by (simp add: in_s64_def)

lemma div_le_self_int: "0 \<le> (a::int) \<Longrightarrow> 0 \<le> b \<Longrightarrow> a div b \<le> a"
  using zdiv_mono2 [of a 1 b] by (cases "b = 0") auto

lemma in_s64_div: "in_s64 a \<Longrightarrow> 0 \<le> a \<Longrightarrow> 0 \<le> b \<Longrightarrow> in_s64 (a div b)"
  using div_le_self_int [of a b] pos_imp_zdiv_nonneg_iff [of b a]
  by (cases "b = 0") (auto simp: in_s64_def)

lemma wp_s64_div_nonneg:
  assumes "in_s64 a" and "0 \<le> a" and "0 < b"
  shows "wp u (s64_div a b) Q R X w = Q (a div b) w"
  using assms by (simp add: s64_div_def sdiv_nonneg_int in_s64_div)

lemma wp_s64_mod_nonneg:
  assumes "in_s64 a" and "0 \<le> a" and "0 < b"
  shows "wp u (s64_mod a b) Q R X w = Q (a mod b) w"
proof -
  have "in_s64 (a mod b)"
    using assms zmod_le_nonneg_dividend [of a b]
    by (auto simp: in_s64_def intro: order_trans [of _ 0])
  with assms show ?thesis
    by (simp add: s64_mod_def sdiv_nonneg_int smod_nonneg_int in_s64_div)
qed

lemma le_zdiv_iff:
  assumes "0 < (k::int)"
  shows "a \<le> b div k \<longleftrightarrow> a * k \<le> b"
proof
  assume "a \<le> b div k"
  then have "a * k \<le> b div k * k" using assms by simp
  also have "\<dots> \<le> b" using assms by (simp add: minus_mod_eq_div_mult [symmetric])
  finally show "a * k \<le> b" .
next
  assume "a * k \<le> b"
  then have "a * k div k \<le> b div k" using assms by (rule zdiv_mono1)
  with assms show "a \<le> b div k" by simp
qed

text \<open>The number of steps of size \<open>k\<close> needed to cover \<open>r\<close>.\<close>

lemma less_ceil_div_iff:
  assumes "0 < (k::int)"
  shows "c < (r + k - 1) div k \<longleftrightarrow> c * k < r"
  using le_zdiv_iff [OF assms, of "c + 1" "r + k - 1"] by (auto simp: distrib_right)

section \<open>Byte lists\<close>

type_synonym byte = "8 word"

text \<open>Reading and writing a file's bytes.  A write past the end fills the gap with zeros.\<close>

definition read_at :: "byte list \<Rightarrow> nat \<Rightarrow> nat \<Rightarrow> byte list" where
  "read_at bs off n = take n (drop off bs)"

definition write_at :: "byte list \<Rightarrow> nat \<Rightarrow> byte list \<Rightarrow> byte list" where
  "write_at bs off ys =
     (if ys = [] then bs
      else take off bs @ replicate (off - length bs) 0 @ ys @ drop (off + length ys) bs)"

text \<open>Two contents of the same length that differ at positions in \<open>S\<close> only.\<close>

definition agree_off :: "nat set \<Rightarrow> byte list \<Rightarrow> byte list \<Rightarrow> bool" where
  "agree_off S xs ys \<longleftrightarrow> length xs = length ys \<and> (\<forall>i < length xs. i \<notin> S \<longrightarrow> xs ! i = ys ! i)"

lemma length_read_at [simp]: "length (read_at bs off n) = min n (length bs - off)"
  by (simp add: read_at_def min.commute)

lemma nth_read_at: "i < n \<Longrightarrow> off + i < length bs \<Longrightarrow> read_at bs off n ! i = bs ! (off + i)"
  by (simp add: read_at_def)

lemma write_at_Nil [simp]: "write_at bs off [] = bs"
  by (simp add: write_at_def)

lemma length_write_at:
  "length (write_at bs off ys) = (if ys = [] then length bs else max (length bs) (off + length ys))"
  by (auto simp: write_at_def)

lemma length_write_at_inside [simp]:
  "off + length ys \<le> length bs \<Longrightarrow> length (write_at bs off ys) = length bs"
  by (simp add: length_write_at)

lemma nth_write_at_inside:
  "off \<le> length bs \<Longrightarrow> i < length ys \<Longrightarrow> write_at bs off ys ! (off + i) = ys ! i"
  by (auto simp: write_at_def nth_append)

lemma nth_write_at_outside:
  "i < length bs \<Longrightarrow> i < off \<or> off + length ys \<le> i \<Longrightarrow> write_at bs off ys ! i = bs ! i"
  by (auto simp: write_at_def nth_append)

lemma nth_write_at:
  assumes "off + length ys \<le> length bs" and "i < length bs"
  shows "write_at bs off ys ! i =
    (if off \<le> i \<and> i < off + length ys then ys ! (i - off) else bs ! i)"
  using assms nth_write_at_inside [of off bs "i - off" ys] nth_write_at_outside [of i bs off ys]
  by auto

lemma write_at_read_at:
  "off + n \<le> length bs \<Longrightarrow> write_at bs off (read_at bs off n) = bs"
  by (rule nth_equalityI) (auto simp: nth_write_at nth_read_at)

lemma read_at_write_at:
  "off + length ys \<le> length bs \<Longrightarrow> read_at (write_at bs off ys) off (length ys) = ys"
  by (rule nth_equalityI) (auto simp: nth_read_at nth_write_at)

lemma read_at_write_at_other:
  assumes "off + length ys \<le> length bs" and "a + n \<le> off \<or> off + length ys \<le> a"
  shows "read_at (write_at bs off ys) a n = read_at bs a n"
proof (rule nth_equalityI)
  show "length (read_at (write_at bs off ys) a n) = length (read_at bs a n)"
    using assms(1) by simp
  fix i assume "i < length (read_at (write_at bs off ys) a n)"
  then have "i < n" "a + i < length bs" using assms(1) by auto
  with assms show "read_at (write_at bs off ys) a n ! i = read_at bs a n ! i"
    by (auto simp: nth_read_at nth_write_at)
qed

lemma agree_off_refl [simp, intro]: "agree_off S xs xs"
  by (simp add: agree_off_def)

lemma agree_off_sym: "agree_off S xs ys \<Longrightarrow> agree_off S ys xs"
  by (simp add: agree_off_def)

lemma agree_off_trans: "agree_off S xs ys \<Longrightarrow> agree_off S ys zs \<Longrightarrow> agree_off S xs zs"
  by (simp add: agree_off_def)

lemma agree_off_mono: "agree_off S xs ys \<Longrightarrow> S \<subseteq> T \<Longrightarrow> agree_off T xs ys"
  by (auto simp: agree_off_def)

lemma agree_off_length: "agree_off S xs ys \<Longrightarrow> length xs = length ys"
  by (simp add: agree_off_def)

lemma agree_off_write_at:
  "off + length ys \<le> length bs \<Longrightarrow> {off ..< off + length ys} \<subseteq> S \<Longrightarrow> agree_off S bs (write_at bs off ys)"
  by (auto simp: agree_off_def nth_write_at)

lemma agree_off_read_at:
  assumes "agree_off S xs ys" and "S \<inter> {off ..< off + n} = {}"
  shows "read_at xs off n = read_at ys off n"
proof (rule nth_equalityI)
  fix i assume i: "i < length (read_at xs off n)"
  with assms(2) have "off + i \<notin> S" by (auto simp: disjoint_iff)
  with i assms(1) show "read_at xs off n ! i = read_at ys off n ! i"
    by (auto simp: agree_off_def nth_read_at)
qed (use assms(1) in \<open>simp add: agree_off_def\<close>)

end
