(* ===== verification/Drand48.thy ===== *)
theory Drand48
  imports C_Prelude
begin

text \<open>
  The random number generator of the C library that \<open>corrupt-file.c\<close> draws from.
  POSIX defines the \<open>drand48\<close> family by the linear congruence
  \<open>X' = (0x5DEECE66D * X + 0xB) mod 2^48\<close>; \<open>lrand48\<close> returns the top 31 bits of the
  new state, \<open>drand48\<close> the state divided by \<open>2^48\<close>, and \<open>srand48\<close> puts the seed
  in the top 32 bits over the constant \<open>0x330E\<close>.

  The main fact is that the generator has full period: from every state every state is
  reached, so every value of \<open>lrand48\<close> comes up again and again.  It is proved for any
  multiplier of the form \<open>4 k + 1\<close> and odd increment modulo a power of two.  The locale
  \<open>draw_source\<close> states what a client needs: every value it waits for does come up.
\<close>

section \<open>The generator\<close>

type_synonym rng = int

definition lcg_step :: "rng \<Rightarrow> rng" where
  "lcg_step x = (0x5DEECE66D * x + 0xB) mod 2 ^ 48"

definition lrand48_of :: "rng \<Rightarrow> int" where
  "lrand48_of x = x div 2 ^ 17"

definition srand48_of :: "int \<Rightarrow> rng" where
  "srand48_of seed = (seed mod 2 ^ 32) * 2 ^ 16 + 0x330E"

definition rng_ok :: "rng \<Rightarrow> bool" where
  "rng_ok x \<longleftrightarrow> 0 \<le> x \<and> x < 2 ^ 48"

lemma lcg_step_ok [simp, intro]: "rng_ok (lcg_step x)"
  by (simp add: rng_ok_def lcg_step_def)

lemma srand48_of_ok [simp, intro]: "rng_ok (srand48_of seed)"
proof -
  have "0 \<le> seed mod 2 ^ 32" and "seed mod 2 ^ 32 < 2 ^ 32"
    by simp_all
  then show ?thesis
    unfolding rng_ok_def srand48_of_def by (simp del: pos_mod_bound Euclidean_Rings.pos_mod_bound)
qed

lemma lrand48_of_range: "rng_ok x \<Longrightarrow> 0 \<le> lrand48_of x \<and> lrand48_of x < 2 ^ 31"
  by (auto simp: rng_ok_def lrand48_of_def)

section \<open>Full period\<close>

text \<open>
  Composing the affine map \<open>x \<mapsto> a x + c\<close> with itself \<open>2^k\<close> times gives an affine map
  whose multiplier is \<open>1\<close> modulo \<open>2^(k+2)\<close> and whose increment is an odd multiple of
  \<open>2^k\<close>.
\<close>

fun pow_map :: "int \<Rightarrow> int \<Rightarrow> nat \<Rightarrow> int \<times> int" where
  "pow_map a c 0 = (a, c)"
| "pow_map a c (Suc k) = (case pow_map a c k of (A, C) \<Rightarrow> (A * A, A * C + C))"

lemma funpow_double: "(f ^^ (2 ^ Suc k)) x = (f ^^ (2 ^ k)) ((f ^^ (2 ^ k)) x)"
  by (simp add: funpow_add mult_2)

lemma pow_map_iterates:
  fixes a c x :: int
  shows "((\<lambda>x. a * x + c) ^^ (2 ^ k)) x = fst (pow_map a c k) * x + snd (pow_map a c k)"
proof (induction k arbitrary: x)
  case 0
  then show ?case by simp
next
  case (Suc k)
  then show ?case
    unfolding funpow_double
    by (simp add: case_prod_unfold algebra_simps)
qed

lemma pow_map_shape:
  assumes "a mod 4 = 1" and "odd c"
  shows "\<exists>m d. fst (pow_map a c k) = 1 + 2 ^ (k + 2) * m \<and> snd (pow_map a c k) = 2 ^ k * d \<and> odd d"
proof (induction k)
  case 0
  have "a = 1 + 4 * (a div 4)"
    using assms(1) by presburger
  then have "fst (pow_map a c 0) = 1 + 2 ^ (0 + 2) * (a div 4)"
    by simp
  moreover have "snd (pow_map a c 0) = 2 ^ 0 * c"
    by simp
  ultimately show ?case using assms(2) by blast
next
  case (Suc k)
  then obtain m d where A: "fst (pow_map a c k) = 1 + 2 ^ (k + 2) * m"
    and C: "snd (pow_map a c k) = 2 ^ k * d" and d: "odd d"
    by blast
  have "fst (pow_map a c (Suc k)) = 1 + 2 ^ (Suc k + 2) * (m + 2 ^ (k + 1) * m * m)"
    by (simp add: case_prod_unfold A algebra_simps power_add)
  moreover have "snd (pow_map a c (Suc k)) = 2 ^ Suc k * (d * (1 + 2 ^ (k + 1) * m))"
    by (simp add: case_prod_unfold A C algebra_simps power_add)
  moreover have "odd (d * (1 + 2 ^ (k + 1) * m))"
    using d by simp
  ultimately show ?case by blast
qed

lemma pow_map_shift:
  fixes a c x :: int
  assumes "a mod 4 = 1" and "odd c"
  shows "\<exists>e. odd e \<and> ((\<lambda>x. a * x + c) ^^ (2 ^ k)) x = x + 2 ^ k * e"
proof -
  obtain m d where A: "fst (pow_map a c k) = 1 + 2 ^ (k + 2) * m"
    and C: "snd (pow_map a c k) = 2 ^ k * d" and d: "odd d"
    using pow_map_shape [OF assms] by blast
  have "((\<lambda>x. a * x + c) ^^ (2 ^ k)) x = x + 2 ^ k * (4 * m * x + d)"
    unfolding pow_map_iterates A C by (simp add: algebra_simps power_add)
  moreover have "odd (4 * m * x + d)"
    using d by simp
  ultimately show ?thesis by blast
qed

text \<open>Bit by bit: if the low \<open>k\<close> bits of the target are right, the next one can be fixed.\<close>

lemma affine_reaches_mod:
  fixes a c x y :: int
  assumes "a mod 4 = 1" and "odd c"
  shows "\<exists>n. ((\<lambda>x. a * x + c) ^^ n) x mod 2 ^ k = y mod 2 ^ k"
proof (induction k)
  case 0
  then show ?case by simp
next
  case (Suc k)
  let ?f = "\<lambda>x. a * x + c"
  obtain n where n: "(?f ^^ n) x mod 2 ^ k = y mod 2 ^ k"
    using Suc by blast
  then obtain q where q: "(?f ^^ n) x - y = 2 ^ k * q"
    by (metis mod_eq_dvd_iff dvdE)
  show ?case
  proof (cases "even q")
    case True
    then obtain r where "q = 2 * r" by (elim evenE)
    with q have "(?f ^^ n) x = y + 2 ^ Suc k * r" by simp
    then have "(?f ^^ n) x mod 2 ^ Suc k = y mod 2 ^ Suc k" by simp
    then show ?thesis by blast
  next
    case False
    obtain e where e: "odd e" "(?f ^^ (2 ^ k)) ((?f ^^ n) x) = (?f ^^ n) x + 2 ^ k * e"
      using pow_map_shift [OF assms] by blast
    from False e(1) obtain r where "q + e = 2 * r" by (metis evenE odd_even_add)
    then have "2 ^ k * q + 2 ^ k * e = 2 ^ Suc k * r"
      by (simp flip: distrib_left)
    with q e(2) have "(?f ^^ (2 ^ k)) ((?f ^^ n) x) = y + 2 ^ Suc k * r"
      by simp
    then have "(?f ^^ (2 ^ k + n)) x = y + 2 ^ Suc k * r"
      by (simp add: funpow_add)
    then have "(?f ^^ (2 ^ k + n)) x mod 2 ^ Suc k = y mod 2 ^ Suc k" by simp
    then show ?thesis by blast
  qed
qed

definition lcg_affine :: "int \<Rightarrow> int" where
  "lcg_affine x = 0x5DEECE66D * x + 0xB"

lemma lcg_step_mod: "lcg_step (z mod 2 ^ 48) = lcg_affine z mod 2 ^ 48"
  unfolding lcg_step_def lcg_affine_def by (metis mod_add_left_eq mod_mult_right_eq)

lemma lcg_iter_affine: "(lcg_step ^^ n) (lcg_step x) = (lcg_affine ^^ n) (lcg_affine x) mod 2 ^ 48"
proof (induction n)
  case 0
  then show ?case by (simp add: lcg_step_def lcg_affine_def)
next
  case (Suc n)
  then show ?case
    by (simp only: funpow.simps comp_def lcg_step_mod)
qed

theorem lcg_full_period:
  assumes "rng_ok y"
  shows "\<exists>n. (lcg_step ^^ Suc n) x = y"
proof -
  have "\<exists>n. (lcg_affine ^^ n) (lcg_affine x) mod 2 ^ 48 = y mod 2 ^ 48"
    unfolding lcg_affine_def by (rule affine_reaches_mod) simp_all
  then obtain n where "(lcg_step ^^ n) (lcg_step x) = y mod 2 ^ 48"
    unfolding lcg_iter_affine by blast
  moreover have "y mod 2 ^ 48 = y"
    using assms by (simp add: rng_ok_def)
  ultimately have "(lcg_step ^^ Suc n) x = y"
    by (simp add: funpow_swap1)
  then show ?thesis by blast
qed

corollary lrand48_reaches:
  assumes "0 \<le> v" and "v < 2 ^ 31"
  shows "\<exists>n. lrand48_of ((lcg_step ^^ Suc n) x) = v"
proof -
  have "rng_ok (v * 2 ^ 17)" and "lrand48_of (v * 2 ^ 17) = v"
    using assms by (simp_all add: rng_ok_def lrand48_of_def)
  then show ?thesis using lcg_full_period by metis
qed

section \<open>How long a seeded generator stays away from zero\<close>

text \<open>Modulo \<open>2^k\<close> the orbit of an affine map has no cycle shorter than \<open>2^k\<close>.\<close>

lemma affine_shift_multiple:
  fixes a c x :: int
  assumes "a mod 4 = 1" and "odd c"
  shows "\<exists>e. (even e \<longleftrightarrow> even q) \<and> ((\<lambda>x. a * x + c) ^^ (2 ^ k * q)) x = x + 2 ^ k * e"
proof (induction q)
  case 0
  show ?case by (intro exI [of _ 0]) simp
next
  case (Suc q)
  let ?f = "\<lambda>x. a * x + c"
  obtain e where e: "even e \<longleftrightarrow> even q" "(?f ^^ (2 ^ k * q)) x = x + 2 ^ k * e" using Suc by blast
  obtain d where d: "odd d" "(?f ^^ (2 ^ k)) (x + 2 ^ k * e) = x + 2 ^ k * e + 2 ^ k * d"
    using pow_map_shift [OF assms] by blast
  have "(?f ^^ (2 ^ k * Suc q)) x = x + 2 ^ k * (e + d)"
    using e(2) d(2) by (simp add: funpow_add distrib_left)
  with e(1) d(1) show ?case by (intro exI [of _ "e + d"]) simp
qed

lemma affine_cycle_dvd:
  fixes a c x :: int
  assumes "a mod 4 = 1" and "odd c" and "((\<lambda>x. a * x + c) ^^ d) x mod 2 ^ k = x mod 2 ^ k"
  shows "2 ^ k dvd d"
  using assms(3)
proof (induction k)
  case (Suc k)
  let ?f = "\<lambda>x. a * x + c"
  have dvd: "2 ^ Suc k dvd (?f ^^ d) x - x" using Suc.prems by (simp only: mod_eq_dvd_iff)
  then have "2 ^ k dvd (?f ^^ d) x - x" by (rule dvd_trans [rotated]) simp
  then obtain q where q: "d = 2 ^ k * q" using Suc.IH by (auto simp: mod_eq_dvd_iff)
  obtain e where e: "even e \<longleftrightarrow> even q" "(?f ^^ d) x = x + 2 ^ k * e"
    using affine_shift_multiple [OF assms(1,2)] q by blast
  then have "even q" using dvd by simp
  then show ?case unfolding q by auto
qed simp

text \<open>Iterating by squaring, for a number of steps given by its bits, the lowest first.\<close>

primrec bits_val :: "bool list \<Rightarrow> nat" where
  "bits_val [] = 0"
| "bits_val (b # bs) = 2 * bits_val bs + (if b then 1 else 0)"

primrec jump16 :: "bool list \<Rightarrow> 16 word \<times> 16 word" where
  "jump16 [] = (1, 0)"
| "jump16 (b # bs) = (case jump16 bs of (A, C) \<Rightarrow>
     if b then (0x5DEECE66D * (A * A), 0x5DEECE66D * (A * C + C) + 0xB) else (A * A, A * C + C))"

lemma jump16: "of_int ((lcg_affine ^^ bits_val bs) y) = fst (jump16 bs) * of_int y + snd (jump16 bs)"
proof (induction bs arbitrary: y)
  case (Cons b bs)
  have step: "of_int (lcg_affine z) = 0x5DEECE66D * of_int z + (0xB :: 16 word)" for z by (simp add: lcg_affine_def)
  have "of_int ((lcg_affine ^^ (2 * bits_val bs)) y) =
      fst (jump16 bs) * (fst (jump16 bs) * of_int y + snd (jump16 bs)) + snd (jump16 bs)"
    unfolding mult_2 funpow_add comp_apply Cons.IH ..
  then show ?case by (cases b) (simp_all add: step case_prod_unfold algebra_simps)
qed simp

text \<open>
  The low sixteen bits of a seed are fixed, so the first state whose low bits are zero comes
  after the same number of steps from every seed.
\<close>

lemma seeded_low_bits: "(lcg_affine ^^ 47434) (srand48_of seed) mod 2 ^ 16 = 0"
proof -
  let ?bs = "[False, True, False, True, False, False, True, False, True, False, False, True, True, True, False, True]"
  have n: "bits_val ?bs = 47434" by simp
  have zero: "(65536 :: 16 word) = 0" by simp
  have x: "(of_int (srand48_of seed) :: 16 word) = 0x330E" by (simp add: srand48_of_def zero)
  have "fst (jump16 ?bs) * 0x330E + snd (jump16 ?bs) = 0" by code_simp
  then have "(of_int ((lcg_affine ^^ 47434) (srand48_of seed)) :: 16 word) = 0"
    using jump16 [of ?bs "srand48_of seed"] unfolding n x by (rule trans [rotated])
  then have "2 ^ 16 dvd (lcg_affine ^^ 47434) (srand48_of seed)" unfolding word_of_int_eq_0_iff by (simp only: len_num1 len_bit0 len_of_numeral_defs) simp
  then show ?thesis by (rule dvd_imp_mod_0)
qed

lemma lcg_iter_mod:
  assumes "rng_ok x"
  shows "(lcg_step ^^ n) x = (lcg_affine ^^ n) x mod 2 ^ 48"
proof (induction n)
  case (Suc n)
  then show ?case by (simp only: funpow.simps comp_apply lcg_step_mod)
qed (use assms in \<open>simp add: rng_ok_def\<close>)

theorem seeded_never_zero:
  assumes "n < 47434"
  shows "(lcg_step ^^ n) (srand48_of seed) \<noteq> 0"
proof
  let ?x = "srand48_of seed" and ?d = "47434 - n"
  assume "(lcg_step ^^ n) ?x = 0"
  then have "2 ^ 48 dvd (lcg_affine ^^ n) ?x" by (simp add: lcg_iter_mod mod_eq_0_iff_dvd)
  then have z: "(lcg_affine ^^ n) ?x mod 2 ^ 16 = 0" by (auto intro: dvd_trans [rotated] simp: mod_eq_0_iff_dvd)
  have "(lcg_affine ^^ ?d) ((lcg_affine ^^ n) ?x) = (lcg_affine ^^ 47434) ?x"
    using assms by (simp add: funpow_add [symmetric, THEN fun_cong, simplified comp_apply])
  then have "(lcg_affine ^^ ?d) ((lcg_affine ^^ n) ?x) mod 2 ^ 16 = (lcg_affine ^^ n) ?x mod 2 ^ 16"
    using seeded_low_bits [of seed] z by simp
  then have "2 ^ 16 dvd ?d"
    unfolding lcg_affine_def by (rule affine_cycle_dvd [rotated 2]) simp_all
  then have "2 ^ 16 \<le> ?d" using assms by (intro dvd_imp_le) simp_all
  then show False by simp
qed

section \<open>What a client relies on\<close>

text \<open>
  A source of draws: a state that moves with every draw.  \<open>fair\<close> says that every value
  of the range comes up from every state.  A client that redraws while it dislikes the
  value then stops, as long as it likes one value at all.
\<close>

locale draw_source =
  fixes step :: "'r \<Rightarrow> 'r" and draw :: "'r \<Rightarrow> int" and good :: "'r \<Rightarrow> bool" and bound :: int
  assumes fair: "0 \<le> v \<Longrightarrow> v < bound \<Longrightarrow> \<exists>n. draw ((step ^^ Suc n) x) = v"
    and good_step: "good (step x)"
    and draw_range: "good x \<Longrightarrow> 0 \<le> draw x \<and> draw x < bound"
begin

text \<open>The number of further draws until one satisfies \<open>P\<close>.\<close>

definition wait :: "(int \<Rightarrow> bool) \<Rightarrow> 'r \<Rightarrow> nat" where
  "wait P x = (LEAST n. P (draw ((step ^^ n) x)))"

lemma some_draw_satisfies:
  assumes "0 \<le> v" and "v < bound" and "P v"
  shows "\<exists>n. P (draw ((step ^^ n) x))"
  using fair [OF assms(1,2), of x] assms(3) by metis

lemma wait_decreases:
  assumes "0 \<le> v" and "v < bound" and "P v" and "\<not> P (draw x)"
  shows "wait P (step x) < wait P x"
proof -
  obtain n where n: "P (draw ((step ^^ n) x))" "wait P x = n"
    using some_draw_satisfies [of v P, OF assms(1-3)] unfolding wait_def
    by (metis (mono_tags, lifting) LeastI_ex)
  with assms(4) obtain k where "n = Suc k"
    by (cases n) auto
  with n have "P (draw ((step ^^ k) (step x)))"
    by (simp add: funpow_swap1)
  then have "wait P (step x) \<le> k"
    unfolding wait_def by (rule Least_le)
  with n \<open>n = Suc k\<close> show ?thesis by simp
qed

end

interpretation lrand: draw_source lcg_step lrand48_of rng_ok "2 ^ 31"
proof unfold_locales
  fix v x :: int
  assume "0 \<le> v" and "v < 2 ^ 31"
  then show "\<exists>n. lrand48_of ((lcg_step ^^ Suc n) x) = v"
    by (rule lrand48_reaches)
qed (use lrand48_of_range in auto)

section \<open>Redrawing\<close>

text \<open>The first state from \<open>x\<close> on whose draw satisfies \<open>P\<close>.\<close>

definition draw_until :: "(int \<Rightarrow> bool) \<Rightarrow> rng \<Rightarrow> rng" where
  "draw_until P x = while (\<lambda>x. \<not> P (lrand48_of x)) lcg_step x"

lemma draw_until_unfold: "draw_until P x = (if P (lrand48_of x) then x else draw_until P (lcg_step x))"
  unfolding draw_until_def by (subst while_unfold) simp

text \<open>It exists: the generator comes by every value.\<close>

lemma draw_until_hits:
  assumes "0 \<le> v" and "v < 2 ^ 31" and "P v" and "rng_ok x"
  shows "P (lrand48_of (draw_until P x)) \<and> rng_ok (draw_until P x)"
  unfolding draw_until_def
proof (rule while_rule [where P = rng_ok and r = "measure (lrand.wait P)"])
  show "(lcg_step y, y) \<in> measure (lrand.wait P)" if "\<not> P (lrand48_of y)" for y
    using lrand.wait_decreases [OF assms(1-3) that] by simp
qed (use assms(4) in auto)

end
