(* ===== verification/C_Double.thy ===== *)
theory C_Double
  imports Complex_Main C_Prelude
begin

text \<open>
  The C type \<open>double\<close> as IEEE 754 binary64 with round-to-nearest-even: a finite value is
  the rational it denotes, beside the two infinities and NaN.  The sign of a zero is not
  kept; no operation of the modelled code returns a finite value that depends on it.
  Arithmetic computes the exact rational and rounds it (\<open>rnd\<close>); a comparison with NaN is
  false; conversion to a 64-bit integer truncates and is undefined behaviour when the
  truncated value does not fit.

  The main fact is \<open>rnd_exact\<close>: rounding leaves every value alone that has at most 53
  significant bits, so arithmetic on small integers is exact.
\<close>

section \<open>Rounding\<close>

datatype dbl = Fin rat | PInf | NInf | NaN

fun ilog2 :: "nat \<Rightarrow> nat" where
  "ilog2 n = (if n < 2 then 0 else Suc (ilog2 (n div 2)))"

declare ilog2.simps [simp del]

definition pow2 :: "int \<Rightarrow> rat" where
  "pow2 e = (if 0 \<le> e then 2 ^ nat e else 1 / 2 ^ nat (- e))"

text \<open>The exponent of a positive rational: \<open>pow2 e \<le> x < pow2 (e + 1)\<close>.\<close>

definition expo :: "rat \<Rightarrow> int" where
  "expo x = (case quotient_of x of (a, b) \<Rightarrow>
     let e = int (ilog2 (nat a)) - int (ilog2 (nat b)) in if pow2 e \<le> x then e else e - 1)"

text \<open>The same logarithm on integers, whose code works in binary.\<close>

function ilog2_int :: "int \<Rightarrow> int" where
  "ilog2_int n = (if n < 2 then 0 else 1 + ilog2_int (n div 2))"
  by pat_completeness auto
termination by (relation "measure nat") auto

declare ilog2_int.simps [simp del]

lemma ilog2_int: "int (ilog2 (nat n)) = ilog2_int n"
proof (induction n rule: ilog2_int.induct)
  case (1 n)
  show ?case
  proof (cases "n < 2")
    case False
    then have "nat n div 2 = nat (n div 2)" and "\<not> nat n < 2" by (auto simp: nat_div_distrib)
    with False 1 show ?thesis by (simp add: ilog2.simps [of "nat n"] ilog2_int.simps [of n])
  qed (simp add: ilog2.simps [of "nat n"] ilog2_int.simps [of n])
qed

lemma expo_code [code]:
  "expo x = (case quotient_of x of (a, b) \<Rightarrow>
     let e = ilog2_int a - ilog2_int b in if pow2 e \<le> x then e else e - 1)"
  by (simp add: expo_def ilog2_int)

definition rne :: "rat \<Rightarrow> int" where
  "rne x = (let f = \<lfloor>x\<rfloor>; d = x - of_int f in
     if d < 1 / 2 then f else if 1 / 2 < d then f + 1 else if even f then f else f + 1)"

definition rnd :: "rat \<Rightarrow> dbl" where
  "rnd x = (if x = 0 then Fin 0 else
     let u = pow2 (max (expo \<bar>x\<bar> - 52) (- 1074)); y = u * of_int (rne (\<bar>x\<bar> / u))
     in if pow2 1024 \<le> y then (if x < 0 then NInf else PInf) else Fin (sgn x * y))"

section \<open>Operations\<close>

fun d_less :: "dbl \<Rightarrow> dbl \<Rightarrow> bool" where
  "d_less (Fin a) (Fin b) = (a < b)"
| "d_less (Fin a) PInf = True"
| "d_less NInf (Fin b) = True"
| "d_less NInf PInf = True"
| "d_less _ _ = False"

fun d_inf :: "bool \<Rightarrow> dbl" where
  "d_inf neg = (if neg then NInf else PInf)"

fun d_mul :: "dbl \<Rightarrow> dbl \<Rightarrow> dbl" where
  "d_mul NaN _ = NaN"
| "d_mul _ NaN = NaN"
| "d_mul (Fin a) (Fin b) = rnd (a * b)"
| "d_mul (Fin a) PInf = (if a = 0 then NaN else d_inf (a < 0))"
| "d_mul (Fin a) NInf = (if a = 0 then NaN else d_inf (0 < a))"
| "d_mul PInf (Fin b) = (if b = 0 then NaN else d_inf (b < 0))"
| "d_mul NInf (Fin b) = (if b = 0 then NaN else d_inf (0 < b))"
| "d_mul PInf PInf = PInf"
| "d_mul PInf NInf = NInf"
| "d_mul NInf PInf = NInf"
| "d_mul NInf NInf = PInf"

fun d_div :: "dbl \<Rightarrow> dbl \<Rightarrow> dbl" where
  "d_div NaN _ = NaN"
| "d_div _ NaN = NaN"
| "d_div (Fin a) (Fin b) =
     (if b = 0 then (if a = 0 then NaN else d_inf (a < 0)) else rnd (a / b))"
| "d_div (Fin a) _ = Fin 0"
| "d_div PInf (Fin b) = d_inf (b < 0)"
| "d_div NInf (Fin b) = d_inf (0 \<le> b)"
| "d_div _ _ = NaN"

definition d_trunc :: "rat \<Rightarrow> int" where
  "d_trunc r = (if r < 0 then \<lceil>r\<rceil> else \<lfloor>r\<rfloor>)"

definition d_to_s64 :: "dbl \<Rightarrow> ('w, int) prog" where
  "d_to_s64 d = (case d of
     Fin r \<Rightarrow> if in_s64 (d_trunc r) then c_val (d_trunc r) else c_undef FloatCast
   | _ \<Rightarrow> c_undef FloatCast)"

section \<open>Exactness of rounding\<close>

lemma ilog2_bounds: "0 < n \<Longrightarrow> 2 ^ ilog2 n \<le> n \<and> n < 2 ^ Suc (ilog2 n)"
proof (induction n rule: ilog2.induct)
  case (1 n)
  show ?case
  proof (cases "n < 2")
    case True
    with 1 show ?thesis by (simp add: ilog2.simps [of n])
  next
    case False
    with 1 have IH: "2 ^ ilog2 (n div 2) \<le> n div 2" "n div 2 < 2 ^ Suc (ilog2 (n div 2))"
      by auto
    have "ilog2 n = Suc (ilog2 (n div 2))"
      using False by (simp add: ilog2.simps [of n])
    moreover have "2 * 2 ^ ilog2 (n div 2) \<le> n" "n < 2 * 2 ^ Suc (ilog2 (n div 2))"
      using IH by linarith+
    ultimately show ?thesis by simp
  qed
qed

lemma pow2_pos [simp]: "0 < pow2 e"
  by (simp add: pow2_def)

lemma pow2_nonzero [simp]: "pow2 e \<noteq> 0"
  by (simp add: pow2_def)

lemma pow2_0 [simp]: "pow2 0 = 1"
  by (simp add: pow2_def)

lemma pow2_int [simp]: "pow2 (int n) = 2 ^ n"
  by (simp add: pow2_def)

lemma pow2_powi: "pow2 e = 2 powi e"
  by (auto simp: pow2_def power_int_def power_inverse field_simps)

lemma pow2_add: "pow2 (a + b) = pow2 a * pow2 b"
  by (simp add: pow2_powi power_int_add)

lemma pow2_diff: "pow2 (a - b) = pow2 a / pow2 b"
  by (simp add: pow2_powi power_int_diff)

lemma pow2_strict_mono: "a < b \<Longrightarrow> pow2 a < pow2 b"
  by (simp add: pow2_powi power_int_strict_increasing)

lemma pow2_less_iff [simp]: "pow2 a < pow2 b \<longleftrightarrow> a < b"
  using pow2_strict_mono [of a b] pow2_strict_mono [of b a] by (cases a b rule: linorder_cases) auto

lemma pow2_le_iff [simp]: "pow2 a \<le> pow2 b \<longleftrightarrow> a \<le> b"
  using pow2_less_iff [of b a] by (simp only: not_less [symmetric])

lemma rat_ilog2_bounds:
  assumes "0 < a"
  shows "pow2 (int (ilog2 (nat a))) \<le> of_int a \<and> of_int a < pow2 (int (ilog2 (nat a)) + 1)"
proof -
  obtain n where n: "a = int n" "0 < n"
    using assms by (metis zero_less_imp_eq_int)
  have "(2::rat) ^ ilog2 n \<le> of_nat n" and "of_nat n < (2::rat) ^ Suc (ilog2 n)"
    using ilog2_bounds [OF n(2)] by (metis of_nat_le_iff of_nat_less_iff of_nat_numeral of_nat_power)+
  with n(1) show ?thesis by (simp add: pow2_add) (simp add: pow2_def)
qed

lemma expo_bounds:
  assumes "0 < x"
  shows "pow2 (expo x) \<le> x \<and> x < pow2 (expo x + 1)"
proof -
  obtain a b where q: "quotient_of x = (a, b)" by force
  have b: "0 < b" using quotient_of_denom_pos [OF q] .
  have x: "x = of_int a / of_int b" using quotient_of_div [OF q] .
  with assms b have a: "0 < a" by (simp add: zero_less_divide_iff)
  define i j where "i = int (ilog2 (nat a))" and "j = int (ilog2 (nat b))"
  have A: "pow2 i \<le> of_int a" "of_int a < pow2 (i + 1)"
    using rat_ilog2_bounds [OF a] by (simp_all add: i_def)
  have B: "pow2 j \<le> of_int b" "of_int b < pow2 (j + 1)"
    using rat_ilog2_bounds [OF b] by (simp_all add: j_def)
  have "x < pow2 (i + 1) / pow2 j"
    unfolding x using A B a b by (intro frac_less) auto
  moreover have "pow2 i / pow2 (j + 1) < x"
    unfolding x using A B a b by (intro frac_less2) auto
  ultimately have "x < pow2 (i - j + 1)" and "pow2 (i - j - 1) < x"
    by (simp_all add: pow2_diff [symmetric] algebra_simps)
  then show ?thesis
    by (simp add: expo_def q Let_def i_def [symmetric] j_def [symmetric])
qed

lemma expo_less: "0 < x \<Longrightarrow> x < pow2 k \<Longrightarrow> expo x < k"
  using expo_bounds [of x] by (metis order_le_less_trans pow2_less_iff)

lemma rne_of_int [simp]: "rne (of_int n) = n"
  by (simp add: rne_def)

lemma rne_nonneg: "0 \<le> x \<Longrightarrow> 0 \<le> rne x"
  by (simp add: rne_def Let_def)

lemma rne_le: "of_int (rne x) \<le> x + 1"
proof -
  have "rne x \<le> \<lfloor>x\<rfloor> + 1" by (simp add: rne_def Let_def)
  then have "of_int (rne x) \<le> (of_int (\<lfloor>x\<rfloor> + 1) :: rat)" by (simp only: of_int_le_iff)
  then show ?thesis by (simp add: le_floor_iff) (rule order_trans, assumption, simp)
qed

lemma of_int_times_pow2: "0 \<le> k \<Longrightarrow> of_int m * pow2 k = of_int (m * 2 ^ nat k)"
  by (simp add: pow2_def)

lemma rnd_exact:
  assumes x: "x = of_int m * pow2 k" and m: "\<bar>m\<bar> < 2 ^ 53" and k: "- 1074 \<le> k" "k \<le> 900"
  shows "rnd x = Fin x"
proof (cases "x = 0")
  case False
  define u where "u = max (expo \<bar>x\<bar> - 52) (- 1074)"
  have abs_x: "\<bar>x\<bar> = of_int \<bar>m\<bar> * pow2 k"
    by (simp add: x abs_mult abs_of_pos)
  have "of_int \<bar>m\<bar> < (of_int (2 ^ 53) :: rat)"
    using m by (simp only: of_int_less_iff)
  then have lt: "\<bar>x\<bar> < pow2 (53 + k)"
    unfolding abs_x pow2_add by (simp add: pow2_def [of 53])
  then have "u \<le> k"
    using expo_less [of "\<bar>x\<bar>" "53 + k"] False k by (simp add: u_def)
  then have q: "\<bar>x\<bar> / pow2 u = of_int (\<bar>m\<bar> * 2 ^ nat (k - u))"
    unfolding abs_x times_divide_eq_right [symmetric] pow2_diff [symmetric]
    by (intro of_int_times_pow2) simp
  have y: "pow2 u * of_int (rne (\<bar>x\<bar> / pow2 u)) = \<bar>x\<bar>"
    unfolding q rne_of_int unfolding q [symmetric] by simp
  have "pow2 (53 + k) \<le> pow2 1024"
    using k by (simp only: pow2_le_iff)
  with lt have "\<not> pow2 1024 \<le> \<bar>x\<bar>"
    by linarith
  with False show ?thesis
    unfolding rnd_def Let_def u_def [symmetric] y by (simp add: sgn_mult_abs)
qed (simp add: rnd_def)

lemma rnd_of_int: "\<bar>m\<bar> < 2 ^ 53 \<Longrightarrow> rnd (of_int m) = Fin (of_int m)"
  by (rule rnd_exact [of _ m 0]) simp_all

lemma rnd_nonneg:
  assumes "0 \<le> x"
  shows "rnd x = PInf \<or> (\<exists>r \<ge> 0. rnd x = Fin r)"
proof (cases "x = 0")
  case False
  define u where "u = max (expo \<bar>x\<bar> - 52) (- 1074)"
  have "0 \<le> rne (\<bar>x\<bar> / pow2 u)"
    by (rule rne_nonneg) (simp add: less_imp_le)
  then have "0 \<le> pow2 u * of_int (rne (\<bar>x\<bar> / pow2 u))"
    by (simp add: less_imp_le)
  with False assms show ?thesis
    unfolding rnd_def Let_def u_def [symmetric] by simp
qed (simp add: rnd_def)

text \<open>Rounding at most doubles a number and adds one; far below the largest number it does not overflow.\<close>

lemma rnd_bound:
  assumes "\<bar>x\<bar> \<le> 2 ^ 60"
  obtains r where "rnd x = Fin r" and "\<bar>r\<bar> \<le> 2 * \<bar>x\<bar> + 1"
proof (cases "x = 0")
  case False
  define u where "u = max (expo \<bar>x\<bar> - 52) (- 1074)"
  define y where "y = pow2 u * of_int (rne (\<bar>x\<bar> / pow2 u))"
  have "pow2 (expo \<bar>x\<bar> - 52) \<le> \<bar>x\<bar>"
  proof (rule order_trans)
    show "pow2 (expo \<bar>x\<bar> - 52) \<le> pow2 (expo \<bar>x\<bar>)" by simp
    show "pow2 (expo \<bar>x\<bar>) \<le> \<bar>x\<bar>" using expo_bounds [of "\<bar>x\<bar>"] False by simp
  qed
  moreover have "pow2 (- 1074) \<le> 1" using pow2_le_iff [of "- 1074" 0] by simp
  ultimately have "pow2 u \<le> \<bar>x\<bar> + 1" by (auto simp: u_def max_def intro: add_increasing)
  moreover have "of_int (rne (\<bar>x\<bar> / pow2 u)) \<le> \<bar>x\<bar> / pow2 u + 1"
    by (rule rne_le)
  then have "y \<le> pow2 u * (\<bar>x\<bar> / pow2 u + 1)" unfolding y_def by (intro mult_left_mono) (simp_all add: less_imp_le)
  then have "y \<le> \<bar>x\<bar> + pow2 u" by (simp add: distrib_left)
  ultimately have y: "y \<le> 2 * \<bar>x\<bar> + 1" by simp
  moreover have "(2::rat) * 2 ^ 60 + 1 < pow2 1024" by (simp add: pow2_def)
  ultimately have "\<not> pow2 1024 \<le> y" using assms by linarith
  moreover have "0 \<le> y" unfolding y_def using rne_nonneg [of "\<bar>x\<bar> / pow2 u"] by (simp add: less_imp_le)
  ultimately show ?thesis
    using False y that [of "sgn x * y"] by (simp add: rnd_def Let_def u_def [symmetric] y_def [symmetric] abs_mult)
qed (use that in \<open>simp add: rnd_def\<close>)

lemma d_trunc_of_int [simp]: "d_trunc (of_int n) = n"
  by (simp add: d_trunc_def)

lemma d_trunc_nonneg: "0 \<le> r \<Longrightarrow> 0 \<le> d_trunc r"
  by (simp add: d_trunc_def)

lemma wp_d_to_s64:
  "wp u (d_to_s64 d) Q R X w =
     (case d of Fin r \<Rightarrow> if in_s64 (d_trunc r) then Q (d_trunc r) w else u | _ \<Rightarrow> u)"
  by (simp add: d_to_s64_def split: dbl.split)

end
