(* ===== verification/C_Strings.thy ===== *)
theory C_Strings
  imports C_Double
begin

text \<open>
  The text conversions of the C library the tools use: \<open>strtol\<close>/\<open>strtoll\<close> in base ten
  (with their clamping to the range of \<open>long long\<close>), \<open>strtod\<close>/\<open>atof\<close> in the C
  locale (decimal, hexadecimal, infinity and NaN forms, rounded to a double), and the
  decimal output of the \<open>%ld\<close> conversion.  The lemmas show that printing an integer and
  reading it back returns it.
\<close>

section \<open>Characters\<close>

definition is_space :: "char \<Rightarrow> bool" where
  "is_space c = (of_char c \<in> {9, 10, 11, 12, 13, 32 :: nat})"

definition digit_val :: "char \<Rightarrow> nat option" where
  "digit_val c = (let n = of_char c :: nat in
     if 48 \<le> n \<and> n \<le> 57 then Some (n - 48)
     else if 97 \<le> n \<and> n \<le> 102 then Some (n - 87)
     else if 65 \<le> n \<and> n \<le> 70 then Some (n - 55)
     else None)"

definition is_digit :: "nat \<Rightarrow> char \<Rightarrow> bool" where
  "is_digit base c = (case digit_val c of None \<Rightarrow> False | Some d \<Rightarrow> d < base)"

definition digits_val :: "nat \<Rightarrow> string \<Rightarrow> nat" where
  "digits_val base cs = foldl (\<lambda>n c. base * n + the (digit_val c)) 0 cs"

definition split_sign :: "string \<Rightarrow> bool \<times> string" where
  "split_sign s = (case s of
     c # cs \<Rightarrow> if c = CHR ''-'' then (True, cs) else if c = CHR ''+'' then (False, cs) else (False, s)
   | [] \<Rightarrow> (False, []))"

section \<open>Integers\<close>

definition strtoll :: "string \<Rightarrow> int" where
  "strtoll s = (case split_sign (dropWhile is_space s) of (neg, r) \<Rightarrow>
     let n = int (digits_val 10 (takeWhile (is_digit 10) r))
     in if neg then max LLONG_MIN (- n) else min LLONG_MAX n)"

definition digit_char :: "nat \<Rightarrow> char" where
  "digit_char d = char_of (48 + d)"

fun show_nat :: "nat \<Rightarrow> string" where
  "show_nat n = (if n < 10 then [digit_char n] else show_nat (n div 10) @ [digit_char (n mod 10)])"

declare show_nat.simps [simp del]

definition show_int :: "int \<Rightarrow> string" where
  "show_int i = (if i < 0 then CHR ''-'' # show_nat (nat (- i)) else show_nat (nat i))"

section \<open>Floating point\<close>

definition to_lower :: "char \<Rightarrow> char" where
  "to_lower c = (let n = of_char c :: nat in if 65 \<le> n \<and> n \<le> 90 then char_of (n + 32) else c)"

definition has_prefix :: "string \<Rightarrow> string \<Rightarrow> bool" where
  "has_prefix p s = (map to_lower (take (length p) s) = p)"

text \<open>A signed exponent after its letter; none when no digit follows.\<close>

definition read_exponent :: "char \<Rightarrow> string \<Rightarrow> int" where
  "read_exponent letter s = (case s of
     c # cs \<Rightarrow> if to_lower c = letter then
        (case split_sign cs of (neg, r) \<Rightarrow>
           let n = int (digits_val 10 (takeWhile (is_digit 10) r)) in if neg then - n else n)
      else 0
   | [] \<Rightarrow> 0)"

definition rat_pow :: "nat \<Rightarrow> int \<Rightarrow> rat" where
  "rat_pow base e = (if 0 \<le> e then of_nat base ^ nat e else 1 / of_nat base ^ nat (- e))"

text \<open>
  Digits, an optional fraction and an optional exponent in a base; \<open>per\<close> is the exponent's
  base and \<open>w\<close> how many powers of it one fraction digit is worth.
\<close>

definition read_mantissa :: "nat \<Rightarrow> nat \<Rightarrow> nat \<Rightarrow> char \<Rightarrow> string \<Rightarrow> rat option" where
  "read_mantissa base per w letter s =
     (let ip = takeWhile (is_digit base) s; r = dropWhile (is_digit base) s;
          frac = (case r of c # cs \<Rightarrow> c = CHR ''.'' | [] \<Rightarrow> False);
          fp = (if frac then takeWhile (is_digit base) (tl r) else []);
          r' = (if frac then dropWhile (is_digit base) (tl r) else r)
      in if ip = [] \<and> fp = [] then None
         else Some (of_nat (digits_val base (ip @ fp)) *
                    rat_pow per (read_exponent letter r' - int (w * length fp))))"

definition d_neg :: "bool \<Rightarrow> dbl \<Rightarrow> dbl" where
  "d_neg neg d = (if neg then (case d of Fin r \<Rightarrow> Fin (- r) | PInf \<Rightarrow> NInf | NInf \<Rightarrow> PInf | NaN \<Rightarrow> NaN) else d)"

definition strtod :: "string \<Rightarrow> dbl" where
  "strtod s = (case split_sign (dropWhile is_space s) of (neg, r) \<Rightarrow>
     d_neg neg
      (if has_prefix ''inf'' r then PInf
       else if has_prefix ''nan'' r then NaN
       else case (if has_prefix ''0x'' r then read_mantissa 16 2 4 (CHR ''p'') (drop 2 r) else None) of
         Some x \<Rightarrow> rnd x
       | None \<Rightarrow> (case read_mantissa 10 10 1 (CHR ''e'') r of Some x \<Rightarrow> rnd x | None \<Rightarrow> Fin 0)))"

definition atof :: "string \<Rightarrow> dbl" where
  "atof s = strtod s"

section \<open>Printing and reading back\<close>

lemma of_char_digit_char: "d < 10 \<Longrightarrow> of_char (digit_char d) = 48 + d"
  by (simp add: digit_char_def)

lemma digit_val_digit_char [simp]: "d < 10 \<Longrightarrow> digit_val (digit_char d) = Some d"
  by (simp add: digit_val_def of_char_digit_char)

lemma is_digit_digit_char [simp]: "d < 10 \<Longrightarrow> is_digit 10 (digit_char d)"
  by (simp add: is_digit_def)

lemma show_nat_digits: "c \<in> set (show_nat n) \<Longrightarrow> is_digit 10 c"
proof (induction n rule: show_nat.induct)
  case (1 n)
  then show ?case
    by (cases "n < 10") (auto simp: show_nat.simps [of n])
qed

lemma show_nat_nonempty [simp]: "show_nat n \<noteq> []"
  by (subst show_nat.simps) simp

lemma digits_val_append:
  "digits_val b (xs @ ys) = foldl (\<lambda>n c. b * n + the (digit_val c)) (digits_val b xs) ys"
  by (simp add: digits_val_def)

lemma digits_val_show_nat [simp]: "digits_val 10 (show_nat n) = n"
proof (induction n rule: show_nat.induct)
  case (1 n)
  then show ?case
    by (cases "n < 10") (simp_all add: show_nat.simps [of n] digits_val_append, simp add: digits_val_def)
qed

lemma is_digit_code: "is_digit 10 c \<longleftrightarrow> 48 \<le> (of_char c :: nat) \<and> (of_char c :: nat) \<le> 57"
  by (auto simp: is_digit_def digit_val_def Let_def)

lemma length_show_nat: "n < 10 ^ Suc k \<Longrightarrow> length (show_nat n) \<le> Suc k"
proof (induction k arbitrary: n)
  case 0
  then show ?case by (simp add: show_nat.simps [of n])
next
  case (Suc k)
  then have "n div 10 < 10 ^ Suc k" by (simp add: div_less_iff_less_mult)
  with Suc.IH show ?case by (simp add: show_nat.simps [of n])
qed

lemma length_show_int: "in_s64 i \<Longrightarrow> length (show_int i) \<le> 20"
proof -
  assume "in_s64 i"
  then have "\<bar>i\<bar> < int (10 ^ 19)" by (auto simp: in_s64_def)
  then have "nat (- i) < 10 ^ 19" "nat i < 10 ^ 19" by linarith+
  then have "length (show_nat (nat (- i))) \<le> 19" "length (show_nat (nat i)) \<le> 19"
    using length_show_nat [of _ 18] by simp_all
  then show ?thesis by (simp add: show_int_def)
qed

lemma show_nat_inject [simp]: "show_nat m = show_nat n \<longleftrightarrow> m = n"
  by (metis digits_val_show_nat)

lemma hd_show_nat: "is_digit 10 (hd (show_nat n))"
  by (rule show_nat_digits [of _ n]) simp

lemma show_nat_Cons: "\<exists>c cs. show_nat n = c # cs \<and> is_digit 10 c"
  using hd_show_nat [of n] by (cases "show_nat n") auto

lemma digit_not_special:
  "is_digit 10 c \<Longrightarrow> \<not> is_space c \<and> c \<noteq> CHR ''-'' \<and> c \<noteq> CHR ''+'' \<and> c \<noteq> CHR ''.'' \<and> c \<noteq> CHR '':'' \<and> c \<noteq> CHR ''/''"
  by (auto simp: is_digit_code is_space_def)

lemma takeWhile_all: "(\<And>x. x \<in> set xs \<Longrightarrow> P x) \<Longrightarrow> takeWhile P xs = xs"
  by (simp add: takeWhile_eq_all_conv)

lemma show_int_chars: "c \<in> set (show_int i) \<Longrightarrow> c = CHR ''-'' \<or> is_digit 10 c"
  by (auto simp: show_int_def dest: show_nat_digits split: if_splits)

lemma show_int_inject [simp]: "show_int i = show_int j \<longleftrightarrow> i = j"
proof -
  have "show_nat m \<noteq> CHR ''-'' # t" for m t
    using show_nat_digits [of "CHR ''-''" m] by (auto simp: is_digit_def digit_val_def)
  then show ?thesis by (auto simp: show_int_def) (metis)+
qed

lemma split_sign_show_nat: "split_sign (dropWhile is_space (show_nat n)) = (False, show_nat n)"
  using show_nat_Cons [of n] by (auto simp: split_sign_def dest: digit_not_special)

lemma split_sign_show_int:
  "split_sign (dropWhile is_space (show_int i)) = (i < 0, show_nat (nat \<bar>i\<bar>))"
proof (cases "i < 0")
  case True
  have "\<not> is_space (CHR ''-'')" by (simp add: is_space_def)
  with True show ?thesis by (simp add: show_int_def split_sign_def)
qed (simp add: show_int_def split_sign_show_nat)

theorem strtoll_show_int: "in_s64 i \<Longrightarrow> strtoll (show_int i) = i"
  by (auto simp: strtoll_def split_sign_show_int takeWhile_all show_nat_digits in_s64_def Let_def)

lemma dropWhile_all: "(\<And>x. x \<in> set xs \<Longrightarrow> P x) \<Longrightarrow> dropWhile P xs = []"
  by (simp add: dropWhile_eq_Nil_conv)

lemma read_mantissa_show_nat: "read_mantissa 10 10 (Suc 0) (CHR ''e'') (show_nat n) = Some (of_nat n)"
  by (simp add: read_mantissa_def takeWhile_all dropWhile_all show_nat_digits read_exponent_def rat_pow_def)

lemma no_prefix_show_nat:
  assumes "p \<noteq> []" and "\<not> is_digit 10 (hd p)"
  shows "\<not> has_prefix p (show_nat n)"
proof -
  obtain c cs where c: "show_nat n = c # cs" "is_digit 10 c"
    using show_nat_Cons by blast
  then have "to_lower c = c"
    by (auto simp: to_lower_def is_digit_code Let_def)
  with c assms show ?thesis
    by (cases p) (auto simp: has_prefix_def)
qed

lemma no_hex_prefix_show_nat: "\<not> has_prefix ''0x'' (show_nat n)"
proof
  assume pre: "has_prefix ''0x'' (show_nat n)"
  obtain c cs where s: "show_nat n = c # cs"
    using show_nat_Cons by blast
  with pre obtain d ds where d: "cs = d # ds" "to_lower d = CHR ''x''"
    by (cases cs) (auto simp: has_prefix_def)
  then have dig: "is_digit 10 d"
    using show_nat_digits [of d n] s by simp
  then have "to_lower d = d"
    by (auto simp: to_lower_def is_digit_code Let_def)
  with d dig show False
    by (simp add: is_digit_code)
qed

theorem atof_show_int:
  assumes "\<bar>i\<bar> < 2 ^ 53"
  shows "atof (show_int i) = Fin (of_int i)"
proof -
  have "rnd (of_nat (nat \<bar>i\<bar>)) = Fin (of_int \<bar>i\<bar>)"
    using assms rnd_of_int [of "\<bar>i\<bar>"] by simp
  then show ?thesis
    by (cases "i < 0") (simp_all add: abs_if atof_def strtod_def split_sign_show_int no_hex_prefix_show_nat
        no_prefix_show_nat is_digit_code read_mantissa_show_nat d_neg_def)
qed

end
