(* ===== verification/Posix_Files.thy ===== *)
theory Posix_Files
  imports Drand48 C_Strings
begin

text \<open>
  The operating system under \<open>corrupt-file.c\<close>, as far as the program can see it: a tree
  of directories and regular files (names map to inode numbers, inode numbers to bytes), the
  table of open file descriptors, \<open>errno\<close>, the state of the random number generator, what
  the program printed, and the system calls it makes.  Paths are resolved into their
  components, with empty components, \<open>.\<close> and \<open>..\<close> handled as POSIX says; there are no
  symbolic links.

  What POSIX leaves to the system is a fault plan: a list with one entry per system call.
  An entry makes the call fail with an error number of the system's choice, or shortens a
  transfer, or does nothing; past the end of the list nothing goes wrong.  Theorems that
  do not mention the plan hold for every plan.

  The locale \<open>fd_table\<close> is the contract of the descriptor table: what a lookup returns
  after an allocation and after a release.
\<close>

section \<open>The state\<close>

datatype errno =
    EOk | EPERM | ENOENT | EIO | EBADF | EFAULT | EEXIST | ENOTDIR | EISDIR | EINVAL | EOVERFLOW
  | EOther nat

fun errno_num :: "errno \<Rightarrow> int" where
  "errno_num EOk = 0"
| "errno_num EPERM = 1"
| "errno_num ENOENT = 2"
| "errno_num EIO = 5"
| "errno_num EBADF = 9"
| "errno_num EFAULT = 14"
| "errno_num EEXIST = 17"
| "errno_num ENOTDIR = 20"
| "errno_num EISDIR = 21"
| "errno_num EINVAL = 22"
| "errno_num EOVERFLOW = 75"
| "errno_num (EOther n) = 256 + int n"

datatype fault = NoFault | Fail errno | Short nat

type_synonym path = "string list"

datatype node = Dir | Reg nat

record ofd =
  of_node :: node
  of_pos :: nat
  of_rd :: bool
  of_wr :: bool

record os =
  nodes :: "path \<rightharpoonup> node"
  inodes :: "nat \<Rightarrow> byte list"
  next_ino :: nat
  fds :: "ofd option list"
  errno_of :: errno
  rand_st :: rng
  printed :: "string list"
  cwd :: path
  now :: int
  faults :: "fault list"

section \<open>The descriptor table\<close>

definition fd_get :: "'a option list \<Rightarrow> int \<Rightarrow> 'a option" where
  "fd_get t fd = (if 0 \<le> fd \<and> nat fd < length t then t ! nat fd else None)"

text \<open>The lowest free descriptor, as POSIX requires.\<close>

fun fd_alloc :: "'a option list \<Rightarrow> 'a \<Rightarrow> nat \<times> 'a option list" where
  "fd_alloc [] x = (0, [Some x])"
| "fd_alloc (None # t) x = (0, Some x # t)"
| "fd_alloc (Some y # t) x = (case fd_alloc t x of (n, t') \<Rightarrow> (Suc n, Some y # t'))"

definition fd_free :: "'a option list \<Rightarrow> int \<Rightarrow> 'a option list" where
  "fd_free t fd = (if 0 \<le> fd then t[nat fd := None] else t)"

definition fd_set :: "'a option list \<Rightarrow> int \<Rightarrow> 'a \<Rightarrow> 'a option list" where
  "fd_set t fd x = t[nat fd := Some x]"

locale fd_table =
  fixes get :: "'t \<Rightarrow> int \<Rightarrow> 'a option"
    and alloc :: "'t \<Rightarrow> 'a \<Rightarrow> nat \<times> 't"
    and free :: "'t \<Rightarrow> int \<Rightarrow> 't"
  assumes alloc_fresh: "alloc t x = (n, t') \<Longrightarrow> get t (int n) = None"
    and get_alloc: "alloc t x = (n, t') \<Longrightarrow> get t' = (get t)(int n := Some x)"
    and get_free: "get (free t fd) = (get t)(fd := None)"
begin

lemma free_alloc: "alloc t x = (n, t') \<Longrightarrow> get (free t' (int n)) = get t"
  using alloc_fresh [of t x n t'] get_alloc [of t x n t'] by (simp add: get_free fun_upd_idem)

lemma double_free: "get (free (free t fd) fd) = get (free t fd)"
  by (simp add: get_free)

lemma get_alloc_other: "alloc t x = (n, t') \<Longrightarrow> get t fd = Some y \<Longrightarrow> get t' fd = Some y"
  using alloc_fresh [of t x n t'] get_alloc [of t x n t'] by auto

end

lemma fd_alloc_nth:
  "fd_alloc t x = (n, t') \<Longrightarrow>
     length t \<le> length t' \<and> n < length t' \<and> (n < length t \<longrightarrow> t ! n = None) \<and>
     length t' \<le> max (length t) (Suc n) \<and>
     (\<forall>i < length t'. t' ! i = (if i = n then Some x else if i < length t then t ! i else None))"
proof (induction t x arbitrary: n t' rule: fd_alloc.induct)
  case (3 y t x)
  obtain m t'' where m: "fd_alloc t x = (m, t'')" by force
  with "3.prems" have n: "n = Suc m" "t' = Some y # t''" by auto
  from "3.IH" [OF m] show ?case
    unfolding n by (auto simp: nth_Cons split: nat.splits)
qed (auto simp: nth_Cons split: nat.splits)

interpretation fdt: fd_table fd_get fd_alloc fd_free
proof unfold_locales
  fix t :: "'a option list" and x n t'
  assume a: "fd_alloc t x = (n, t')"
  show "fd_get t (int n) = None"
    using fd_alloc_nth [OF a] by (simp add: fd_get_def)
  show "fd_get t' = (fd_get t)(int n := Some x)"
    using fd_alloc_nth [OF a] by (force simp: fd_get_def fun_eq_iff)
next
  fix t :: "'a option list" and fd
  show "fd_get (fd_free t fd) = (fd_get t)(fd := None)"
    by (auto simp: fd_get_def fd_free_def fun_eq_iff nth_list_update)
qed

section \<open>Paths\<close>

fun split_path :: "string \<Rightarrow> string list" where
  "split_path [] = [[]]"
| "split_path (c # cs) =
     (if c = CHR ''/'' then [] # split_path cs
      else case split_path cs of [] \<Rightarrow> [[c]] | d # ds \<Rightarrow> (c # d) # ds)"

definition comps :: "string \<Rightarrow> path" where
  "comps s = filter (\<lambda>c. c \<noteq> [] \<and> c \<noteq> ''.'') (split_path s)"

fun walk :: "path \<Rightarrow> path \<Rightarrow> path" where
  "walk p [] = p"
| "walk p (c # cs) = walk (if c = ''..'' then butlast p else p @ [c]) cs"

definition resolve :: "path \<Rightarrow> string \<Rightarrow> path" where
  "resolve d s = walk (if take 1 s = ''/'' then [] else d) (comps s)"

definition path_string :: "path \<Rightarrow> string" where
  "path_string p = (if p = [] then ''/'' else concat (map (\<lambda>c. CHR ''/'' # c) p))"

section \<open>System calls\<close>

definition next_fault :: "os \<Rightarrow> fault" where
  "next_fault w = (case faults w of [] \<Rightarrow> NoFault | f # _ \<Rightarrow> f)"

definition pop_fault :: "os \<Rightarrow> os" where
  "pop_fault w = w\<lparr>faults := tl (faults w)\<rparr>"

definition fail :: "errno \<Rightarrow> 'a \<Rightarrow> os \<Rightarrow> (int \<times> 'a) \<times> os" where
  "fail e a w = ((-1, a), w\<lparr>errno_of := e\<rparr>)"

text \<open>
  A system call: the fault plan may fail it, else it runs on the popped plan.  A call
  returns its \<open>int\<close> result and what it stored through a pointer argument.
\<close>

definition syscall :: "'a \<Rightarrow> (os \<Rightarrow> (int \<times> 'a) \<times> os) \<Rightarrow> os \<Rightarrow> (int \<times> 'a) \<times> os" where
  "syscall a op w = (case next_fault w of
     Fail e \<Rightarrow> fail e a (pop_fault w)
   | _ \<Rightarrow> op (pop_fault w))"

definition is_reg :: "os \<Rightarrow> path \<Rightarrow> bool" where
  "is_reg w p = (case nodes w p of Some (Reg _) \<Rightarrow> True | _ \<Rightarrow> False)"

text \<open>Why a path that names nothing does so.\<close>

definition missing :: "os \<Rightarrow> path \<Rightarrow> errno" where
  "missing w p = (if list_ex (\<lambda>k. is_reg w (take k p)) [0..<length p] then ENOTDIR else ENOENT)"

datatype oflag = O_RDWR | O_RDONLY | O_CREAT_WRONLY

definition new_ofd :: "node \<Rightarrow> oflag \<Rightarrow> ofd" where
  "new_ofd nd fl = \<lparr>of_node = nd, of_pos = 0, of_rd = (fl \<noteq> O_CREAT_WRONLY), of_wr = (fl \<noteq> O_RDONLY)\<rparr>"

definition open_node :: "node \<Rightarrow> oflag \<Rightarrow> os \<Rightarrow> (int \<times> unit) \<times> os" where
  "open_node nd fl w = (case fd_alloc (fds w) (new_ofd nd fl) of (n, t) \<Rightarrow> ((int n, ()), w\<lparr>fds := t\<rparr>))"

definition do_open :: "string \<Rightarrow> oflag \<Rightarrow> os \<Rightarrow> (int \<times> unit) \<times> os" where
  "do_open s fl w = (let p = resolve (cwd w) s in
     if s = [] then fail ENOENT () w
     else case nodes w p of
       Some (Reg i) \<Rightarrow> open_node (Reg i) fl w
     | Some Dir \<Rightarrow> if fl = O_RDONLY then open_node Dir fl w else fail EISDIR () w
     | None \<Rightarrow>
         if fl = O_CREAT_WRONLY \<and> nodes w (butlast p) = Some Dir then
           open_node (Reg (next_ino w)) fl
             (w\<lparr>nodes := (nodes w)(p \<mapsto> Reg (next_ino w)),
                inodes := (inodes w)(next_ino w := []), next_ino := Suc (next_ino w)\<rparr>)
         else fail (missing w p) () w)"

definition do_unlink :: "string \<Rightarrow> os \<Rightarrow> (int \<times> unit) \<times> os" where
  "do_unlink s w = (let p = resolve (cwd w) s in
     if s = [] then fail ENOENT () w
     else case nodes w p of
       Some (Reg i) \<Rightarrow> ((0, ()), w\<lparr>nodes := (nodes w)(p := None)\<rparr>)
     | Some Dir \<Rightarrow> fail EISDIR () w
     | None \<Rightarrow> fail (missing w p) () w)"

definition do_mkdir :: "string \<Rightarrow> os \<Rightarrow> (int \<times> unit) \<times> os" where
  "do_mkdir s w = (let p = resolve (cwd w) s in
     if s = [] then fail ENOENT () w
     else case nodes w p of
       Some _ \<Rightarrow> fail EEXIST () w
     | None \<Rightarrow> if nodes w (butlast p) = Some Dir then ((0, ()), w\<lparr>nodes := (nodes w)(p \<mapsto> Dir)\<rparr>)
               else fail (missing w p) () w)"

definition do_fstat :: "int \<Rightarrow> os \<Rightarrow> (int \<times> int) \<times> os" where
  "do_fstat fd w = (case fd_get (fds w) fd of
     None \<Rightarrow> fail EBADF 0 w
   | Some f \<Rightarrow> (case of_node f of
       Reg i \<Rightarrow> ((0, int (length (inodes w i))), w)
     | Dir \<Rightarrow> ((0, 4096), w)))"

definition do_pread :: "int \<Rightarrow> nat \<Rightarrow> int \<Rightarrow> os \<Rightarrow> (int \<times> byte list) \<times> os" where
  "do_pread fd n off w = (case fd_get (fds w) fd of
     None \<Rightarrow> fail EBADF [] w
   | Some f \<Rightarrow>
       if \<not> of_rd f then fail EBADF [] w
       else if off < 0 then fail EINVAL [] w
       else case of_node f of
         Dir \<Rightarrow> fail EISDIR [] w
       | Reg i \<Rightarrow> (let bs = read_at (inodes w i) (nat off) n in ((int (length bs), bs), w)))"

definition do_pwrite :: "int \<Rightarrow> byte list \<Rightarrow> int \<Rightarrow> os \<Rightarrow> (int \<times> unit) \<times> os" where
  "do_pwrite fd bs off w = (case fd_get (fds w) fd of
     None \<Rightarrow> fail EBADF () w
   | Some f \<Rightarrow>
       if \<not> of_wr f then fail EBADF () w
       else if off < 0 then fail EINVAL () w
       else case of_node f of
         Dir \<Rightarrow> fail EBADF () w
       | Reg i \<Rightarrow> ((int (length bs), ()),
           w\<lparr>inodes := (inodes w)(i := write_at (inodes w i) (nat off) bs)\<rparr>))"

text \<open>
  \<open>copy_file_range\<close>: an offset that is \<open>None\<close> stands for a null pointer, so the
  descriptor's own position is used and advanced.  The requested length is shortened to
  the source's end, then the fault plan may shorten it further (never to nothing).
\<close>

definition overlaps :: "nat \<Rightarrow> nat \<Rightarrow> nat \<Rightarrow> bool" where
  "overlaps a b n = (a < b + n \<and> b < a + n)"

definition advance :: "int option \<Rightarrow> int \<Rightarrow> ofd \<Rightarrow> nat \<Rightarrow> ofd option list \<Rightarrow> ofd option list" where
  "advance off fd f n t = (case off of None \<Rightarrow> fd_set t fd (f\<lparr>of_pos := of_pos f + n\<rparr>) | Some _ \<Rightarrow> t)"

definition cfr_transfer :: "nat \<Rightarrow> nat \<Rightarrow> nat \<Rightarrow> nat \<Rightarrow> nat \<Rightarrow> os \<Rightarrow> os" where
  "cfr_transfer i a j b n w =
     w\<lparr>inodes := (inodes w)(j := write_at (inodes w j) b (read_at (inodes w i) a n))\<rparr>"

definition cfr_count :: "os \<Rightarrow> nat \<Rightarrow> nat \<Rightarrow> int \<Rightarrow> nat" where
  "cfr_count w i a len = min (nat (len mod 2 ^ 64)) (length (inodes w i) - a)"

definition short_count :: "fault \<Rightarrow> nat \<Rightarrow> nat" where
  "short_count flt n = (case flt of Short k \<Rightarrow> if n = 0 then 0 else max 1 (min n k) | _ \<Rightarrow> n)"

definition do_cfr :: "fault \<Rightarrow> int \<Rightarrow> int option \<Rightarrow> int \<Rightarrow> int option \<Rightarrow> int \<Rightarrow> os \<Rightarrow> (int \<times> unit) \<times> os" where
  "do_cfr flt fd_in off_in fd_out off_out len w =
     (case (fd_get (fds w) fd_in, fd_get (fds w) fd_out) of
        (Some f, Some g) \<Rightarrow>
          (let a = (case off_in of None \<Rightarrow> int (of_pos f) | Some x \<Rightarrow> x);
               b = (case off_out of None \<Rightarrow> int (of_pos g) | Some x \<Rightarrow> x)
           in if \<not> of_rd f \<or> \<not> of_wr g then fail EBADF () w
              else case (of_node f, of_node g) of
                (Reg i, Reg j) \<Rightarrow>
                  if a < 0 \<or> b < 0 then fail EINVAL () w
                  else if LLONG_MAX < a + len mod 2 ^ 64 \<or> LLONG_MAX < b + len mod 2 ^ 64
                    then fail EOVERFLOW () w
                  else (let n = cfr_count w i (nat a) len;
                            m = short_count flt n
                        in if i = j \<and> overlaps (nat a) (nat b) n then fail EINVAL () w
                           else ((int m, ()),
                             (cfr_transfer i (nat a) j (nat b) m w)
                               \<lparr>fds := advance off_out fd_out g m (advance off_in fd_in f m (fds w))\<rparr>))
              | _ \<Rightarrow> fail EISDIR () w)
      | _ \<Rightarrow> fail EBADF () w)"

definition sys_open :: "string \<Rightarrow> oflag \<Rightarrow> os \<Rightarrow> int \<times> os" where
  "sys_open s fl w = (case syscall () (do_open s fl) w of ((r, _), w') \<Rightarrow> (r, w'))"

definition sys_unlink :: "string \<Rightarrow> os \<Rightarrow> int \<times> os" where
  "sys_unlink s w = (case syscall () (do_unlink s) w of ((r, _), w') \<Rightarrow> (r, w'))"

definition sys_mkdir :: "string \<Rightarrow> os \<Rightarrow> int \<times> os" where
  "sys_mkdir s w = (case syscall () (do_mkdir s) w of ((r, _), w') \<Rightarrow> (r, w'))"

definition sys_fstat :: "int \<Rightarrow> os \<Rightarrow> (int \<times> int) \<times> os" where
  "sys_fstat fd w = syscall 0 (do_fstat fd) w"

definition sys_pread :: "int \<Rightarrow> nat \<Rightarrow> int \<Rightarrow> os \<Rightarrow> (int \<times> byte list) \<times> os" where
  "sys_pread fd n off w = syscall [] (do_pread fd n off) w"

definition sys_pwrite :: "int \<Rightarrow> byte list \<Rightarrow> int \<Rightarrow> os \<Rightarrow> int \<times> os" where
  "sys_pwrite fd bs off w = (case syscall () (do_pwrite fd bs off) w of ((r, _), w') \<Rightarrow> (r, w'))"

definition sys_cfr :: "int \<Rightarrow> int option \<Rightarrow> int \<Rightarrow> int option \<Rightarrow> int \<Rightarrow> os \<Rightarrow> int \<times> os" where
  "sys_cfr fd_in off_in fd_out off_out len w =
     (case syscall () (do_cfr (next_fault w) fd_in off_in fd_out off_out len) w of ((r, _), w') \<Rightarrow> (r, w'))"

text \<open>\<open>close\<close> releases a valid descriptor even when it reports an error.\<close>

definition sys_close :: "int \<Rightarrow> os \<Rightarrow> int \<times> os" where
  "sys_close fd w = (let w1 = pop_fault w in
     case fd_get (fds w1) fd of
       None \<Rightarrow> (-1, w1\<lparr>errno_of := EBADF\<rparr>)
     | Some _ \<Rightarrow> (case next_fault w of
         Fail e \<Rightarrow> (-1, w1\<lparr>fds := fd_free (fds w1) fd, errno_of := e\<rparr>)
       | _ \<Rightarrow> (0, w1\<lparr>fds := fd_free (fds w1) fd\<rparr>)))"

definition sys_realpath :: "string \<Rightarrow> os \<Rightarrow> string option \<times> os" where
  "sys_realpath s w = (let p = resolve (cwd w) s in
     case next_fault w of
       Fail e \<Rightarrow> (None, (pop_fault w)\<lparr>errno_of := e\<rparr>)
     | _ \<Rightarrow> if s \<noteq> [] \<and> nodes w p \<noteq> None then (Some (path_string p), pop_fault w)
             else (None, (pop_fault w)\<lparr>errno_of := missing w p\<rparr>))"

section \<open>Random numbers and output\<close>

definition lib_lrand48 :: "os \<Rightarrow> int \<times> os" where
  "lib_lrand48 w = (let x = lcg_step (rand_st w) in (lrand48_of x, w\<lparr>rand_st := x\<rparr>))"

definition lib_drand48 :: "os \<Rightarrow> dbl \<times> os" where
  "lib_drand48 w = (let x = lcg_step (rand_st w) in (Fin (of_int x / 2 ^ 48), w\<lparr>rand_st := x\<rparr>))"

definition lib_srand48 :: "int \<Rightarrow> os \<Rightarrow> os" where
  "lib_srand48 seed w = w\<lparr>rand_st := srand48_of seed\<rparr>"

definition lib_puts :: "string \<Rightarrow> os \<Rightarrow> os" where
  "lib_puts s w = w\<lparr>printed := printed w @ [s]\<rparr>"

section \<open>What the calls change\<close>

text \<open>Everything but the bytes of inode \<open>i\<close>, the descriptors, and the volatile fields is kept.\<close>

definition touches :: "nat \<Rightarrow> os \<Rightarrow> os \<Rightarrow> bool" where
  "touches i w w' \<longleftrightarrow>
     nodes w' = nodes w \<and> next_ino w' = next_ino w \<and> cwd w' = cwd w \<and>
     (\<forall>j. j \<noteq> i \<longrightarrow> inodes w' j = inodes w j)"

lemma touches_refl [simp, intro]: "touches i w w"
  by (simp add: touches_def)

lemma touches_trans: "touches i w w' \<Longrightarrow> touches i w' w'' \<Longrightarrow> touches i w w''"
  by (simp add: touches_def)

lemma touches_updates [simp]:
  "touches i w (w'\<lparr>errno_of := e\<rparr>) = touches i w w'"
  "touches i w (w'\<lparr>fds := t\<rparr>) = touches i w w'"
  "touches i w (w'\<lparr>rand_st := x\<rparr>) = touches i w w'"
  "touches i w (w'\<lparr>printed := p\<rparr>) = touches i w w'"
  "touches i w (w'\<lparr>faults := fs\<rparr>) = touches i w w'"
  by (simp_all add: touches_def)

lemma touches_updates_left [simp]:
  "touches i (w\<lparr>errno_of := e\<rparr>) w' = touches i w w'"
  "touches i (w\<lparr>fds := t\<rparr>) w' = touches i w w'"
  "touches i (w\<lparr>rand_st := x\<rparr>) w' = touches i w w'"
  "touches i (w\<lparr>printed := p\<rparr>) w' = touches i w w'"
  "touches i (w\<lparr>faults := fs\<rparr>) w' = touches i w w'"
  by (simp_all add: touches_def)

lemma touches_write [simp]:
  "touches i w w' \<Longrightarrow> touches i w (w'\<lparr>inodes := (inodes w')(i := bs)\<rparr>)"
  by (simp add: touches_def)

lemma pop_fault_simps [simp]:
  "nodes (pop_fault w) = nodes w" "inodes (pop_fault w) = inodes w" "next_ino (pop_fault w) = next_ino w"
  "fds (pop_fault w) = fds w" "errno_of (pop_fault w) = errno_of w" "rand_st (pop_fault w) = rand_st w"
  "printed (pop_fault w) = printed w" "cwd (pop_fault w) = cwd w" "faults (pop_fault w) = tl (faults w)"
  by (simp_all add: pop_fault_def)

lemma touches_pop [simp]:
  "touches i w (pop_fault w') = touches i w w'" "touches i (pop_fault w) w' = touches i w w'"
  by (simp_all add: touches_def)

lemma next_fault_Nil [simp]: "faults w = [] \<Longrightarrow> next_fault w = NoFault"
  by (simp add: next_fault_def)

lemma cfr_transfer_simps [simp]:
  "nodes (cfr_transfer i a j b n w) = nodes w" "fds (cfr_transfer i a j b n w) = fds w"
  "next_ino (cfr_transfer i a j b n w) = next_ino w" "rand_st (cfr_transfer i a j b n w) = rand_st w"
  "printed (cfr_transfer i a j b n w) = printed w" "cwd (cfr_transfer i a j b n w) = cwd w"
  "faults (cfr_transfer i a j b n w) = faults w" "errno_of (cfr_transfer i a j b n w) = errno_of w"
  "inodes (cfr_transfer i a j b n w) =
     (inodes w)(j := write_at (inodes w j) b (read_at (inodes w i) a n))"
  by (simp_all add: cfr_transfer_def)

lemma touches_cfr_transfer [simp]: "touches j w (cfr_transfer i a j b n w') = touches j w w'"
  by (auto simp: touches_def)

text \<open>An open descriptor for a regular file.\<close>

definition fd_reg :: "os \<Rightarrow> int \<Rightarrow> nat \<Rightarrow> bool \<Rightarrow> bool \<Rightarrow> nat \<Rightarrow> bool" where
  "fd_reg w fd i rd wr pos \<longleftrightarrow>
     (\<exists>f. fd_get (fds w) fd = Some f \<and> of_node f = Reg i \<and> (rd \<longrightarrow> of_rd f) \<and> (wr \<longrightarrow> of_wr f) \<and> of_pos f = pos)"

lemma fd_reg_cong: "fd_get (fds w') fd = fd_get (fds w) fd \<Longrightarrow> fd_reg w' fd = fd_reg w fd"
  by (simp add: fd_reg_def fun_eq_iff)

definition pos_of :: "int option \<Rightarrow> nat \<Rightarrow> int" where
  "pos_of off pos = (case off of None \<Rightarrow> int pos | Some x \<Rightarrow> x)"

text \<open>
  A \<open>copy_file_range\<close> between open regular files, over ranges that do not overlap, fails
  only where the fault plan says so; else it moves at most what is there, and something if
  there is something.
\<close>

lemma cfr_count_pop [simp]: "cfr_count (pop_fault w) = cfr_count w"
  by (simp add: cfr_count_def fun_eq_iff)

lemma fd_get_set: "fd_get t fd = Some y \<Longrightarrow> fd_get (fd_set t fd x) = (fd_get t)(fd := Some x)"
  by (auto simp: fd_get_def fd_set_def fun_eq_iff nth_list_update split: if_splits)

lemma do_cfr_moves:
  assumes f: "fd_get (fds w) fd = Some f" "of_node f = Reg i" "of_rd f"
    and g: "fd_get (fds w) fd' = Some g" "of_node g = Reg j" "of_wr g"
    and len: "0 \<le> len" "len < 2 ^ 63"
    and a: "pos_of off (of_pos f) = int a" "int a + len \<le> LLONG_MAX"
    and b: "pos_of off' (of_pos g) = int b" "int b + len \<le> LLONG_MAX"
    and disj: "i = j \<Longrightarrow> \<not> overlaps a b (cfr_count w i a len)"
  shows "\<exists>m. do_cfr flt fd off fd' off' len w =
      ((int m, ()), (cfr_transfer i a j b m w)\<lparr>fds := advance off' fd' g m (advance off fd f m (fds w))\<rparr>) \<and>
      m \<le> cfr_count w i a len \<and> (0 < cfr_count w i a len \<longrightarrow> 0 < m) \<and>
      (flt = NoFault \<longrightarrow> m = cfr_count w i a len)"
proof -
  let ?n = "cfr_count w i a len"
  define m where "m = short_count flt ?n"
  have no: "(i = j \<and> overlaps a b ?n) = False"
    using disj by blast
  have "len mod 2 ^ 64 = len"
    using len by (intro mod_pos_pos_trivial) simp_all
  moreover have "(case off of None \<Rightarrow> int (of_pos f) | Some x \<Rightarrow> x) = int a"
    and "(case off' of None \<Rightarrow> int (of_pos g) | Some x \<Rightarrow> x) = int b"
    using a(1) b(1) by (simp_all add: pos_of_def)
  ultimately have "do_cfr flt fd off fd' off' len w =
      ((int m, ()), (cfr_transfer i a j b m w)\<lparr>fds := advance off' fd' g m (advance off fd f m (fds w))\<rparr>)"
    using f g a(2) b(2) no by (cases "i = j") (simp_all add: do_cfr_def Let_def m_def)
  moreover have "m \<le> ?n" "0 < ?n \<longrightarrow> 0 < m" "flt = NoFault \<longrightarrow> m = ?n"
    by (auto simp: m_def short_count_def split: fault.splits)
  ultimately show ?thesis by (intro exI [of _ m] conjI)
qed

lemma fd_get_advance:
  "fd_get t fd = Some y \<Longrightarrow>
     fd_get (advance off fd f m t) =
       (case off of None \<Rightarrow> (fd_get t)(fd := Some (f\<lparr>of_pos := of_pos f + m\<rparr>)) | Some _ \<Rightarrow> fd_get t)"
  by (auto simp: advance_def fd_get_set split: option.split)

lemma fd_get_advances:
  assumes "fd_get t fd = Some f" and "fd_get t fd' = Some g"
    and "x = fd \<Longrightarrow> off \<noteq> None" and "x = fd' \<Longrightarrow> off' \<noteq> None"
  shows "fd_get (advance off' fd' g' m' (advance off fd f' m t)) x = fd_get t x"
proof -
  have "fd_get (advance off fd f' m t) fd' \<noteq> None"
    using assms(1,2) by (auto simp: fd_get_advance [OF assms(1)] split: option.split)
  then obtain y where "fd_get (advance off fd f' m t) fd' = Some y" by blast
  note get = fd_get_advance [OF this] fd_get_advance [OF assms(1)]
  show ?thesis using assms(3,4) by (auto simp: get split: option.split)
qed

lemma sys_cfr_cases:
  assumes f: "fd_reg w fd i True wr p" and g: "fd_reg w fd' j rd True q"
    and len: "0 \<le> len" "len < 2 ^ 63"
    and a: "pos_of off p = int a"
    and b: "pos_of off' q = int b"
    and disj: "i = j \<Longrightarrow> \<not> overlaps a b (cfr_count w i a len)"
  obtains (failed) e where "sys_cfr fd off fd' off' len w = (-1, (pop_fault w)\<lparr>errno_of := e\<rparr>)"
      and "next_fault w = Fail e \<or> LLONG_MAX < int a + len \<or> LLONG_MAX < int b + len"
  | (moved) m t where
      "sys_cfr fd off fd' off' len w = (int m, (cfr_transfer i a j b m (pop_fault w))\<lparr>fds := t\<rparr>)"
      "m \<le> cfr_count w i a len" "0 < cfr_count w i a len \<Longrightarrow> 0 < m"
      "next_fault w = NoFault \<Longrightarrow> m = cfr_count w i a len"
      "off \<noteq> None \<Longrightarrow> off' \<noteq> None \<Longrightarrow> t = fds w"
      "\<And>x. (x = fd \<Longrightarrow> off \<noteq> None) \<Longrightarrow> (x = fd' \<Longrightarrow> off' \<noteq> None) \<Longrightarrow> fd_get t x = fd_get (fds w) x"
proof -
  obtain ff where ff: "fd_get (fds w) fd = Some ff" "of_node ff = Reg i" "of_rd ff" "of_pos ff = p"
    using f by (auto simp: fd_reg_def)
  obtain gg where gg: "fd_get (fds w) fd' = Some gg" "of_node gg = Reg j" "of_wr gg" "of_pos gg = q"
    using g by (auto simp: fd_reg_def)
  have ran: ?thesis if nf: "\<And>e. next_fault w \<noteq> Fail e"
  proof (cases "int a + len \<le> LLONG_MAX \<and> int b + len \<le> LLONG_MAX")
    case False
    have "len mod 2 ^ 64 = len"
      using len by (intro mod_pos_pos_trivial) simp_all
    then have "sys_cfr fd off fd' off' len w = (-1, (pop_fault w)\<lparr>errno_of := EOVERFLOW\<rparr>)"
      using nf ff gg a b False
      by (cases "next_fault w") (auto simp: sys_cfr_def syscall_def fail_def do_cfr_def Let_def pos_of_def)
    with False show ?thesis by (intro failed [of EOVERFLOW]) auto
  next
    case True
    obtain m where m: "do_cfr (next_fault w) fd off fd' off' len (pop_fault w) =
        ((int m, ()), (cfr_transfer i a j b m (pop_fault w))
           \<lparr>fds := advance off' fd' gg m (advance off fd ff m (fds w))\<rparr>)"
        "m \<le> cfr_count w i a len" "0 < cfr_count w i a len \<longrightarrow> 0 < m"
        "next_fault w = NoFault \<longrightarrow> m = cfr_count w i a len"
      using do_cfr_moves [of "pop_fault w" fd ff i fd' gg j len off a off' b "next_fault w"]
        ff gg len a b disj True by auto
    let ?t = "advance off' fd' gg m (advance off fd ff m (fds w))"
    have t: "fd_get ?t x = fd_get (fds w) x"
      if "x = fd \<Longrightarrow> off \<noteq> None" and "x = fd' \<Longrightarrow> off' \<noteq> None" for x
      using fd_get_advances [OF ff(1) gg(1) that] .
    have t': "?t = fds w" if "off \<noteq> None" and "off' \<noteq> None"
      using that by (auto simp: advance_def split: option.split)
    have "sys_cfr fd off fd' off' len w = (int m, (cfr_transfer i a j b m (pop_fault w))\<lparr>fds := ?t\<rparr>)"
      using m(1) nf by (cases "next_fault w") (auto simp: sys_cfr_def syscall_def)
    from moved [OF this] show ?thesis using m(2-4) t t' by blast
  qed
  show ?thesis
  proof (cases "next_fault w")
    case (Fail e)
    then show ?thesis by (intro failed [of e]) (simp_all add: sys_cfr_def syscall_def fail_def)
  next
    case NoFault
    then show ?thesis using ran by simp
  next
    case (Short k)
    then show ?thesis using ran by simp
  qed
qed

text \<open>
  The same call whatever the descriptors and the length are: it fails, or the source is a
  regular file, the length is not negative, and at most that many bytes move.
\<close>

lemma mod64_small: "in_s64 len \<Longrightarrow> len mod 2 ^ 64 \<le> LLONG_MAX \<Longrightarrow> 0 \<le> len \<and> len mod 2 ^ 64 = len"
proof -
  assume a: "in_s64 len" "len mod 2 ^ 64 \<le> LLONG_MAX"
  show ?thesis
  proof (cases "0 \<le> len")
    case True
    with a show ?thesis by (auto simp: in_s64_def intro: mod_pos_pos_trivial)
  next
    case False
    then have "(len + 2 ^ 64) mod 2 ^ 64 = len + 2 ^ 64"
      using a(1) by (intro mod_pos_pos_trivial) (simp_all add: in_s64_def)
    then have "len mod 2 ^ 64 = len + 2 ^ 64" by (simp only: mod_add_self2)
    with a show ?thesis by (simp add: in_s64_def)
  qed
qed

lemma do_cfr_any:
  assumes "in_s64 len" and f: "fd_get (fds w) fd = Some f" and g: "fd_get (fds w) fd' = Some g" "of_node g = Reg i"
  obtains (failed) e where "do_cfr flt fd off fd' off' len w = ((-1, ()), w\<lparr>errno_of := e\<rparr>)"
  | (moved) j m t where "of_node f = Reg j" "0 \<le> pos_of off (of_pos f)" "0 \<le> pos_of off' (of_pos g)" "int m \<le> len"
      "do_cfr flt fd off fd' off' len w = ((int m, ()), (cfr_transfer j (nat (pos_of off (of_pos f))) i
         (nat (pos_of off' (of_pos g))) m w)\<lparr>fds := t\<rparr>)"
      "\<And>x. (x = fd \<Longrightarrow> off \<noteq> None) \<Longrightarrow> (x = fd' \<Longrightarrow> off' \<noteq> None) \<Longrightarrow> fd_get t x = fd_get (fds w) x"
proof -
  let ?a = "pos_of off (of_pos f)" and ?b = "pos_of off' (of_pos g)"
  have pos: "(case off of None \<Rightarrow> int (of_pos f) | Some x \<Rightarrow> x) = ?a" "(case off' of None \<Rightarrow> int (of_pos g) | Some x \<Rightarrow> x) = ?b"
    by (simp_all add: pos_of_def)
  note def = do_cfr_def [of flt fd off fd' off' len w, unfolded f g(1) pos option.case prod.case Let_def g(2)]
  show ?thesis
  proof (cases "of_rd f \<and> of_wr g \<and> (\<exists>j. of_node f = Reg j)")
    case False
    then show ?thesis
      by (cases "of_node f"; cases "of_rd f"; cases "of_wr g") (auto simp: def fail_def intro: failed)
  next
    case True
    then obtain j where j: "of_rd f" "of_wr g" "of_node f = Reg j" by blast
    let ?n = "cfr_count w j (nat ?a) len" and ?m = "short_count flt (cfr_count w j (nat ?a) len)"
    let ?t = "advance off' fd' g ?m (advance off fd f ?m (fds w))"
    have run: "do_cfr flt fd off fd' off' len w =
        (if ?a < 0 \<or> ?b < 0 then fail EINVAL () w
         else if LLONG_MAX < ?a + len mod 2 ^ 64 \<or> LLONG_MAX < ?b + len mod 2 ^ 64 then fail EOVERFLOW () w
         else if j = i \<and> overlaps (nat ?a) (nat ?b) ?n then fail EINVAL () w
         else ((int ?m, ()), (cfr_transfer j (nat ?a) i (nat ?b) ?m w)\<lparr>fds := ?t\<rparr>))"
      unfolding def j(3) node.case using j(1,2) by simp
    show ?thesis
    proof (cases "?a < 0 \<or> ?b < 0 \<or> LLONG_MAX < ?a + len mod 2 ^ 64 \<or> LLONG_MAX < ?b + len mod 2 ^ 64 \<or>
        (j = i \<and> overlaps (nat ?a) (nat ?b) ?n)")
      case True
      then show ?thesis using run failed by (simp only: fail_def split: if_splits) auto
    next
      case no: False
      have "?m \<le> ?n" by (auto simp: short_count_def split: fault.splits)
      moreover have "len mod 2 ^ 64 \<le> LLONG_MAX" using no by linarith
      then have "0 \<le> len" "len mod 2 ^ 64 = len" using mod64_small [OF assms(1)] by blast+
      then have "int ?n \<le> len" by (simp add: cfr_count_def)
      ultimately have "int ?m \<le> len" by linarith
      moreover have "do_cfr flt fd off fd' off' len w = ((int ?m, ()), (cfr_transfer j (nat ?a) i (nat ?b) ?m w)\<lparr>fds := ?t\<rparr>)"
        unfolding run using no by (simp only: de_Morgan_disj simp_thms if_False)
      ultimately show ?thesis using no j(3) fd_get_advances [OF f g(1)] by (intro moved [of j ?m ?t]) auto
    qed
  qed
qed

lemma sys_cfr_any:
  assumes "in_s64 len" and f: "fd_get (fds w) fd = Some f" and g: "fd_get (fds w) fd' = Some g" "of_node g = Reg i"
  obtains (failed) e where "sys_cfr fd off fd' off' len w = (-1, (pop_fault w)\<lparr>errno_of := e\<rparr>)"
  | (moved) j m t where "of_node f = Reg j" "0 \<le> pos_of off (of_pos f)" "0 \<le> pos_of off' (of_pos g)" "int m \<le> len"
      "sys_cfr fd off fd' off' len w = (int m, (cfr_transfer j (nat (pos_of off (of_pos f))) i
         (nat (pos_of off' (of_pos g))) m (pop_fault w))\<lparr>fds := t\<rparr>)"
      "\<And>x. (x = fd \<Longrightarrow> off \<noteq> None) \<Longrightarrow> (x = fd' \<Longrightarrow> off' \<noteq> None) \<Longrightarrow> fd_get t x = fd_get (fds w) x"
proof (cases "\<exists>e. next_fault w = Fail e")
  case True
  then show ?thesis using failed by (auto simp: sys_cfr_def syscall_def fail_def)
next
  case False
  then have run: "sys_cfr fd off fd' off' len w =
      (case do_cfr (next_fault w) fd off fd' off' len (pop_fault w) of ((r, _), w') \<Rightarrow> (r, w'))"
    by (cases "next_fault w") (auto simp: sys_cfr_def syscall_def)
  have fg: "fd_get (fds (pop_fault w)) fd = Some f" "fd_get (fds (pop_fault w)) fd' = Some g" using f g by simp_all
  show ?thesis
  proof (rule do_cfr_any [OF assms(1) fg g(2), where flt = "next_fault w" and off = off and off' = off'])
    fix e assume "do_cfr (next_fault w) fd off fd' off' len (pop_fault w) = ((-1, ()), (pop_fault w)\<lparr>errno_of := e\<rparr>)"
    then show ?thesis using run by (intro failed [of e]) simp
  next
    fix j m t assume "of_node f = Reg j" "0 \<le> pos_of off (of_pos f)" "0 \<le> pos_of off' (of_pos g)" "int m \<le> len"
      "do_cfr (next_fault w) fd off fd' off' len (pop_fault w) = ((int m, ()), (cfr_transfer j (nat (pos_of off (of_pos f))) i
         (nat (pos_of off' (of_pos g))) m (pop_fault w))\<lparr>fds := t\<rparr>)"
      "\<And>x. (x = fd \<Longrightarrow> off \<noteq> None) \<Longrightarrow> (x = fd' \<Longrightarrow> off' \<noteq> None) \<Longrightarrow> fd_get t x = fd_get (fds (pop_fault w)) x"
    then show ?thesis using run by (intro moved [of j m t]) simp_all
  qed
qed

section \<open>Opening files\<close>

lemma sys_open_creat:
  fixes s w
  defines "p \<equiv> resolve (cwd w) s"
  obtains (failed) e where "sys_open s O_CREAT_WRONLY w = (-1, (pop_fault w)\<lparr>errno_of := e\<rparr>)"
  | (existing) n t j where "sys_open s O_CREAT_WRONLY w = (int n, (pop_fault w)\<lparr>fds := t\<rparr>)"
      "nodes w p = Some (Reg j)" "fd_alloc (fds w) (new_ofd (Reg j) O_CREAT_WRONLY) = (n, t)"
  | (created) n t where "sys_open s O_CREAT_WRONLY w =
        (int n, (pop_fault w)\<lparr>nodes := (nodes w)(p \<mapsto> Reg (next_ino w)), inodes := (inodes w)(next_ino w := []),
           next_ino := Suc (next_ino w), fds := t\<rparr>)"
      "nodes w p = None" "nodes w (butlast p) = Some Dir"
      "fd_alloc (fds w) (new_ofd (Reg (next_ino w)) O_CREAT_WRONLY) = (n, t)"
proof (cases "\<exists>e. next_fault w = Fail e")
  case True
  then show ?thesis using failed by (auto simp: sys_open_def syscall_def fail_def)
next
  case False
  then have run: "sys_open s O_CREAT_WRONLY w =
      (case do_open s O_CREAT_WRONLY (pop_fault w) of ((r, _), w') \<Rightarrow> (r, w'))"
    by (cases "next_fault w") (auto simp: sys_open_def syscall_def)
  consider "s = []" | "s \<noteq> []" "nodes w p = Some Dir" | j where "s \<noteq> []" "nodes w p = Some (Reg j)"
    | "s \<noteq> []" "nodes w p = None" "nodes w (butlast p) = Some Dir"
    | "s \<noteq> []" "nodes w p = None" "nodes w (butlast p) \<noteq> Some Dir"
    by (metis node.exhaust option.exhaust)
  then show ?thesis
  proof cases
    case (3 j)
    obtain n t where "fd_alloc (fds w) (new_ofd (Reg j) O_CREAT_WRONLY) = (n, t)" by force
    with 3 run show ?thesis by (intro existing) (auto simp: do_open_def p_def Let_def open_node_def)
  next
    case 4
    obtain n t where "fd_alloc (fds w) (new_ofd (Reg (next_ino w)) O_CREAT_WRONLY) = (n, t)" by force
    with 4 run show ?thesis by (intro created) (auto simp: do_open_def p_def Let_def open_node_def)
  qed (use run failed in \<open>auto simp: do_open_def p_def Let_def fail_def\<close>)
qed

lemma sys_open_rdonly:
  fixes s w
  defines "p \<equiv> resolve (cwd w) s"
  obtains (failed) e where "sys_open s O_RDONLY w = (-1, (pop_fault w)\<lparr>errno_of := e\<rparr>)"
  | (opened) n t nd where "sys_open s O_RDONLY w = (int n, (pop_fault w)\<lparr>fds := t\<rparr>)"
      "nodes w p = Some nd" "fd_alloc (fds w) (new_ofd nd O_RDONLY) = (n, t)"
proof (cases "\<exists>e. next_fault w = Fail e")
  case True
  then show ?thesis using failed by (auto simp: sys_open_def syscall_def fail_def)
next
  case False
  then have run: "sys_open s O_RDONLY w =
      (case do_open s O_RDONLY (pop_fault w) of ((r, _), w') \<Rightarrow> (r, w'))"
    by (cases "next_fault w") (auto simp: sys_open_def syscall_def)
  show ?thesis
  proof (cases "s = [] \<or> nodes w p = None")
    case True
    then show ?thesis
      using run by (cases "s = []") (auto intro: failed simp: do_open_def p_def Let_def fail_def)
  next
    case False
    then obtain nd where nd: "nodes w p = Some nd" "s \<noteq> []" by auto
    obtain n t where "fd_alloc (fds w) (new_ofd nd O_RDONLY) = (n, t)" by force
    with nd run show ?thesis
      by (intro opened [of n t nd]) (auto simp: do_open_def p_def Let_def open_node_def split: node.splits)
  qed
qed

section \<open>A small system\<close>

text \<open>
  A file \<open>/f\<close> with the given bytes, the directory \<open>/tmp\<close>, the given open descriptors
  and no faults: the concrete system on which the theorems are exercised.
\<close>

definition sample_os :: "byte list \<Rightarrow> ofd option list \<Rightarrow> os" where
  "sample_os bs t =
     \<lparr>nodes = [[] \<mapsto> Dir, [''tmp''] \<mapsto> Dir, [''f''] \<mapsto> Reg 0], inodes = (\<lambda>_. [])(0 := bs),
      next_ino = 1, fds = t, errno_of = EOk, rand_st = 0, printed = [], cwd = [], now = 1, faults = []\<rparr>"

lemma sample_os_simps [simp]:
  "inodes (sample_os bs t) 0 = bs" "fds (sample_os bs t) = t" "faults (sample_os bs t) = []"
  "cwd (sample_os bs t) = []" "nodes (sample_os bs t) [''f''] = Some (Reg 0)"
  "next_ino (sample_os bs t) = 1"
  by (simp_all add: sample_os_def)

lemma sample_fd_reg [simp]: "fd_reg (sample_os bs [Some (new_ofd (Reg 0) O_RDWR)]) 0 0 True True 0"
  by (simp add: fd_reg_def fd_get_def new_ofd_def)

end
