(* ===== verification/CF_Options.thy ===== *)
theory CF_Options
  imports Posix_Files
begin

text \<open>
  The options of \<open>corrupt-file.c\<close>: the option structure with its defaults and its debug
  output, the argp callback \<open>parse_opt\<close> that fills it, the driver that feeds the callback, and the
  validation that every run passes before it touches a file.
\<close>

section \<open>Option structure\<close>

definition OFF_MAX :: int where
  "OFF_MAX = LLONG_MAX"

definition EXIT_OK :: int where "EXIT_OK = 0"
definition EXIT_ARGS :: int where "EXIT_ARGS = 1"
definition EXIT_IO :: int where "EXIT_IO = 2"
definition EXIT_INT :: int where "EXIT_INT = 3"

lemmas exit_code_defs = EXIT_OK_def EXIT_ARGS_def EXIT_IO_def EXIT_INT_def

datatype modes = MODE_NONE | MODE_COPY | MODE_SNAPSHOT | MODE_RESTORE | MODE_BITFLIP

text \<open>A \<open>char *\<close> that was never assigned, is null, or points to a string.\<close>

datatype cptr = Uninit | Null | Str string

record opts_t =
  o_file :: cptr
  o_mode :: modes
  o_start :: int
  o_end :: int
  o_chunk_size :: int
  o_index :: "32 word"
  o_mod :: "32 word"
  o_probability :: dbl
  o_clear_snapshots :: bool

text \<open>The structure's \<open>file\<close> field is not assigned.\<close>

definition default_opts :: opts_t where
  "default_opts =
     \<lparr>o_file = Uninit, o_mode = MODE_NONE, o_start = 0, o_end = OFF_MAX,
      o_chunk_size = 1024 * 1024, o_index = 0, o_mod = 1, o_probability = Fin 1,
      o_clear_snapshots = False\<rparr>"

text \<open>
  The debug output of the options, on the error stream.  \<open>%f\<close> rounds the exact value to six
  decimals, ties to even; the sign of a zero and of a NaN is not kept by \<open>dbl\<close>, so there are
  two texts for these.  \<open>%d\<close> reads the two unsigned fields as signed.
\<close>

fun mode_num :: "modes \<Rightarrow> int" where
  "mode_num MODE_NONE = 0"
| "mode_num MODE_COPY = 1"
| "mode_num MODE_SNAPSHOT = 2"
| "mode_num MODE_RESTORE = 3"
| "mode_num MODE_BITFLIP = 4"

definition fixed6 :: "rat \<Rightarrow> string" where
  "fixed6 r = (let n = rne (r * 1000000); d = show_int (n mod 1000000)
     in show_int (n div 1000000) @ ''.'' @ replicate (6 - length d) (CHR ''0'') @ d)"

fun printf_f :: "dbl \<Rightarrow> string list" where
  "printf_f (Fin r) = (if r < 0 then [CHR ''-'' # fixed6 (- r)]
     else if r = 0 then [fixed6 0, CHR ''-'' # fixed6 0] else [fixed6 r])"
| "printf_f PInf = [''inf'']"
| "printf_f NInf = [''-inf'']"
| "printf_f NaN = [''nan'', ''-nan'']"

definition opts_text :: "opts_t \<Rightarrow> string \<Rightarrow> string \<Rightarrow> string" where
  "opts_text opts p file =
     ''{:mode             '' @ show_int (mode_num (o_mode opts)) @ '','' @ [CHR 10] @
     '' :start            '' @ show_int (o_start opts) @ '','' @ [CHR 10] @
     '' :end              '' @ show_int (o_end opts) @ '','' @ [CHR 10] @
     '' :chunk_size       '' @ show_int (o_chunk_size opts) @ '','' @ [CHR 10] @
     '' :index            '' @ show_int (sint (o_index opts)) @ '','' @ [CHR 10] @
     '' :mod              '' @ show_int (sint (o_mod opts)) @ '','' @ [CHR 10] @
     '' :probability      '' @ p @ ''.'' @ [CHR 10] @
     '' :file             '' @ [CHR 34] @ file @ [CHR 34, CHR 10] @
     '' :clear_snaphots   '' @ show_int (if o_clear_snapshots opts then 1 else 0) @ ''}'' @ [CHR 10]"

definition print_opts :: "opts_t \<Rightarrow> ('w, string list) prog" where
  "print_opts opts = (case o_file opts of
     Uninit \<Rightarrow> c_undef UninitRead
   | Null \<Rightarrow> c_undef NullDeref
   | Str file \<Rightarrow> c_val (map (\<lambda>p. opts_text opts p file) (printf_f (o_probability opts))))"

definition validate_opts :: "opts_t \<Rightarrow> int" where
  "validate_opts opts =
     (if o_start opts < 0 then EXIT_ARGS
      else if o_end opts < 0 then EXIT_ARGS
      else if OFF_MAX < o_end opts then EXIT_ARGS
      else if o_end opts < o_start opts then EXIT_ARGS
      else if o_mod opts \<le> o_index opts then EXIT_ARGS
      else if d_less (o_probability opts) (Fin 0) \<or> d_less (Fin 1) (o_probability opts) then EXIT_ARGS
      else if o_chunk_size opts \<le> 0 then EXIT_ARGS
      else EXIT_OK)"

section \<open>Parsing\<close>

datatype opt_key =
    OPT_START | OPT_END | OPT_MODULUS | OPT_CLEAR_SNAPSHOTS
  | KEY_c | KEY_i | KEY_m | KEY_p
  | ARGP_KEY_ARG | ARGP_KEY_END | KEY_other

definition EX_USAGE :: int where "EX_USAGE = 64"
definition ARGP_ERR_UNKNOWN :: int where "ARGP_ERR_UNKNOWN = 7"

text \<open>
  \<open>argp_usage\<close> and \<open>argp_error\<close> leave the process with \<open>EX_USAGE\<close>.  A negative or
  large number assigned to a \<open>uint32_t\<close> field keeps its low 32 bits.
\<close>

definition parse_opt :: "opt_key \<Rightarrow> string \<Rightarrow> nat \<Rightarrow> opts_t \<Rightarrow> (os, int \<times> opts_t) prog" where
  "parse_opt key arg arg_num opts =
     (case key of
        OPT_START \<Rightarrow> c_val (0, opts\<lparr>o_start := strtoll arg\<rparr>)
      | OPT_END \<Rightarrow> c_val (0, opts\<lparr>o_end := strtoll arg\<rparr>)
      | OPT_MODULUS \<Rightarrow> c_val (0, opts\<lparr>o_mod := word_of_int (strtoll arg)\<rparr>)
      | OPT_CLEAR_SNAPSHOTS \<Rightarrow> c_val (0, opts\<lparr>o_clear_snapshots := True\<rparr>)
      | KEY_c \<Rightarrow> c_val (0, opts\<lparr>o_chunk_size := strtoll arg\<rparr>)
      | KEY_i \<Rightarrow> c_val (0, opts\<lparr>o_index := word_of_int (strtoll arg)\<rparr>)
      | KEY_m \<Rightarrow>
          if arg = ''copy'' then c_val (0, opts\<lparr>o_mode := MODE_COPY\<rparr>)
          else if arg = ''bitflip'' then c_val (0, opts\<lparr>o_mode := MODE_BITFLIP\<rparr>)
          else if arg = ''snapshot'' then c_val (0, opts\<lparr>o_mode := MODE_SNAPSHOT\<rparr>)
          else if arg = ''restore'' then c_val (0, opts\<lparr>o_mode := MODE_RESTORE\<rparr>)
          else c_exit EX_USAGE
      | KEY_p \<Rightarrow> c_val (0, opts\<lparr>o_probability := strtod arg\<rparr>)
      | ARGP_KEY_ARG \<Rightarrow>
          if 1 < arg_num then c_exit EX_USAGE
          else c_bind (c_lib (sys_realpath arg)) (\<lambda>r.
            c_val (0, opts\<lparr>o_file := (case r of None \<Rightarrow> Null | Some s \<Rightarrow> Str s)\<rparr>))
      | ARGP_KEY_END \<Rightarrow>
          if arg_num < 1 \<and> \<not> o_clear_snapshots opts then c_exit EX_USAGE
          else c_val (0, opts)
      | KEY_other \<Rightarrow> c_val (ARGP_ERR_UNKNOWN, opts))"

text \<open>
  What argp makes of the command line: options with their argument and positional
  arguments, in the order it delivers them.  The driver numbers the positional arguments
  from zero, stops at the first error and ends with \<open>ARGP_KEY_END\<close>.
\<close>

datatype argp_event = Opt opt_key string | Arg string

fun argp_parse :: "argp_event list \<Rightarrow> nat \<Rightarrow> opts_t \<Rightarrow> (os, int \<times> opts_t) prog" where
  "argp_parse [] n opts = parse_opt ARGP_KEY_END [] n opts"
| "argp_parse (Opt k a # es) n opts =
     c_bind (parse_opt k a n opts) (\<lambda>(e, opts').
       if e \<noteq> 0 then c_val (e, opts') else argp_parse es n opts')"
| "argp_parse (Arg a # es) n opts =
     c_bind (parse_opt ARGP_KEY_ARG a n opts) (\<lambda>(e, opts').
       if e \<noteq> 0 then c_val (e, opts') else argp_parse es (Suc n) opts')"

section \<open>What validation guarantees\<close>

text \<open>The fields that are \<open>off_t\<close> hold 64-bit values.\<close>

definition opts_typed :: "opts_t \<Rightarrow> bool" where
  "opts_typed opts \<longleftrightarrow> in_s64 (o_start opts) \<and> in_s64 (o_end opts) \<and> in_s64 (o_chunk_size opts)"

definition opts_ok :: "opts_t \<Rightarrow> bool" where
  "opts_ok opts \<longleftrightarrow>
     0 \<le> o_start opts \<and> o_start opts \<le> o_end opts \<and> o_end opts \<le> OFF_MAX \<and>
     0 < o_chunk_size opts \<and> o_chunk_size opts \<le> OFF_MAX \<and> uint (o_index opts) < uint (o_mod opts)"

lemma opts_okD:
  assumes "opts_ok opts"
  shows "0 \<le> o_start opts" "o_start opts \<le> o_end opts" "o_end opts \<le> LLONG_MAX"
    "0 < o_chunk_size opts" "o_chunk_size opts \<le> LLONG_MAX"
    "uint (o_index opts) < uint (o_mod opts)"
  using assms by (auto simp: opts_ok_def OFF_MAX_def)

lemma validate_opts_ok:
  assumes "opts_typed opts" and "validate_opts opts = EXIT_OK"
  shows "opts_ok opts"
  using assms
  by (auto simp: validate_opts_def opts_typed_def opts_ok_def in_s64_def OFF_MAX_def exit_code_defs
      word_le_def split: if_splits)

lemma validate_opts_iff:
  assumes "opts_typed opts"
  shows "validate_opts opts = EXIT_OK \<longleftrightarrow>
     opts_ok opts \<and> \<not> d_less (o_probability opts) (Fin 0) \<and> \<not> d_less (Fin 1) (o_probability opts)"
  using assms
  by (auto simp: validate_opts_def opts_typed_def opts_ok_def in_s64_def OFF_MAX_def exit_code_defs
      word_le_def)

lemma strtoll_in_s64: "in_s64 (strtoll s)"
  by (simp add: strtoll_def in_s64_def Let_def split: prod.splits)

lemma default_opts_ok: "opts_typed default_opts \<and> validate_opts default_opts = EXIT_OK"
  by (simp add: default_opts_def opts_typed_def validate_opts_def in_s64_def OFF_MAX_def exit_code_defs)

lemma parse_opt_typed:
  "opts_typed opts \<Longrightarrow> wp True (parse_opt k a n opts) (\<lambda>(e, opts') w. opts_typed opts') R (\<lambda>_ _. True) w"
  by (simp add: parse_opt_def opts_typed_def strtoll_in_s64 wp_lib split: opt_key.splits prod.splits)

text \<open>The driver keeps the fields at their width.\<close>

lemma argp_parse_typed:
  "opts_typed opts \<Longrightarrow> wp True (argp_parse es n opts) (\<lambda>(e, opts') w. opts_typed opts') R (\<lambda>_ _. True) w"
proof (induction es n opts arbitrary: w rule: argp_parse.induct)
  case (1 n opts w)
  then show ?case by (simp add: parse_opt_typed)
next
  case (2 k a es n opts w)
  have "wp True (parse_opt k a n opts) (\<lambda>(e, opts') w. opts_typed opts') R (\<lambda>_ _. True) w"
    using "2.prems" by (rule parse_opt_typed)
  then show ?case
    unfolding argp_parse.simps wp_bind by (rule wp_mono_val) (auto simp: "2.IH")
next
  case (3 a es n opts w)
  have "wp True (parse_opt ARGP_KEY_ARG a n opts) (\<lambda>(e, opts') w. opts_typed opts') R (\<lambda>_ _. True) w"
    using "3.prems" by (rule parse_opt_typed)
  then show ?case
    unfolding argp_parse.simps wp_bind by (rule wp_mono_val) (auto simp: "3.IH")
qed

section \<open>Properties\<close>

text \<open>C22: Whatever the command line, options that pass validation satisfy everything the chunk
  arithmetic relies on: the region is a well-formed interval of file offsets, the chunk size is a
  positive offset, the index is below the modulus (so the modulus is not zero).\<close>

theorem parsed_options_valid:
  assumes "argp_parse es 0 default_opts w = Val (e, opts) w'" and "validate_opts opts = EXIT_OK"
  shows "0 \<le> o_start opts \<and> o_start opts \<le> o_end opts \<and> o_end opts \<le> LLONG_MAX \<and>
    0 < o_chunk_size opts \<and> o_chunk_size opts \<le> LLONG_MAX \<and>
    uint (o_index opts) < uint (o_mod opts)"
proof -
  have "opts_typed opts"
    using wp_ValD [OF argp_parse_typed [where R = "\<lambda>_ _. True"] assms(1)] default_opts_ok by simp
  then have "opts_ok opts" using assms(2) by (rule validate_opts_ok)
  then show ?thesis by (auto dest: opts_okD)
qed

theorem parsed_options_valid_witness:
  "0 < o_chunk_size (default_opts\<lparr>o_mode := MODE_BITFLIP, o_file := Str ''/f''\<rparr>)"
proof -
  have "argp_parse [Opt KEY_m ''bitflip'', Arg ''/f''] 0 default_opts (sample_os [] []) =
      Val (0, default_opts\<lparr>o_mode := MODE_BITFLIP, o_file := Str ''/f''\<rparr>) (pop_fault (sample_os [] []))"
    by (simp add: parse_opt_def c_run sys_realpath_def next_fault_def resolve_def
        comps_def path_string_def Let_def)
  from parsed_options_valid [OF this] show ?thesis
    by (simp add: validate_opts_def default_opts_def OFF_MAX_def exit_code_defs)
qed

text \<open>
  The debug output, whose call is commented out, writes a modulus from two to the thirty-first on,
  which validation accepts, as a negative number.  Called before a file was named it would read a
  pointer that was never assigned.
\<close>

lemma opts_text_large_mod:
  assumes "2 ^ 31 \<le> uint (o_mod opts)"
  shows "\<exists>a b. opts_text opts p f = a @ '' :mod              -'' @ b"
proof -
  have "(uint (o_mod opts) + 2 ^ 31) mod 2 ^ 32 = (uint (o_mod opts) - 2 ^ 31) mod 2 ^ 32"
    by (simp add: mod_eq_dvd_iff)
  also have "\<dots> = uint (o_mod opts) - 2 ^ 31" using assms uint_lt2p [of "o_mod opts"] by (intro mod_pos_pos_trivial) auto
  finally have "sint (o_mod opts) = uint (o_mod opts) - 2 ^ 32"
    by (simp add: sint_uint signed_take_bit_eq_take_bit_shift take_bit_eq_mod)
  then have "sint (o_mod opts) < 0" using uint_lt2p [of "o_mod opts"] by simp
  then have m: "show_int (sint (o_mod opts)) = ''-'' @ show_nat (nat (- sint (o_mod opts)))" by (simp add: show_int_def)
  have "opts_text opts p f = (''{:mode             '' @ show_int (mode_num (o_mode opts)) @ '','' @ [CHR 10] @
     '' :start            '' @ show_int (o_start opts) @ '','' @ [CHR 10] @
     '' :end              '' @ show_int (o_end opts) @ '','' @ [CHR 10] @
     '' :chunk_size       '' @ show_int (o_chunk_size opts) @ '','' @ [CHR 10] @
     '' :index            '' @ show_int (sint (o_index opts)) @ '','' @ [CHR 10]) @
     '' :mod              '' @ (''-'' @ show_nat (nat (- sint (o_mod opts)))) @ ('','' @ [CHR 10] @
     '' :probability      '' @ p @ ''.'' @ [CHR 10] @
     '' :file             '' @ [CHR 34] @ f @ [CHR 34, CHR 10] @
     '' :clear_snaphots   '' @ show_int (if o_clear_snapshots opts then 1 else 0) @ ''}'' @ [CHR 10])" (is "_ = ?a @ ?k @ (?s @ ?n) @ ?b")
    by (simp only: opts_text_def append_assoc m)
  moreover have "?k @ ?s = '' :mod              -''" by simp
  ultimately have "opts_text opts p f = ?a @ '' :mod              -'' @ ?n @ ?b" by (metis append_assoc)
  then show ?thesis by blast
qed

lemma print_opts_unnamed: "print_opts default_opts w = Undef UninitRead"
  by (simp add: print_opts_def default_opts_def c_undef_def)

end
