(* ===== verification/CF_Chunks.thy ===== *)
theory CF_Chunks
  imports CF_Options
begin

text \<open>
  The helpers of \<open>corrupt-file.c\<close> that decide which bytes are affected: chunk offsets and
  counts, random chunk choice, and the snapshot path of a chunk.

  The lemmas show that the chunk arithmetic is exact and free of overflow for validated
  options, that chunk \<open>c\<close> exists exactly when its offset lies in the region and the
  file, and that the redrawing loops of \<open>rand_source_offset\<close> always end, with the draw that the
  reference \<open>source_draw\<close> computes.
\<close>

section \<open>Random numbers\<close>

definition rand_int :: "int \<Rightarrow> (os, int) prog" where
  "rand_int mx = (if 0 < mx then c_bind (c_lib lib_lrand48) (\<lambda>r. s64_mod r mx) else c_val 0)"

text \<open>The natural logarithm of the math library is the parameter \<open>clog\<close>.\<close>

definition rand_exp_int :: "(dbl \<Rightarrow> dbl) \<Rightarrow> dbl \<Rightarrow> (os, int) prog" where
  "rand_exp_int clog lambda =
     c_bind (c_lib lib_drand48) (\<lambda>u. d_to_s64 (d_mul (d_div (Fin (-1)) lambda) (clog u)))"

section \<open>Chunks\<close>

definition chunk_offset :: "opts_t \<Rightarrow> int \<Rightarrow> ('w, int) prog" where
  "chunk_offset opts chunk =
     c_bind (s64 (chunk * o_chunk_size opts)) (\<lambda>m. s64 (o_start opts + m))"

definition chunk_count :: "opts_t \<Rightarrow> int \<Rightarrow> ('w, int) prog" where
  "chunk_count opts file_size =
     (let e = (if file_size < o_end opts then file_size else o_end opts) in
      if e < o_start opts then c_val 0
      else c_bind (s64 (e - o_start opts)) (\<lambda>region_size.
           c_bind (s64_div region_size (o_chunk_size opts)) (\<lambda>chunks.
           c_bind (s64_mod region_size (o_chunk_size opts)) (\<lambda>r.
             if 0 \<noteq> r then s64 (chunks + 1) else c_val chunks))))"

definition rand_source_offset :: "opts_t \<Rightarrow> int \<Rightarrow> int \<Rightarrow> (os, int) prog" where
  "rand_source_offset opts dest_offset file_size =
     c_bind (chunk_count opts file_size) (\<lambda>chunk_count'.
       if chunk_count' < 2 then c_val (-1)
       else c_bind (rand_int chunk_count') (\<lambda>chunk.
         if o_mod opts = 1 then
           c_bind (chunk_offset opts chunk) (\<lambda>off.
           c_bind (c_while (\<lambda>(c, off). off = dest_offset)
                     (\<lambda>_. c_bind (rand_int chunk_count') (\<lambda>c.
                           c_bind (chunk_offset opts c) (\<lambda>off. c_val (c, off))))
                     (chunk, off)) (\<lambda>(c, _).
             chunk_offset opts c))
         else if o_mod opts = 0 then c_undef DivByZero
         else
           c_bind (c_while (\<lambda>c. c smod uint (o_mod opts) = uint (o_index opts))
                     (\<lambda>_. rand_int chunk_count') chunk) (\<lambda>c.
             chunk_offset opts c)))"

section \<open>Snapshot paths\<close>

definition SNAPSHOT_DIR :: string where
  "SNAPSHOT_DIR = ''/tmp/jepsen/corrupt-file/snapshots''"

definition PATH_MAX :: nat where "PATH_MAX = 4096"

text \<open>\<open>snprintf\<close> keeps at most one character less than the size it is given.\<close>

definition snprintf_s :: "nat \<Rightarrow> string \<Rightarrow> string" where
  "snprintf_s n s = take (n - 1) s"

definition snapshot_path :: "string \<Rightarrow> int \<Rightarrow> int \<Rightarrow> string" where
  "snapshot_path f a b =
     snprintf_s PATH_MAX (SNAPSHOT_DIR @ ''/'' @ f @ '':'' @ show_int a @ '':'' @ show_int b)"

section \<open>The region and its chunks\<close>

text \<open>Where the region ends in a file of the given size.\<close>

definition region_end :: "opts_t \<Rightarrow> int \<Rightarrow> int" where
  "region_end opts fs = min (o_end opts) fs"

definition n_chunks :: "opts_t \<Rightarrow> int \<Rightarrow> int" where
  "n_chunks opts fs =
     (if region_end opts fs < o_start opts then 0
      else (region_end opts fs - o_start opts + o_chunk_size opts - 1) div o_chunk_size opts)"

definition chunk_start :: "opts_t \<Rightarrow> int \<Rightarrow> int" where
  "chunk_start opts c = o_start opts + c * o_chunk_size opts"

definition chunk_end :: "opts_t \<Rightarrow> int \<Rightarrow> int \<Rightarrow> int" where
  "chunk_end opts fs c = min (chunk_start opts c + o_chunk_size opts) (region_end opts fs)"

text \<open>The chunks the options select: numbers \<open>index\<close>, \<open>index + mod\<close>, \<open>index + 2 mod\<close>, ...\<close>

definition selected :: "opts_t \<Rightarrow> int \<Rightarrow> bool" where
  "selected opts c \<longleftrightarrow> uint (o_index opts) \<le> c \<and> (c - uint (o_index opts)) mod uint (o_mod opts) = 0"

text \<open>The byte positions of a chunk, and of all selected chunks.\<close>

definition chunk_bytes :: "opts_t \<Rightarrow> int \<Rightarrow> int \<Rightarrow> nat set" where
  "chunk_bytes opts fs c = {i. chunk_start opts c \<le> int i \<and> int i < chunk_end opts fs c}"

definition selected_bytes :: "opts_t \<Rightarrow> int \<Rightarrow> nat set" where
  "selected_bytes opts fs =
     {i. \<exists>c. selected opts c \<and> c < n_chunks opts fs \<and> i \<in> chunk_bytes opts fs c}"

lemma selected_iff_mod:
  assumes "opts_ok opts" and "0 \<le> c"
  shows "selected opts c \<longleftrightarrow> c mod uint (o_mod opts) = uint (o_index opts)"
proof -
  let ?i = "uint (o_index opts)" and ?m = "uint (o_mod opts)"
  have im: "0 \<le> ?i" "?i < ?m"
    using opts_okD [OF assms(1)] by simp_all
  then have "(c - ?i) mod ?m = 0 \<longleftrightarrow> c mod ?m = ?i"
    by (metis mod_eq_dvd_iff mod_0_imp_dvd dvd_imp_mod_0 mod_pos_pos_trivial)
  moreover have "c mod ?m = ?i \<Longrightarrow> ?i \<le> c"
    using zmod_le_nonneg_dividend [of c ?m] assms(2) by simp
  ultimately show ?thesis by (auto simp: selected_def)
qed

lemma less_n_chunks_iff:
  assumes "opts_ok opts" and "0 \<le> c"
  shows "c < n_chunks opts fs \<longleftrightarrow> chunk_start opts c < region_end opts fs"
proof -
  let ?k = "o_chunk_size opts" and ?r = "region_end opts fs - o_start opts"
  have k: "0 < ?k" using opts_okD [OF assms(1)] by simp
  have "c < (?r + ?k - 1) div ?k \<longleftrightarrow> c + 1 \<le> (?r + ?k - 1) div ?k"
    by linarith
  also have "\<dots> \<longleftrightarrow> (c + 1) * ?k \<le> ?r + ?k - 1"
    using k by (rule le_zdiv_iff)
  also have "\<dots> \<longleftrightarrow> o_start opts + c * ?k < region_end opts fs"
    by (auto simp: algebra_simps)
  finally have main: "c < (?r + ?k - 1) div ?k \<longleftrightarrow> chunk_start opts c < region_end opts fs"
    by (simp add: chunk_start_def)
  have "0 \<le> c * ?k" using assms(2) k by simp
  with main show ?thesis
    using assms(2) by (auto simp: n_chunks_def chunk_start_def)
qed

lemma n_chunks_nonneg: "opts_ok opts \<Longrightarrow> 0 \<le> n_chunks opts fs"
  using opts_okD(4) [of opts] by (auto simp: n_chunks_def pos_imp_zdiv_nonneg_iff)

lemma n_chunks_bound:
  assumes "opts_ok opts" and "0 \<le> fs"
  shows "n_chunks opts fs \<le> fs"
proof (rule ccontr)
  assume "\<not> n_chunks opts fs \<le> fs"
  then have "chunk_start opts fs < region_end opts fs"
    using less_n_chunks_iff [OF assms, of fs] by linarith
  moreover have "fs \<le> fs * o_chunk_size opts"
    using assms opts_okD(4) [of opts] by (simp add: mult_le_cancel_left1)
  ultimately show False
    using opts_okD [OF assms(1)] by (simp add: chunk_start_def region_end_def)
qed

lemma chunk_start_strict_mono:
  "opts_ok opts \<Longrightarrow> c < d \<Longrightarrow> chunk_start opts c + o_chunk_size opts \<le> chunk_start opts d"
proof -
  assume a: "opts_ok opts" "c < d"
  then have "(c + 1) * o_chunk_size opts \<le> d * o_chunk_size opts"
    using opts_okD(4) [OF a(1)] by (intro mult_right_mono) auto
  then show ?thesis by (simp add: chunk_start_def algebra_simps)
qed

text \<open>Different chunks share no byte.\<close>

lemma chunk_bytes_disjoint:
  assumes "opts_ok opts" and "c \<noteq> d"
  shows "chunk_bytes opts fs c \<inter> chunk_bytes opts fs d = {}"
  using assms chunk_start_strict_mono [of opts c d] chunk_start_strict_mono [of opts d c]
  by (auto simp: chunk_bytes_def chunk_end_def) (cases c d rule: linorder_cases, auto)

lemma chunk_bytes_region:
  assumes "opts_ok opts" and "0 \<le> c" and "i \<in> chunk_bytes opts fs c"
  shows "o_start opts \<le> int i \<and> int i < region_end opts fs"
proof -
  have "0 \<le> c * o_chunk_size opts"
    using assms opts_okD(4) [of opts] by simp
  with assms(3) show ?thesis
    by (auto simp: chunk_bytes_def chunk_end_def chunk_start_def)
qed

section \<open>The arithmetic is exact\<close>

definition offs_ok :: "int \<Rightarrow> bool" where
  "offs_ok fs \<longleftrightarrow> 0 \<le> fs \<and> fs \<le> LLONG_MAX"

lemma wp_chunk_offset:
  assumes "opts_ok opts" and "0 \<le> c" and "c < n_chunks opts fs" and "offs_ok fs"
  shows "wp u (chunk_offset opts c) Q R X w = Q (chunk_start opts c) w"
proof -
  have "chunk_start opts c < region_end opts fs"
    using assms less_n_chunks_iff by blast
  moreover have "0 \<le> c * o_chunk_size opts" and "0 \<le> o_start opts"
    using assms opts_okD [of opts] by simp_all
  ultimately show ?thesis
    using assms(4) by (simp add: chunk_offset_def chunk_start_def in_s64_def offs_ok_def region_end_def)
qed

lemma ceil_div: "0 \<le> (r::int) \<Longrightarrow> 0 < k \<Longrightarrow>
    (r + k - 1) div k = (if r mod k = 0 then r div k else r div k + 1)"
proof -
  assume a: "0 \<le> r" "0 < k"
  have r: "r = k * (r div k) + r mod k" by simp
  have m: "0 \<le> r mod k" "r mod k < k" using a by simp_all
  have "(r + k - 1) div k = (k * (r div k) + (r mod k + k - 1)) div k"
    using r by (simp add: algebra_simps)
  also have "\<dots> = r div k + (r mod k + k - 1) div k"
    using a by simp
  also have "(r mod k + k - 1) div k = (if r mod k = 0 then 0 else 1)"
  proof (cases "r mod k = 0")
    case False
    with m show ?thesis by (simp add: int_div_pos_eq [where r = "r mod k - 1"])
  qed (use a in simp)
  finally show ?thesis by simp
qed

lemma wp_chunk_count:
  assumes "opts_ok opts" and "offs_ok fs"
  shows "wp u (chunk_count opts fs) Q R X w = Q (n_chunks opts fs) w"
proof -
  let ?e = "region_end opts fs" and ?k = "o_chunk_size opts"
  note ok = opts_okD [OF assms(1)]
  have e: "(if fs < o_end opts then fs else o_end opts) = ?e"
    by (auto simp: region_end_def)
  show ?thesis
  proof (cases "?e < o_start opts")
    case True
    then show ?thesis by (simp add: chunk_count_def e n_chunks_def)
  next
    case False
    have r: "0 \<le> ?e - o_start opts" "in_s64 (?e - o_start opts)"
      using False ok assms(2) by (auto simp: in_s64_def offs_ok_def region_end_def)
    have n: "n_chunks opts fs = (if (?e - o_start opts) mod ?k = 0 then (?e - o_start opts) div ?k
        else (?e - o_start opts) div ?k + 1)"
      using False ok r(1) ceil_div [of "?e - o_start opts" ?k] by (simp add: n_chunks_def algebra_simps)
    have "n_chunks opts fs \<le> fs" and "0 \<le> n_chunks opts fs"
      using n_chunks_bound [OF assms(1)] n_chunks_nonneg [OF assms(1)] assms(2) by (auto simp: offs_ok_def)
    then have "in_s64 (n_chunks opts fs)"
      using assms(2) by (simp add: in_s64_def offs_ok_def)
    with False n r ok show ?thesis
      by (cases "(?e - o_start opts) mod ?k = 0")
        (simp_all add: chunk_count_def e wp_s64_div_nonneg wp_s64_mod_nonneg)
  qed
qed

section \<open>Random choices\<close>

text \<open>A draw changes nothing but the generator's state.\<close>

definition redrawn :: "os \<Rightarrow> os \<Rightarrow> bool" where
  "redrawn w w' \<longleftrightarrow> rng_ok (rand_st w') \<and> w' = w\<lparr>rand_st := rand_st w'\<rparr>"

lemma redrawn_step [simp]: "redrawn w (w\<lparr>rand_st := lcg_step x\<rparr>)"
  by (simp add: redrawn_def)

lemma redrawn_frame:
  assumes "redrawn w w'"
  shows "nodes w' = nodes w" "inodes w' = inodes w" "fds w' = fds w" "next_ino w' = next_ino w"
    "faults w' = faults w" "cwd w' = cwd w" "printed w' = printed w" "rng_ok (rand_st w')"
  using assms by (auto simp: redrawn_def) (metis os.select_convs os.surjective os.update_convs(6))+

lemma lrand48_of_s64: "rng_ok x \<Longrightarrow> 0 \<le> lrand48_of x \<and> in_s64 (lrand48_of x)"
  using lrand48_of_range [of x] by (auto simp: in_s64_def)

lemma wp_rand_int:
  assumes "0 < mx"
  shows "wp u (rand_int mx) Q R X w =
    Q (lrand48_of (lcg_step (rand_st w)) mod mx) (w\<lparr>rand_st := lcg_step (rand_st w)\<rparr>)"
  using assms lrand48_of_s64 [OF lcg_step_ok, of "rand_st w"]
  by (simp add: rand_int_def wp_lib lib_lrand48_def Let_def wp_s64_mod_nonneg)

lemma mod_ge_2:
  assumes "opts_ok opts" and "o_mod opts \<noteq> 1"
  shows "2 \<le> uint (o_mod opts)"
proof -
  have "uint (o_mod opts) \<noteq> 1"
    using assms(2) by (metis unsigned_1 word_uint_eq_iff)
  moreover have "0 < uint (o_mod opts)"
    using opts_okD(6) [OF assms(1)] uint_ge_0 [of "o_index opts"] by linarith
  ultimately show ?thesis by linarith
qed

text \<open>One of the first two chunks is acceptable, whatever the destination and the options.\<close>

lemma exists_other_chunk:
  assumes "opts_ok opts"
  shows "\<exists>v \<in> {0, 1}. chunk_start opts v \<noteq> dest"
proof (rule ccontr)
  assume "\<not> ?thesis"
  then have "chunk_start opts 0 = chunk_start opts 1" by simp
  with opts_okD(4) [OF assms] show False by (simp add: chunk_start_def)
qed

lemma exists_unselected_chunk:
  assumes "opts_ok opts" and "o_mod opts \<noteq> 1"
  shows "\<exists>v \<in> {0, 1}. v mod uint (o_mod opts) \<noteq> uint (o_index opts)"
  using mod_ge_2 [OF assms] by auto

text \<open>
  A redrawing loop: the state holds the current draw reduced to the range.  It ends
  because the generator reaches every value, at the first acceptable draw.
\<close>

lemma draw_until_mod:
  assumes "2 \<le> n" and "v \<in> {0, 1}" "P v" and "rng_ok x"
  defines "y \<equiv> draw_until (\<lambda>r. P (r mod n)) x"
  shows "P (lrand48_of y mod n)" "rng_ok y"
  using draw_until_hits [of v "\<lambda>r. P (r mod n)" x] assms by auto

lemma wp_redraw:
  assumes bound: "2 \<le> n" and v: "v \<in> {0, 1}" "P v"
    and guard: "\<And>k. 0 \<le> k \<Longrightarrow> k < n \<Longrightarrow> b (g k) \<longleftrightarrow> \<not> P k"
    and body: "\<And>s w Q. wp u (c s) Q R X w =
       Q (g (lrand48_of (lcg_step (rand_st w)) mod n)) (w\<lparr>rand_st := lcg_step (rand_st w)\<rparr>)"
    and y: "draw_until (\<lambda>r. P (r mod n)) (rand_st w) = y"
    and post: "Q (g (lrand48_of y mod n)) (w\<lparr>rand_st := y\<rparr>)"
  shows "wp u (c_while b c (g (lrand48_of (rand_st w) mod n))) Q R X w"
proof (rule wp_while [where
      I = "\<lambda>s w'. w' = w\<lparr>rand_st := rand_st w'\<rparr> \<and> s = g (lrand48_of (rand_st w') mod n) \<and>
        draw_until (\<lambda>r. P (r mod n)) (rand_st w') = y" and
      m = "\<lambda>s w. lrand.wait (\<lambda>x. P (x mod n)) (rand_st w)"])
  have range: "0 \<le> x mod n" "x mod n < n" for x :: int
    using bound by simp_all
  fix s w' assume I: "w' = w\<lparr>rand_st := rand_st w'\<rparr> \<and> s = g (lrand48_of (rand_st w') mod n) \<and>
      draw_until (\<lambda>r. P (r mod n)) (rand_st w') = y"
  note here = guard [OF range, of "lrand48_of (rand_st w')"] draw_until_unfold [of "\<lambda>r. P (r mod n)" "rand_st w'"]
  show "Q s w'" if "\<not> b s"
    using that I here post by metis
  assume "b s"
  then have no: "\<not> P (lrand48_of (rand_st w') mod n)" using I here by simp
  have "0 \<le> v" "v < 2 ^ 31" "P (v mod n)"
    using v bound by auto
  with no have "lrand.wait (\<lambda>x. P (x mod n)) (lcg_step (rand_st w')) < lrand.wait (\<lambda>x. P (x mod n)) (rand_st w')"
    using lrand.wait_decreases [of v "\<lambda>x. P (x mod n)"] by blast
  moreover have "w'\<lparr>rand_st := x\<rparr> = w\<lparr>rand_st := x\<rparr>" for x using I by (metis os.update_convs(6) os.surjective)
  ultimately show "wp u (c s) (\<lambda>s' w''. (w'' = w\<lparr>rand_st := rand_st w''\<rparr> \<and> s' = g (lrand48_of (rand_st w'') mod n) \<and>
      draw_until (\<lambda>r. P (r mod n)) (rand_st w'') = y) \<and>
      lrand.wait (\<lambda>x. P (x mod n)) (rand_st w'') < lrand.wait (\<lambda>x. P (x mod n)) (rand_st w')) R X w'"
    using I no here by (simp add: body)
qed (use y in auto)

definition source_ok :: "opts_t \<Rightarrow> int \<Rightarrow> int \<Rightarrow> int \<Rightarrow> bool" where
  "source_ok opts fs dest c \<longleftrightarrow>
     0 \<le> c \<and> c < n_chunks opts fs \<and>
     (if o_mod opts = 1 then chunk_start opts c \<noteq> dest else \<not> selected opts c)"

text \<open>
  The reference for the choice: with two chunks or more, draw until the draw, reduced to the
  number of chunks, is acceptable.
\<close>

definition source_draw :: "opts_t \<Rightarrow> int \<Rightarrow> int \<Rightarrow> rng \<Rightarrow> rng \<times> int option" where
  "source_draw opts fs dest x =
     (let n = n_chunks opts fs in
      if n < 2 then (x, None)
      else let y = draw_until (\<lambda>r. source_ok opts fs dest (r mod n)) (lcg_step x) in (y, Some (lrand48_of y mod n)))"

lemma exists_source:
  assumes ok: "opts_ok opts" and two: "2 \<le> n_chunks opts fs"
  obtains v where "v \<in> {0, 1}" "source_ok opts fs dest v"
proof -
  have "\<exists>v \<in> {0, 1}. source_ok opts fs dest v"
    using exists_other_chunk [OF ok, of dest] exists_unselected_chunk [OF ok] two
    by (cases "o_mod opts = 1") (auto simp: source_ok_def selected_iff_mod [OF ok])
  with that show ?thesis by blast
qed

lemma source_draw_ok:
  assumes "opts_ok opts" and "2 \<le> n_chunks opts fs"
  obtains y e where "source_draw opts fs dest x = (y, Some e)" "source_ok opts fs dest e" "rng_ok y"
proof -
  obtain v where v: "v \<in> {0, 1}" "source_ok opts fs dest v" using exists_source [OF assms] .
  from draw_until_mod [where P = "source_ok opts fs dest", OF assms(2) v lcg_step_ok] assms(2) that
  show ?thesis by (simp add: source_draw_def Let_def)
qed

lemma source_draw_none: "source_draw opts fs dest x = (y, None) \<longleftrightarrow> n_chunks opts fs < 2 \<and> y = x"
  by (auto simp: source_draw_def Let_def)

text \<open>The function computes the reference.\<close>

lemma wp_source_draw:
  assumes ok: "opts_ok opts" "offs_ok fs" and y: "source_draw opts fs dest (rand_st w) = (y, Some e)"
    and post: "Q (chunk_start opts e) (w\<lparr>rand_st := y\<rparr>)"
  shows "wp u (rand_source_offset opts dest fs) Q R X w"
proof -
  let ?n = "n_chunks opts fs" and ?w = "w\<lparr>rand_st := lcg_step (rand_st w)\<rparr>"
  have two: "2 \<le> ?n" and draw: "draw_until (\<lambda>r. source_ok opts fs dest (r mod ?n)) (rand_st ?w) = y" "e = lrand48_of y mod ?n"
    using y by (auto simp: source_draw_def Let_def split: if_splits)
  have n: "0 < ?n" using two by simp
  have range: "0 \<le> x mod ?n" "x mod ?n < ?n" for x :: int
    using n by simp_all
  note offset = wp_chunk_offset [OF ok(1) _ _ ok(2)] and start = wp_chunk_count [OF ok] wp_rand_int [OF n]
  obtain v where v: "v \<in> {0, 1}" "source_ok opts fs dest v" using exists_source [OF ok(1) two] .
  show ?thesis
  proof (cases "o_mod opts = 1")
    case True
    have "wp u (c_while (\<lambda>(c, off). off = dest)
        (\<lambda>_. c_bind (rand_int ?n) (\<lambda>c. c_bind (chunk_offset opts c) (\<lambda>off. c_val (c, off))))
        ((\<lambda>k. (k, chunk_start opts k)) (lrand48_of (rand_st ?w) mod ?n)))
        (\<lambda>a. wp u (case a of (c, _) \<Rightarrow> chunk_offset opts c) Q R X) R X ?w"
      by (rule wp_redraw [where g = "\<lambda>k. (k, chunk_start opts k)", OF two v _ _ draw(1)])
        (use post in \<open>simp_all add: start offset range draw(2) source_ok_def True\<close>)
    with True two show ?thesis
      by (simp add: rand_source_offset_def start offset range)
  next
    case False
    have "wp u (c_while (\<lambda>c. c smod uint (o_mod opts) = uint (o_index opts)) (\<lambda>_. rand_int ?n)
        ((\<lambda>k. k) (lrand48_of (rand_st ?w) mod ?n))) (\<lambda>c. wp u (chunk_offset opts c) Q R X) R X ?w"
      by (rule wp_redraw [where g = "\<lambda>k. k", OF two v _ _ draw(1)])
        (use post in \<open>simp_all add: start offset draw(2) source_ok_def False smod_nonneg_int selected_iff_mod ok range\<close>)
    moreover have "o_mod opts \<noteq> 0"
      using mod_ge_2 [OF ok(1) False] by auto
    ultimately show ?thesis
      using False two by (simp add: rand_source_offset_def start)
  qed
qed

lemma wp_no_source:
  assumes "opts_ok opts" and "offs_ok fs" and "n_chunks opts fs < 2"
  shows "wp u (rand_source_offset opts dest fs) Q R X w = Q (-1) w"
  using assms by (simp add: rand_source_offset_def wp_chunk_count)

lemma wp_rand_source_offset:
  assumes ok: "opts_ok opts" "offs_ok fs" and two: "2 \<le> n_chunks opts fs"
    and post: "\<And>c w'. source_ok opts fs dest c \<Longrightarrow> redrawn w w' \<Longrightarrow> Q (chunk_start opts c) w'"
  shows "wp u (rand_source_offset opts dest fs) Q R X w"
proof -
  obtain y e where "source_draw opts fs dest (rand_st w) = (y, Some e)" "source_ok opts fs dest e" "rng_ok y"
    using source_draw_ok [OF ok(1) two] .
  moreover from this(3) have "redrawn w (w\<lparr>rand_st := y\<rparr>)" by (simp add: redrawn_def)
  ultimately show ?thesis using post by (intro wp_source_draw [OF ok])
qed

section \<open>Properties\<close>

text \<open>C19: For validated options and any file size the number of chunks is computed without overflow
  or division by zero, and chunk number \<open>c\<close> is below it exactly when its first byte lies in the
  region and in the file.\<close>

theorem chunk_count_exact:
  assumes "opts_ok opts" and "0 \<le> fs" and "fs \<le> LLONG_MAX"
  shows "\<exists>n. chunk_count opts fs w = Val n w \<and> 0 \<le> n \<and>
    (\<forall>c \<ge> 0. c < n \<longleftrightarrow> o_start opts + c * o_chunk_size opts < min (o_end opts) fs)"
proof -
  have "wp False (chunk_count opts fs) (\<lambda>n w'. n = n_chunks opts fs \<and> w' = w) (\<lambda>_ _. False) (\<lambda>_ _. False) w"
    using assms by (simp add: wp_chunk_count offs_ok_def)
  then obtain n w' where "chunk_count opts fs w = Val n w'" "n = n_chunks opts fs \<and> w' = w"
    by (rule wp_totalD)
  then show ?thesis
    using n_chunks_nonneg [OF assms(1)] less_n_chunks_iff [OF assms(1)]
    by (auto simp: chunk_start_def region_end_def)
qed

theorem chunk_count_exact_witness:
  "\<exists>n. chunk_count (default_opts\<lparr>o_chunk_size := 4\<rparr>) 10 () = Val n () \<and> 0 \<le> n \<and>
     (\<forall>c \<ge> 0. c < n \<longleftrightarrow> c * 4 < (10::int))"
  using chunk_count_exact [of "default_opts\<lparr>o_chunk_size := 4\<rparr>" 10 "()"]
  by (simp add: default_opts_def opts_ok_def OFF_MAX_def)

text \<open>C18: The source chunk of a copy: with fewer than two chunks in the region the function
  reports that there is none and draws nothing; otherwise, whatever the state of the random number generator, its
  redrawing loop ends.  It takes the first acceptable draw, as the reference \<open>source_draw\<close> does, and returns the offset
  of a chunk of the region that is different from the destination when every chunk is selected, and that is not
  selected when some are not.\<close>

theorem rand_source_offset_correct:
  assumes "opts_ok opts" and "0 \<le> fs" and "fs \<le> LLONG_MAX"
  shows "if n_chunks opts fs < 2 then rand_source_offset opts dest fs w = Val (-1) w
    else \<exists>c x. source_draw opts fs dest (rand_st w) = (x, Some c) \<and>
      rand_source_offset opts dest fs w = Val (chunk_start opts c) (w\<lparr>rand_st := x\<rparr>) \<and>
      0 \<le> c \<and> c < n_chunks opts fs \<and>
      (if o_mod opts = 1 then chunk_start opts c \<noteq> dest
       else c mod uint (o_mod opts) \<noteq> uint (o_index opts))"
proof -
  have fs: "offs_ok fs" using assms by (simp add: offs_ok_def)
  show ?thesis
  proof (cases "n_chunks opts fs < 2")
    case True
    then have "wp False (rand_source_offset opts dest fs) (\<lambda>r w'. r = -1 \<and> w' = w) (\<lambda>_ _. False) (\<lambda>_ _. False) w"
      using assms fs by (simp add: wp_no_source)
    then show ?thesis using True by (auto elim: wp_totalD)
  next
    case False
    then obtain x c where c: "source_draw opts fs dest (rand_st w) = (x, Some c)" "source_ok opts fs dest c"
      using source_draw_ok [OF assms(1)] by (metis not_le)
    have "wp False (rand_source_offset opts dest fs)
        (\<lambda>r w'. r = chunk_start opts c \<and> w' = w\<lparr>rand_st := x\<rparr>) (\<lambda>_ _. False) (\<lambda>_ _. False) w"
      by (rule wp_source_draw [OF assms(1) fs c(1)]) simp
    then have "rand_source_offset opts dest fs w = Val (chunk_start opts c) (w\<lparr>rand_st := x\<rparr>)"
      by (auto elim: wp_totalD)
    with False c selected_iff_mod [OF assms(1)] show ?thesis by (auto simp: source_ok_def)
  qed
qed

theorem rand_source_offset_correct_witness:
  "\<exists>c w'. rand_source_offset (default_opts\<lparr>o_chunk_size := 4\<rparr>) 0 8 (sample_os [] []) = Val (0 + c * 4) w' \<and>
     0 \<le> c \<and> c < 2 \<and> c * 4 \<noteq> 0"
  using rand_source_offset_correct [of "default_opts\<lparr>o_chunk_size := 4\<rparr>" 8 0 "sample_os [] []"]
  by (auto simp: default_opts_def opts_ok_def OFF_MAX_def n_chunks_def region_end_def chunk_start_def)

text \<open>C35: A random integer below a positive bound lies in its range, and from any state of the
  generator every value of the range below two to the thirty-first comes up after finitely many
  further draws.\<close>

theorem rand_int_range_and_reach:
  assumes "0 < mx"
  shows "(\<exists>v. rand_int mx w = Val v (w\<lparr>rand_st := lcg_step (rand_st w)\<rparr>) \<and> 0 \<le> v \<and> v < mx) \<and>
    (\<forall>v. 0 \<le> v \<and> v < mx \<and> v < 2 ^ 31 \<longrightarrow>
      (\<exists>n w'. rand_int mx (w\<lparr>rand_st := (lcg_step ^^ n) (rand_st w)\<rparr>) = Val v w'))"
proof -
  have draw: "rand_int mx w = Val (lrand48_of (lcg_step (rand_st w)) mod mx) (w\<lparr>rand_st := lcg_step (rand_st w)\<rparr>)" for w
  proof -
    have "wp False (rand_int mx) (\<lambda>v w'. v = lrand48_of (lcg_step (rand_st w)) mod mx \<and>
        w' = w\<lparr>rand_st := lcg_step (rand_st w)\<rparr>) (\<lambda>_ _. False) (\<lambda>_ _. False) w"
      using assms by (simp add: wp_rand_int)
    then show ?thesis by (auto elim: wp_totalD)
  qed
  have "\<exists>n w'. rand_int mx (w\<lparr>rand_st := (lcg_step ^^ n) (rand_st w)\<rparr>) = Val v w'"
    if "0 \<le> v" "v < mx" "v < 2 ^ 31" for v
  proof -
    have "rng_ok (v * 2 ^ 17)" using that by (simp add: rng_ok_def)
    then obtain n where "(lcg_step ^^ Suc n) (rand_st w) = v * 2 ^ 17"
      using lcg_full_period by blast
    then have "lrand48_of (lcg_step ((lcg_step ^^ n) (rand_st w))) mod mx = v"
      using that by (simp add: lrand48_of_def)
    then show ?thesis by (intro exI [of _ n]) (simp add: draw)
  qed
  moreover have "\<exists>v. rand_int mx w = Val v (w\<lparr>rand_st := lcg_step (rand_st w)\<rparr>) \<and> 0 \<le> v \<and> v < mx"
    using draw assms by simp
  ultimately show ?thesis by blast
qed

theorem rand_int_range_and_reach_witness:
  "\<exists>n w'. rand_int 10 ((sample_os [] [])\<lparr>rand_st := (lcg_step ^^ n) 0\<rparr>) = Val 7 w'"
  using rand_int_range_and_reach [of 10 "sample_os [] []"] by (simp add: sample_os_def)

end
