(* ===== verification/CF_Loop.thy ===== *)
theory CF_Loop
  imports CF_Chunks
begin

text \<open>
  The loop \<open>for (chunk = index; chunk < chunk_count; chunk += mod)\<close> that the snapshot,
  restore and copy modes share, and the contract of a mode: its body keeps an invariant
  that speaks of the chunks before the current one.  The locale \<open>chunk_mode\<close> turns that
  contract into a fact about the whole loop; each mode interprets it on its own body.
\<close>

definition for_chunks :: "opts_t \<Rightarrow> int \<Rightarrow> (int \<Rightarrow> 's \<Rightarrow> ('w, 's) prog) \<Rightarrow> 's \<Rightarrow> ('w, 's) prog" where
  "for_chunks opts count body s0 =
     c_bind (c_while (\<lambda>(chunk, s). chunk < count)
       (\<lambda>(chunk, s). c_bind (body chunk s) (\<lambda>s'.
          c_bind (s64 (chunk + uint (o_mod opts))) (\<lambda>chunk'. c_val (chunk', s'))))
       (uint (o_index opts), s0))
     (\<lambda>(_, s). c_val s)"

text \<open>The clipping of a chunk's end to the file and then to the region.\<close>

definition clip_end :: "opts_t \<Rightarrow> int \<Rightarrow> int \<Rightarrow> int" where
  "clip_end opts file_size e0 =
     (let e1 = (if file_size < e0 then file_size else e0)
      in if o_end opts < e1 then o_end opts else e1)"

lemma clip_end_chunk [simp]:
  "clip_end opts fs (chunk_start opts c + o_chunk_size opts) = chunk_end opts fs c"
  by (auto simp: clip_end_def chunk_end_def region_end_def Let_def)

text \<open>Room for the loop's sums: the region, one chunk more and one step of the counter fit.\<close>

definition roomy :: "opts_t \<Rightarrow> int \<Rightarrow> bool" where
  "roomy opts fs \<longleftrightarrow> fs + o_chunk_size opts \<le> LLONG_MAX \<and> fs + 2 ^ 32 \<le> LLONG_MAX"

lemma selected_step: "selected opts c \<Longrightarrow> selected opts (c + uint (o_mod opts))"
proof -
  assume "selected opts c"
  then have "uint (o_index opts) \<le> c" "(c - uint (o_index opts)) mod uint (o_mod opts) = 0"
    by (simp_all add: selected_def)
  then have "uint (o_index opts) \<le> c + uint (o_mod opts)"
    and "(c - uint (o_index opts) + uint (o_mod opts)) mod uint (o_mod opts) = 0"
    by (simp_all add: add_increasing2)
  then show ?thesis by (simp add: selected_def algebra_simps)
qed

lemma selected_before_next:
  assumes "selected opts d" and "selected opts c" and "d < c + uint (o_mod opts)"
  shows "d \<le> c"
proof (rule ccontr)
  assume "\<not> d \<le> c"
  let ?m = "uint (o_mod opts)" and ?i = "uint (o_index opts)"
  have "(d - ?i) mod ?m = (c - ?i) mod ?m" using assms by (simp add: selected_def)
  then have "?m dvd d - c" by (simp add: mod_eq_dvd_iff)
  with \<open>\<not> d \<le> c\<close> assms(3) show False
    using zdvd_not_zless [of "d - c" ?m] by simp
qed

text \<open>The selected chunks in the order of the loop, and those from a chunk on.\<close>

definition chunks_from :: "opts_t \<Rightarrow> int \<Rightarrow> int \<Rightarrow> int list" where
  "chunks_from opts fs c = filter (selected opts) [c .. n_chunks opts fs - 1]"

lemma chunks_from_done [simp]: "n_chunks opts fs \<le> c \<Longrightarrow> chunks_from opts fs c = []"
  by (simp add: chunks_from_def)

lemma chunks_from_skip:
  assumes "a \<le> b" and "\<And>d. a \<le> d \<Longrightarrow> d < b \<Longrightarrow> \<not> selected opts d"
  shows "chunks_from opts fs a = chunks_from opts fs b"
proof (cases "b \<le> n_chunks opts fs - 1")
  case True
  have "filter (selected opts) [a .. b - 1] = []" using assms(2) by (auto simp: filter_empty_conv)
  with upto_split1 [OF assms(1) True] show ?thesis by (simp add: chunks_from_def)
next
  case False
  with assms(2) show ?thesis by (auto simp: chunks_from_def filter_empty_conv)
qed

lemma chunks_from_init: "chunks_from opts fs 0 = chunks_from opts fs (uint (o_index opts))"
  by (rule chunks_from_skip) (auto simp: selected_def)

lemma chunks_from_step:
  assumes "opts_ok opts" and "selected opts c" and "c < n_chunks opts fs"
  shows "chunks_from opts fs c = c # chunks_from opts fs (c + uint (o_mod opts))"
proof -
  have m: "0 < uint (o_mod opts)" using opts_okD(6) [OF assms(1)] by (auto intro: le_less_trans [OF uint_ge_0])
  have "\<not> selected opts d" if "c + 1 \<le> d" "d < c + uint (o_mod opts)" for d
    using selected_before_next [OF _ assms(2) that(2)] that(1) by force
  then have "chunks_from opts fs (c + 1) = chunks_from opts fs (c + uint (o_mod opts))"
    using m by (intro chunks_from_skip) auto
  moreover have "[c .. n_chunks opts fs - 1] = c # [c + 1 .. n_chunks opts fs - 1]" using assms(3) by (simp add: upto_rec1)
  ultimately show ?thesis using assms(2) by (simp add: chunks_from_def)
qed

locale chunk_mode =
  fixes u :: bool and opts :: opts_t and count :: int
    and body :: "int \<Rightarrow> 's \<Rightarrow> ('w, 's) prog"
    and inv :: "int \<Rightarrow> 's \<Rightarrow> 'w \<Rightarrow> bool"
    and bail :: "int \<Rightarrow> 'w \<Rightarrow> bool"
  assumes inv_opts: "inv c s w \<Longrightarrow> opts_ok opts \<and> (u \<or> count + 2 ^ 32 \<le> LLONG_MAX)"
    and body_keeps: "inv c s w \<Longrightarrow> selected opts c \<Longrightarrow> c < count \<Longrightarrow>
      wp u (body c s) (inv (c + uint (o_mod opts))) bail (\<lambda>_ _. False) w"
begin

lemma wp_loop:
  assumes init: "inv (uint (o_index opts)) s w"
    and fin: "\<And>c s w. inv c s w \<Longrightarrow> selected opts c \<Longrightarrow> count \<le> c \<Longrightarrow> Q s w"
  shows "wp u (for_chunks opts count body s) Q bail (\<lambda>_ _. False) w"
proof -
  let ?m = "uint (o_mod opts)"
  have "wp u (c_while (\<lambda>(c, s). c < count)
      (\<lambda>(c, s). c_bind (body c s) (\<lambda>s'. c_bind (s64 (c + ?m)) (\<lambda>c'. c_val (c', s'))))
      (uint (o_index opts), s)) (\<lambda>(_, s). Q s) bail (\<lambda>_ _. False) w"
  proof (rule wp_while [where I = "\<lambda>x w. inv (fst x) (snd x) w \<and> selected opts (fst x)" and
        m = "\<lambda>x w. nat (count - fst x)"])
    fix x w' assume I: "inv (fst x) (snd x) w' \<and> selected opts (fst x)" and b: "case x of (c, s) \<Rightarrow> c < count"
    obtain c s where x: "x = (c, s)" by force
    have inv: "inv c s w'" and sel: "selected opts c" and less: "c < count"
      using I b x by auto
    have m: "0 < ?m" "?m < 2 ^ 32" "0 \<le> c"
      using inv_opts [OF inv] sel uint_lt2p [of "o_mod opts"]
      by (auto simp: selected_def opts_ok_def intro: order_trans [OF uint_ge_0] le_less_trans [OF uint_ge_0])
    then have "u \<or> in_s64 (c + ?m)"
      using inv_opts [OF inv] less by (auto simp: in_s64_def)
    then show "wp u (case x of (c, s) \<Rightarrow> c_bind (body c s) (\<lambda>s'. c_bind (s64 (c + ?m)) (\<lambda>c'. c_val (c', s'))))
       (\<lambda>y w''. (inv (fst y) (snd y) w'' \<and> selected opts (fst y)) \<and> nat (count - fst y) < nat (count - fst x))
       bail (\<lambda>_ _. False) w'"
      unfolding x using m less selected_step [OF sel]
      by (auto intro!: wp_mono_val [OF body_keeps [OF inv sel less]])
  qed (use init fin in \<open>auto simp: selected_def not_less\<close>)
  then show ?thesis by (simp add: for_chunks_def split_def)
qed

end

text \<open>Facts about one selected chunk that every mode's body uses.\<close>

lemma chunk_facts:
  assumes "opts_ok opts" and "offs_ok fs" and "selected opts c" and "c < n_chunks opts fs"
  shows "0 \<le> c" "0 \<le> chunk_start opts c" "chunk_start opts c < region_end opts fs"
    "chunk_start opts c < chunk_end opts fs c" "chunk_end opts fs c \<le> region_end opts fs"
    "region_end opts fs \<le> fs" "chunk_end opts fs c \<le> chunk_start opts c + o_chunk_size opts"
    "o_start opts \<le> chunk_start opts c"
proof -
  show c: "0 \<le> c"
    using assms(3) by (auto simp: selected_def intro: order_trans [OF uint_ge_0])
  show lt: "chunk_start opts c < region_end opts fs"
    using less_n_chunks_iff [OF assms(1) c] assms(4) by simp
  have "0 \<le> c * o_chunk_size opts"
    using c opts_okD(4) [OF assms(1)] by simp
  then show "o_start opts \<le> chunk_start opts c" and "0 \<le> chunk_start opts c"
    using opts_okD(1) [OF assms(1)] by (simp_all add: chunk_start_def)
  show "chunk_start opts c < chunk_end opts fs c"
    using lt opts_okD(4) [OF assms(1)] by (simp add: chunk_end_def)
qed (auto simp: chunk_end_def region_end_def)

text \<open>The statistics of a mode: bytes and chunks handled before chunk \<open>c\<close>.\<close>

definition stats_ok :: "opts_t \<Rightarrow> int \<Rightarrow> int \<Rightarrow> int \<Rightarrow> bool" where
  "stats_ok opts c b n \<longleftrightarrow> 0 \<le> b \<and> b \<le> c * o_chunk_size opts \<and> 0 \<le> n \<and> n \<le> c"

lemma stats_ok_init: "opts_ok opts \<Longrightarrow> stats_ok opts (uint (o_index opts)) 0 0"
  using opts_okD(4) [of opts] by (simp add: stats_ok_def)

lemma stats_ok_skip:
  assumes "opts_ok opts" and "stats_ok opts c b n"
  shows "stats_ok opts (c + uint (o_mod opts)) b n"
proof -
  have "c * o_chunk_size opts \<le> (c + uint (o_mod opts)) * o_chunk_size opts"
    using opts_okD(4) [OF assms(1)] by (intro mult_right_mono) auto
  with assms(2) show ?thesis by (auto simp: stats_ok_def intro: order_trans)
qed

lemma stats_ok_add:
  assumes ok: "opts_ok opts" and st: "stats_ok opts c b n" and m: "0 \<le> m" "m \<le> o_chunk_size opts"
  shows "stats_ok opts (c + uint (o_mod opts)) (b + m) (n + 1)"
proof -
  have m0: "0 < uint (o_mod opts)"
    using opts_okD(6) [OF ok] by (auto intro: le_less_trans [OF uint_ge_0])
  then have "(c + 1) * o_chunk_size opts \<le> (c + uint (o_mod opts)) * o_chunk_size opts"
    using opts_okD(4) [OF ok] by (intro mult_right_mono) auto
  with st m m0 show ?thesis by (auto simp: stats_ok_def distrib_right)
qed

lemma chunk_sum_fits:
  assumes "opts_ok opts" "offs_ok fs" and "u \<or> roomy opts fs" and "selected opts c" "c < n_chunks opts fs"
  shows "u \<or> in_s64 (chunk_start opts c + o_chunk_size opts)"
  using assms(3) chunk_facts [OF assms(1,2,4,5)] opts_okD(4) [OF assms(1)] by (auto simp: roomy_def in_s64_def)

lemma stats_fit:
  assumes ok: "opts_ok opts" "offs_ok fs" and room: "u \<or> roomy opts fs"
    and sel: "selected opts c" "c < n_chunks opts fs"
    and st: "stats_ok opts c b n" and m: "0 \<le> m" "m \<le> o_chunk_size opts"
  shows "u \<or> in_s64 (b + m) \<and> in_s64 (n + 1)"
proof -
  note f = chunk_facts [OF ok sel]
  have "c * o_chunk_size opts < fs"
    using f(3,6) opts_okD(1) [OF ok(1)] by (simp add: chunk_start_def)
  moreover have "c < fs"
    using n_chunks_bound [OF ok(1), of fs] sel(2) ok(2) by (simp add: offs_ok_def)
  ultimately show ?thesis
    using room st m by (auto simp: stats_ok_def roomy_def in_s64_def)
qed

end
