(* ===== verification/CF_Copy.thy ===== *)
theory CF_Copy
  imports CF_Loop
begin

text \<open>
  The copy mode of \<open>corrupt-file.c\<close>: each selected chunk is overwritten, with the given
  probability, by the bytes of another chunk.

  The lemmas show, for every fault plan and every state of the generator, that only bytes
  of selected chunks change, that the file keeps its length, that with a modulus other than
  one each selected chunk starts with at least one original byte of an unselected chunk (it
  is left alone only when the probability is below one or no chunk can serve as a source), and
  that the mode ends without undefined behaviour when the region leaves room for one more chunk.
\<close>

section \<open>The mode\<close>

definition copy_body :: "opts_t \<Rightarrow> int \<Rightarrow> int \<Rightarrow> int \<Rightarrow> int \<times> int \<Rightarrow> (os, int \<times> int) prog" where
  "copy_body opts fd file_size chunk = (\<lambda>(bytes_corrupted, chunks_corrupted).
     c_bind (c_lib lib_drand48) (\<lambda>r.
     if d_less (o_probability opts) r then c_val (bytes_corrupted, chunks_corrupted)
     else
       c_bind (chunk_offset opts chunk) (\<lambda>start.
       c_bind (s64 (start + o_chunk_size opts)) (\<lambda>end0.
       c_bind (s64 (clip_end opts file_size end0 - start)) (\<lambda>chunk_size.
       c_bind (rand_source_offset opts start file_size) (\<lambda>source_offset.
       if 0 \<le> source_offset then
         c_bind (c_lib (sys_cfr fd (Some source_offset) fd (Some start) chunk_size)) (\<lambda>copied.
         if copied = -1 then
           c_bind (c_lib (sys_close fd)) (\<lambda>_. c_return EXIT_IO)
         else
           c_bind (s64 (bytes_corrupted + copied)) (\<lambda>b.
           c_bind (s64 (chunks_corrupted + 1)) (\<lambda>n. c_val (b, n))))
       else c_val (bytes_corrupted, chunks_corrupted)))))))"

definition corrupt_copy :: "opts_t \<Rightarrow> int \<Rightarrow> int \<Rightarrow> int \<Rightarrow> (os, int) prog" where
  "corrupt_copy opts fd file_size count =
     c_call
       (c_bind (for_chunks opts count (copy_body opts fd file_size) (0, 0))
         (\<lambda>(bytes_corrupted, chunks_corrupted).
           c_bind (c_modify (lib_puts (''Corrupted '' @ show_int chunks_corrupted @ '' chunks ('' @
             show_int bytes_corrupted @ '' bytes)''))) (\<lambda>_.
           c_val EXIT_OK)))"

section \<open>What it does to the file\<close>

text \<open>The selected positions of the chunks before chunk \<open>c\<close>.\<close>

definition selected_before :: "opts_t \<Rightarrow> int \<Rightarrow> int \<Rightarrow> nat set" where
  "selected_before opts fs c = {i. \<exists>d. selected opts d \<and> d < c \<and> d < n_chunks opts fs \<and> i \<in> chunk_bytes opts fs d}"

lemma selected_before_subset: "selected_before opts fs c \<subseteq> selected_bytes opts fs"
  by (auto simp: selected_before_def selected_bytes_def)

lemma selected_before_mono: "c \<le> d \<Longrightarrow> selected_before opts fs c \<subseteq> selected_before opts fs d"
  by (auto simp: selected_before_def)

text \<open>
  Chunk \<open>d\<close> holds \<open>n\<close> bytes of the original chunk \<open>e\<close> and its own bytes after them.
\<close>

definition holds_copy :: "opts_t \<Rightarrow> int \<Rightarrow> byte list \<Rightarrow> byte list \<Rightarrow> int \<Rightarrow> int \<Rightarrow> nat \<Rightarrow> bool" where
  "holds_copy opts fs bs bs' d e n \<longleftrightarrow>
     (let s = nat (chunk_start opts d); len = nat (chunk_end opts fs d) - s in
      n \<le> len \<and>
      read_at bs' s n = read_at bs (nat (chunk_start opts e)) n \<and>
      read_at bs' (s + n) (len - n) = read_at bs (s + n) (len - n))"

text \<open>
  A chunk is passed over only when the draw can exceed the probability, or when there is no
  second chunk to copy from.
\<close>

definition passable :: "opts_t \<Rightarrow> int \<Rightarrow> bool" where
  "passable opts fs \<longleftrightarrow> d_less (o_probability opts) (Fin 1) \<or> n_chunks opts fs < 2"

lemma passable_draw:
  assumes "d_less (o_probability opts) (Fin (of_int (lcg_step x) / 2 ^ 48))"
  shows "passable opts fs"
proof -
  have "lcg_step x < 2 ^ 48" by (simp add: lcg_step_def)
  then have "(of_int (lcg_step x) :: rat) < of_int (2 ^ 48)" by (simp only: of_int_less_iff)
  then have "of_int (lcg_step x) / 2 ^ 48 < (1 :: rat)" by simp
  with assms show ?thesis
    unfolding passable_def by (cases "o_probability opts") (auto intro: less_trans)
qed

text \<open>A selected chunk after the mode: a copy, or untouched where it could be passed over.\<close>

definition copied_chunk :: "opts_t \<Rightarrow> int \<Rightarrow> byte list \<Rightarrow> byte list \<Rightarrow> int \<Rightarrow> bool" where
  "copied_chunk opts fs bs bs' d \<longleftrightarrow>
     passable opts fs \<and> (\<forall>i \<in> chunk_bytes opts fs d. bs' ! i = bs ! i) \<or>
     (\<exists>e n. 0 \<le> e \<and> e < n_chunks opts fs \<and> \<not> selected opts e \<and> 0 < n \<and> holds_copy opts fs bs bs' d e n)"

text \<open>Positions of one chunk are not positions of another, even past its clipped end.\<close>

lemma chunk_bytes_other:
  assumes ok: "opts_ok opts" "offs_ok fs" and d: "0 \<le> d" and e: "0 \<le> e" and "d \<noteq> e"
    and m: "int m \<le> o_chunk_size opts"
  shows "chunk_bytes opts fs d \<inter> {nat (chunk_start opts e) ..< nat (chunk_start opts e) + m} = {}"
proof -
  have "0 \<le> chunk_start opts e"
    using e opts_okD [OF ok(1)] by (simp add: chunk_start_def)
  then show ?thesis
    using assms chunk_start_strict_mono [OF ok(1), of d e] chunk_start_strict_mono [OF ok(1), of e d]
    by (cases d e rule: linorder_cases) (auto simp: chunk_bytes_def chunk_end_def)
qed

lemma chunk_bytes_interval:
  assumes "0 \<le> chunk_start opts d" and "chunk_start opts d \<le> chunk_end opts fs d"
  shows "chunk_bytes opts fs d = {nat (chunk_start opts d) ..< nat (chunk_end opts fs d)}"
  using assms by (auto simp: chunk_bytes_def)

lemma selected_before_other:
  assumes "opts_ok opts" "offs_ok fs" and "0 \<le> e" and "\<not> selected opts e \<or> c \<le> e"
    and "int m \<le> o_chunk_size opts"
  shows "selected_before opts fs c \<inter> {nat (chunk_start opts e) ..< nat (chunk_start opts e) + m} = {}"
proof -
  have "chunk_bytes opts fs d \<inter> {nat (chunk_start opts e) ..< nat (chunk_start opts e) + m} = {}"
    if d: "selected opts d" "d < c" for d
  proof (rule chunk_bytes_other [OF assms(1,2) _ assms(3) _ assms(5)])
    show "0 \<le> d"
      using d(1) by (auto simp: selected_def intro: order_trans [OF uint_ge_0])
    show "d \<noteq> e" using d assms(4) by auto
  qed
  then show ?thesis by (auto simp: selected_before_def disjoint_iff)
qed

lemma copied_chunk_cong:
  assumes ok: "opts_ok opts" "offs_ok fs" and d: "selected opts d" "d < n_chunks opts fs"
    and agree: "agree_off S bs' bs''" and S: "S \<inter> chunk_bytes opts fs d = {}"
    and len: "int (length bs') = fs" and copied: "copied_chunk opts fs bs bs' d"
  shows "copied_chunk opts fs bs bs'' d"
proof -
  note f = chunk_facts [OF ok d]
  let ?s = "nat (chunk_start opts d)" and ?e = "nat (chunk_end opts fs d)"
  have cb: "chunk_bytes opts fs d = {?s ..< ?e}"
    using f by (intro chunk_bytes_interval) auto
  have same: "read_at bs'' off n = read_at bs' off n" if "?s \<le> off" "off + n \<le> ?e" for off n
    using S that by (intro agree_off_read_at [OF agree, symmetric]) (auto simp: cb)
  have "bs'' ! i = bs' ! i" if i: "i \<in> chunk_bytes opts fs d" for i
  proof -
    have "i \<notin> S" and "i < length bs'"
      using i S f len by (auto simp: cb)
    with agree show ?thesis by (simp add: agree_off_def)
  qed
  moreover have "holds_copy opts fs bs bs' d e n \<Longrightarrow> holds_copy opts fs bs bs'' d e n" for e n
    using same [of ?s n] same [of "?s + n" "?e - ?s - n"] f(4) by (auto simp: holds_copy_def Let_def)
  ultimately show ?thesis
    using copied unfolding copied_chunk_def by metis
qed

text \<open>The copy of \<open>m\<close> bytes of chunk \<open>e\<close> over chunk \<open>d\<close>.\<close>

definition copy_over :: "opts_t \<Rightarrow> int \<Rightarrow> int \<Rightarrow> nat \<Rightarrow> byte list \<Rightarrow> byte list" where
  "copy_over opts d e m bs =
     write_at bs (nat (chunk_start opts d)) (read_at bs (nat (chunk_start opts e)) m)"

lemma copy_over_agree:
  assumes ok: "opts_ok opts" "offs_ok fs" and d: "selected opts d" "d < n_chunks opts fs"
    and len: "int (length bs) = fs" and m: "int m \<le> chunk_end opts fs d - chunk_start opts d"
  shows "agree_off (chunk_bytes opts fs d) bs (copy_over opts d e m bs)"
  unfolding copy_over_def
proof (rule agree_off_write_at)
  note f = chunk_facts [OF ok d]
  show "nat (chunk_start opts d) + length (read_at bs (nat (chunk_start opts e)) m) \<le> length bs"
    using f len m by auto
  show "{nat (chunk_start opts d) ..< nat (chunk_start opts d) + length (read_at bs (nat (chunk_start opts e)) m)}
      \<subseteq> chunk_bytes opts fs d"
    using f m by (auto simp: chunk_bytes_interval)
qed

lemma copy_over_holds:
  assumes ok: "opts_ok opts" "offs_ok fs" and d: "selected opts d" "d < n_chunks opts fs"
    and e: "0 \<le> e" "\<not> selected opts e"
    and len: "int (length bs) = fs"
    and agree: "agree_off (selected_before opts fs d) bs bs'"
    and m: "int m \<le> chunk_end opts fs d - chunk_start opts d" "m \<le> length bs - nat (chunk_start opts e)"
  shows "holds_copy opts fs bs (copy_over opts d e m bs') d e m"
proof -
  note f = chunk_facts [OF ok d]
  let ?s = "nat (chunk_start opts d)" and ?t = "nat (chunk_start opts e)"
  let ?len = "nat (chunk_end opts fs d) - ?s"
  have len': "length bs' = length bs" using agree by (simp add: agree_off_def)
  have mlen: "m \<le> ?len" and fits: "?s + ?len \<le> length bs"
    using m(1) f len by auto
  have mc: "int m \<le> o_chunk_size opts" and lc: "int ?len \<le> o_chunk_size opts"
    using m(1) f by auto
  have src: "read_at bs ?t m = read_at bs' ?t m"
    using agree_off_read_at [OF agree] selected_before_other [OF ok e(1) _ mc] e(2) by blast
  have "selected_before opts fs d \<inter> {?s ..< ?s + ?len} = {}"
    using selected_before_other [OF ok f(1) _ lc] by blast
  then have own: "read_at bs (?s + m) (?len - m) = read_at bs' (?s + m) (?len - m)"
    using mlen by (intro agree_off_read_at [OF agree]) (auto simp: disjoint_iff)
  have l: "length (read_at bs' ?t m) = m"
    using m(2) len' by simp
  then have "read_at (copy_over opts d e m bs') ?s m = read_at bs' ?t m"
    using read_at_write_at [of ?s "read_at bs' ?t m" bs'] mlen fits len' by (simp add: copy_over_def)
  moreover have "read_at (copy_over opts d e m bs') (?s + m) (?len - m) = read_at bs' (?s + m) (?len - m)"
    using l mlen fits len' unfolding copy_over_def by (intro read_at_write_at_other) auto
  ultimately show ?thesis
    using src own mlen by (simp add: holds_copy_def Let_def)
qed

section \<open>The copy mode as a state machine\<close>

text \<open>
  The abstract machine: its state is the number of the next chunk, the statistics and the
  contents of the file.  A step passes over the chunk, where that is possible, or overwrites
  a beginning of it, of at least one byte, with as many bytes of an acceptable source chunk.
\<close>

inductive copy_steps :: "opts_t \<Rightarrow> int \<Rightarrow> byte list \<Rightarrow> int \<Rightarrow> int \<times> int \<Rightarrow> byte list \<Rightarrow> bool"
  for opts fs bs0 where
  start: "copy_steps opts fs bs0 (uint (o_index opts)) (0, 0) bs0"
| pass: "copy_steps opts fs bs0 c s bs \<Longrightarrow> c < n_chunks opts fs \<Longrightarrow> passable opts fs \<Longrightarrow>
    copy_steps opts fs bs0 (c + uint (o_mod opts)) s bs"
| transfer: "copy_steps opts fs bs0 c (b, n) bs \<Longrightarrow> c < n_chunks opts fs \<Longrightarrow>
    source_ok opts fs (chunk_start opts c) e \<Longrightarrow> 0 < m \<Longrightarrow> int m \<le> chunk_end opts fs c - chunk_start opts c \<Longrightarrow>
    m \<le> length bs - nat (chunk_start opts e) \<Longrightarrow>
    copy_steps opts fs bs0 (c + uint (o_mod opts)) (b + int m, n + 1) (copy_over opts c e m bs)"

inductive_cases copy_steps_Pair: "copy_steps opts fs bs0 c (b, n) bs"

text \<open>
  The invariant of the machine: the contents agree with the original outside the selected
  chunks below \<open>c\<close>, which hold copies, and the statistics stay below what the chunk
  numbers allow.
\<close>

definition copy_ok :: "opts_t \<Rightarrow> int \<Rightarrow> byte list \<Rightarrow> int \<Rightarrow> int \<times> int \<Rightarrow> byte list \<Rightarrow> bool" where
  "copy_ok opts fs bs0 c s bs \<longleftrightarrow>
     selected opts c \<and> agree_off (selected_before opts fs c) bs0 bs \<and>
     (o_mod opts \<noteq> 1 \<longrightarrow> (\<forall>d. selected opts d \<and> d < c \<and> d < n_chunks opts fs \<longrightarrow> copied_chunk opts fs bs0 bs d)) \<and>
     stats_ok opts c (fst s) (snd s)"

text \<open>Passing over the current chunk.\<close>

lemma selected_before_step:
  assumes "selected opts c" and "c < n_chunks opts fs" and "0 < uint (o_mod opts)"
  shows "selected_before opts fs (c + uint (o_mod opts)) = selected_before opts fs c \<union> chunk_bytes opts fs c"
proof -
  have "selected opts d \<and> d < c + uint (o_mod opts) \<longleftrightarrow> selected opts d \<and> (d < c \<or> d = c)" for d
    using selected_before_next [OF _ assms(1), of d] assms(3) by auto
  with assms(1,2) show ?thesis by (auto simp: selected_before_def)
qed

lemma copy_ok_pass:
  assumes ok: "opts_ok opts" "offs_ok fs" and len: "int (length bs0) = fs"
    and inv: "copy_ok opts fs bs0 c s bs" and c: "c < n_chunks opts fs" and pass: "passable opts fs"
  shows "copy_ok opts fs bs0 (c + uint (o_mod opts)) s bs"
proof -
  let ?m = "uint (o_mod opts)"
  have sel: "selected opts c" and agree: "agree_off (selected_before opts fs c) bs0 bs"
    using inv by (simp_all add: copy_ok_def)
  have m: "0 < ?m" using opts_okD(6) [OF ok(1)] by (auto intro: le_less_trans [OF uint_ge_0])
  note f = chunk_facts [OF ok sel c]
  have "agree_off (selected_before opts fs (c + ?m)) bs0 bs"
    using agree selected_before_mono [of c "c + ?m" opts fs] m by (auto intro: agree_off_mono)
  moreover have "copied_chunk opts fs bs0 bs d"
    if "o_mod opts \<noteq> 1" "selected opts d" "d < c + ?m" "d < n_chunks opts fs" for d
  proof (cases "d < c")
    case False
    then have "d = c" using selected_before_next [OF that(2) sel that(3)] by simp
    have "selected_before opts fs c \<inter> chunk_bytes opts fs c = {}"
      using selected_before_other [OF ok f(1), of c "nat (chunk_end opts fs c) - nat (chunk_start opts c)"] f
      by (subst chunk_bytes_interval) auto
    then have "bs ! k = bs0 ! k" if k: "k \<in> chunk_bytes opts fs c" for k
    proof -
      have "k < length bs0" using k f len by (simp add: chunk_bytes_def)
      moreover have "k \<notin> selected_before opts fs c"
        using k \<open>selected_before opts fs c \<inter> chunk_bytes opts fs c = {}\<close> by blast
      ultimately show ?thesis using agree by (simp add: agree_off_def)
    qed
    with \<open>d = c\<close> pass show ?thesis by (simp add: copied_chunk_def)
  qed (use that inv in \<open>auto simp: copy_ok_def\<close>)
  ultimately show ?thesis
    using inv selected_step [OF sel] stats_ok_skip [OF ok(1)] by (simp add: copy_ok_def)
qed

text \<open>One transfer into the current chunk.\<close>

lemma copy_ok_transfer:
  assumes ok: "opts_ok opts" "offs_ok fs" and len: "int (length bs0) = fs"
    and inv: "copy_ok opts fs bs0 c (b, n) bs" and c: "c < n_chunks opts fs"
    and src: "source_ok opts fs (chunk_start opts c) e"
    and m: "int m \<le> chunk_end opts fs c - chunk_start opts c" "m \<le> length bs - nat (chunk_start opts e)" "0 < m"
  shows "copy_ok opts fs bs0 (c + uint (o_mod opts)) (b + int m, n + 1) (copy_over opts c e m bs)"
proof -
  let ?m = "uint (o_mod opts)" and ?bs' = "copy_over opts c e m bs"
  have sel: "selected opts c" and agree: "agree_off (selected_before opts fs c) bs0 bs"
    using inv by (simp_all add: copy_ok_def)
  have len': "length bs = length bs0" using agree by (simp add: agree_off_def)
  have m0: "0 < ?m" using opts_okD(6) [OF ok(1)] by (auto intro: le_less_trans [OF uint_ge_0])
  note f = chunk_facts [OF ok sel c]
  have step: "agree_off (chunk_bytes opts fs c) bs ?bs'"
    using copy_over_agree [OF ok sel c _ m(1)] len len' by simp
  then have "agree_off (selected_before opts fs (c + ?m)) bs0 ?bs'"
    unfolding selected_before_step [OF sel c m0]
    using agree by (meson agree_off_mono agree_off_trans sup_ge1 sup_ge2)
  moreover have "copied_chunk opts fs bs0 ?bs' d"
    if "o_mod opts \<noteq> 1" "selected opts d" "d < c + ?m" "d < n_chunks opts fs" for d
  proof (cases "d < c")
    case True
    then have "copied_chunk opts fs bs0 bs d" using inv that by (simp add: copy_ok_def)
    moreover have "chunk_bytes opts fs c \<inter> chunk_bytes opts fs d = {}"
      using chunk_bytes_disjoint [OF ok(1), of c d] True by simp
    ultimately show ?thesis using copied_chunk_cong [OF ok that(2,4) step] len len' by simp
  next
    case False
    then have "d = c" using selected_before_next [OF that(2) sel that(3)] by simp
    have e: "0 \<le> e" "e < n_chunks opts fs" "\<not> selected opts e"
      using src that(1) by (auto simp: source_ok_def)
    have "holds_copy opts fs bs0 ?bs' c e m"
      using copy_over_holds [OF ok sel c e(1,3) len agree m(1)] m(2) len' by simp
    with e m(3) show ?thesis unfolding \<open>d = c\<close> copied_chunk_def by blast
  qed
  moreover have "stats_ok opts (c + ?m) (b + int m) (n + 1)"
    using inv m(1) f(7) by (intro stats_ok_add [OF ok(1)]) (auto simp: copy_ok_def)
  ultimately show ?thesis using selected_step [OF sel] by (simp add: copy_ok_def)
qed

lemma copy_steps_ok:
  assumes ok: "opts_ok opts" "offs_ok fs" and len: "int (length bs0) = fs" and steps: "copy_steps opts fs bs0 c s bs"
  shows "copy_ok opts fs bs0 c s bs"
  using steps
proof (induction rule: copy_steps.induct)
  case start
  have "selected opts (uint (o_index opts))" "\<And>d. \<not> (selected opts d \<and> d < uint (o_index opts))"
    by (simp_all add: selected_def)
  then show ?case using stats_ok_init [OF ok(1)] by (auto simp: copy_ok_def)
next
  case (pass c s bs)
  then show ?case by (intro copy_ok_pass [OF ok len])
next
  case (transfer c b n bs e m)
  then show ?case by (intro copy_ok_transfer [OF ok len])
qed

section \<open>The loop\<close>

text \<open>Before chunk \<open>c\<close> the program is where the machine is; an I/O error stops it there.\<close>

definition copy_inv :: "bool \<Rightarrow> opts_t \<Rightarrow> int \<Rightarrow> int \<Rightarrow> nat \<Rightarrow> os \<Rightarrow> int \<Rightarrow> int \<times> int \<Rightarrow> os \<Rightarrow> bool" where
  "copy_inv u opts fd fs i wi c s w \<longleftrightarrow>
     opts_ok opts \<and> offs_ok fs \<and> (u \<or> roomy opts fs) \<and> int (length (inodes wi i)) = fs \<and>
     (\<exists>pos. fd_reg wi fd i True True pos) \<and> touches i wi w \<and> fds w = fds wi \<and> printed w = printed wi \<and>
     copy_steps opts fs (inodes wi i) c s (inodes w i)"

definition copy_bail :: "opts_t \<Rightarrow> int \<Rightarrow> int \<Rightarrow> nat \<Rightarrow> os \<Rightarrow> int \<Rightarrow> os \<Rightarrow> bool" where
  "copy_bail opts fd fs i wi v w \<longleftrightarrow>
     v = EXIT_IO \<and> touches i wi w \<and> printed w = printed wi \<and>
     (\<exists>c s. copy_steps opts fs (inodes wi i) c s (inodes w i)) \<and>
     fd_get (fds w) = (fd_get (fds wi))(fd := None)"

lemma copy_invD:
  assumes "copy_inv u opts fd fs i wi c s w"
  shows "opts_ok opts" "offs_ok fs" "u \<or> roomy opts fs" "int (length (inodes wi i)) = fs"
    "touches i wi w" "fds w = fds wi" "copy_ok opts fs (inodes wi i) c s (inodes w i)"
    "int (length (inodes w i)) = fs"
proof -
  show a: "opts_ok opts" "offs_ok fs" "u \<or> roomy opts fs" "int (length (inodes wi i)) = fs"
    "touches i wi w" "fds w = fds wi" using assms by (simp_all add: copy_inv_def)
  show ok: "copy_ok opts fs (inodes wi i) c s (inodes w i)"
    using copy_steps_ok [OF a(1,2,4)] assms by (simp add: copy_inv_def)
  then show "int (length (inodes w i)) = fs" using a(4) by (simp add: copy_ok_def agree_off_def)
qed

lemma copy_inv_redrawn:
  "copy_inv u opts fd fs i wi c s w \<Longrightarrow> redrawn w w' \<Longrightarrow> copy_inv u opts fd fs i wi c s w'"
  by (simp add: copy_inv_def redrawn_frame touches_def)

lemma copy_inv_pass:
  "copy_inv u opts fd fs i wi c s w \<Longrightarrow> c < n_chunks opts fs \<Longrightarrow> passable opts fs \<Longrightarrow>
    copy_inv u opts fd fs i wi (c + uint (o_mod opts)) s w"
  by (simp add: copy_inv_def copy_steps.pass)

lemma copy_inv_transfer:
  assumes "copy_inv u opts fd fs i wi c (b, n) w" and "c < n_chunks opts fs"
    and "source_ok opts fs (chunk_start opts c) e"
    and "0 < m" "int m \<le> chunk_end opts fs c - chunk_start opts c" "m \<le> length (inodes w i) - nat (chunk_start opts e)"
  shows "copy_inv u opts fd fs i wi (c + uint (o_mod opts)) (b + int m, n + 1)
    (cfr_transfer i (nat (chunk_start opts e)) i (nat (chunk_start opts c)) m (pop_fault w))"
  using assms copy_steps.transfer [of opts fs "inodes wi i" c b n "inodes w i" e m]
  by (simp add: copy_inv_def copy_over_def)

lemma sys_close_frame:
  "sys_close fd w = (r, w') \<Longrightarrow> touches i w w' \<and> inodes w' = inodes w \<and> printed w' = printed w \<and>
     fd_get (fds w') = (fd_get (fds w))(fd := None)"
  by (auto simp: sys_close_def Let_def fdt.get_free fun_upd_idem split: option.splits fault.splits)

lemma copy_transfer_wp:
  assumes inv: "copy_inv u opts fd fs i wi c (b, n) w" and sel: "selected opts c" "c < n_chunks opts fs"
    and src: "source_ok opts fs (chunk_start opts c) e"
  shows "wp u (c_bind (c_lib (sys_cfr fd (Some (chunk_start opts e)) fd (Some (chunk_start opts c))
        (chunk_end opts fs c - chunk_start opts c))) (\<lambda>copied.
      if copied = -1 then c_bind (c_lib (sys_close fd)) (\<lambda>_. c_return EXIT_IO)
      else c_bind (s64 (b + copied)) (\<lambda>b. c_bind (s64 (n + 1)) (\<lambda>n. c_val (b, n)))))
    (copy_inv u opts fd fs i wi (c + uint (o_mod opts))) (copy_bail opts fd fs i wi) (\<lambda>_ _. False) w"
proof -
  note iv = copy_invD [OF inv]
  note ok = iv(1,2) and t = iv(5,6) and len' = iv(8)
  have st: "stats_ok opts c b n" and bail: "\<exists>c s. copy_steps opts fs (inodes wi i) c s (inodes w i)" "printed w = printed wi"
    using iv(7) inv by (auto simp: copy_ok_def copy_inv_def)
  obtain pos where "fd_reg wi fd i True True pos" using inv by (auto simp: copy_inv_def)
  then have fd: "fd_reg w fd i True True pos" using t(2) by (simp add: fd_reg_def)
  note f = chunk_facts [OF ok sel]
  have e: "0 \<le> e" "e < n_chunks opts fs" "e \<noteq> c"
    using src sel by (auto simp: source_ok_def split: if_splits)
  have fe: "0 \<le> chunk_start opts e" "chunk_start opts e < fs"
    using less_n_chunks_iff [OF ok(1) e(1), of fs] e opts_okD [OF ok(1)] f(6)
    by (auto simp: chunk_start_def)
  let ?a = "nat (chunk_start opts e)" and ?b = "nat (chunk_start opts c)"
  let ?len = "chunk_end opts fs c - chunk_start opts c"
  have cnt: "int (cfr_count w i ?a ?len) \<le> ?len" "cfr_count w i ?a ?len \<le> length (inodes w i) - ?a"
    using f ok(2) by (auto simp: cfr_count_def offs_ok_def min_def)
  have pos: "0 < cfr_count w i ?a ?len"
    using f fe(2) ok(2) len' by (auto simp: cfr_count_def offs_ok_def min_def)
  have apart: "\<not> overlaps ?a ?b (cfr_count w i ?a ?len)"
    using cnt(1) f(2,7) fe(1) e(3) chunk_start_strict_mono [OF ok(1), of e c]
      chunk_start_strict_mono [OF ok(1), of c e]
    by (cases e c rule: linorder_cases) (auto simp: overlaps_def)
  show ?thesis
  proof (rule sys_cfr_cases [of w fd i True pos fd i True pos ?len "Some (chunk_start opts e)" ?a
        "Some (chunk_start opts c)" ?b, OF fd fd])
    fix r assume "sys_cfr fd (Some (chunk_start opts e)) fd (Some (chunk_start opts c)) ?len w =
        (-1, (pop_fault w)\<lparr>errno_of := r\<rparr>)"
    then show ?thesis
      using t bail
      by (auto simp: wp_lib copy_bail_def split: prod.splits dest!: sys_close_frame [where i = i] intro: touches_trans) blast
  next
    fix m t' assume r: "sys_cfr fd (Some (chunk_start opts e)) fd (Some (chunk_start opts c)) ?len w =
        (int m, (cfr_transfer i ?a i ?b m (pop_fault w))\<lparr>fds := t'\<rparr>)"
      and m: "m \<le> cfr_count w i ?a ?len" and "0 < cfr_count w i ?a ?len \<Longrightarrow> 0 < m"
      and "Some (chunk_start opts e) \<noteq> None \<Longrightarrow> Some (chunk_start opts c) \<noteq> None \<Longrightarrow> t' = fds w"
    with pos have t': "t' = fds w" and m0: "0 < m" by simp_all
    have w': "(cfr_transfer i ?a i ?b m (pop_fault w))\<lparr>fds := fds w\<rparr> = cfr_transfer i ?a i ?b m (pop_fault w)"
      by (simp add: cfr_transfer_def)
    have "copy_inv u opts fd fs i wi (c + uint (o_mod opts)) (b + int m, n + 1)
        (cfr_transfer i ?a i ?b m (pop_fault w))"
      using copy_inv_transfer [OF inv sel(2) src m0] m cnt by simp
    moreover have "u \<or> in_s64 (b + int m) \<and> in_s64 (n + 1)"
      using m cnt(1) f(7) by (intro stats_fit [OF ok iv(3) sel st]) auto
    ultimately show ?thesis
      by (auto simp: wp_lib r t' w')
  qed (use f fe ok apart in \<open>auto simp: pos_of_def offs_ok_def\<close>)
qed

lemma copy_body_keeps:
  assumes inv: "copy_inv u opts fd fs i wi c s w" and sel: "selected opts c" "c < n_chunks opts fs"
  shows "wp u (copy_body opts fd fs c s) (copy_inv u opts fd fs i wi (c + uint (o_mod opts)))
    (copy_bail opts fd fs i wi) (\<lambda>_ _. False) w"
proof -
  obtain b n where s: "s = (b, n)" by force
  have ok: "opts_ok opts" "offs_ok fs" and room: "u \<or> roomy opts fs"
    using inv by (simp_all add: copy_inv_def)
  note f = chunk_facts [OF ok sel]
  let ?w = "w\<lparr>rand_st := lcg_step (rand_st w)\<rparr>"
  have inv1: "copy_inv u opts fd fs i wi c (b, n) ?w"
    using copy_inv_redrawn [OF inv] s by simp
  have "wp u (rand_source_offset opts (chunk_start opts c) fs)
      (\<lambda>source. wp u (if 0 \<le> source then
         c_bind (c_lib (sys_cfr fd (Some source) fd (Some (chunk_start opts c))
            (chunk_end opts fs c - chunk_start opts c))) (\<lambda>copied.
          if copied = -1 then c_bind (c_lib (sys_close fd)) (\<lambda>_. c_return EXIT_IO)
          else c_bind (s64 (b + copied)) (\<lambda>b. c_bind (s64 (n + 1)) (\<lambda>n. c_val (b, n))))
         else c_val (b, n))
       (copy_inv u opts fd fs i wi (c + uint (o_mod opts))) (copy_bail opts fd fs i wi) (\<lambda>_ _. False))
      (copy_bail opts fd fs i wi) (\<lambda>_ _. False) ?w" (is "wp u _ ?Q _ _ _")
  proof (cases "n_chunks opts fs < 2")
    case True
    then show ?thesis
      using copy_inv_pass [OF inv1 sel(2)] by (simp add: wp_no_source [OF ok] passable_def)
  next
    case False
    show ?thesis
    proof (rule wp_rand_source_offset [OF ok])
      fix e w' assume src: "source_ok opts fs (chunk_start opts c) e" and "redrawn ?w w'"
      then have "copy_inv u opts fd fs i wi c (b, n) w'"
        using copy_inv_redrawn [OF inv1] by blast
      moreover have "0 \<le> chunk_start opts e"
        using src opts_okD [OF ok(1)] by (simp add: source_ok_def chunk_start_def)
      ultimately show "?Q (chunk_start opts e) w'"
        using copy_transfer_wp [OF _ sel src] by (simp del: wp_bind)
    qed (use False in simp)
  qed
  moreover note chunk_sum_fits [OF ok room sel]
  moreover have "in_s64 (chunk_end opts fs c - chunk_start opts c)"
    using f ok(2) by (simp add: in_s64_def offs_ok_def)
  moreover note copy_inv_pass [OF inv1 sel(2) passable_draw]
  ultimately show ?thesis
    unfolding s copy_body_def
    by (auto simp: wp_lib lib_drand48_def Let_def wp_chunk_offset [OF ok(1) f(1) sel(2) ok(2)] cong: if_cong)
qed

interpretation copy_mode: chunk_mode u opts "n_chunks opts fs" "copy_body opts fd fs"
    "copy_inv u opts fd fs i wi" "copy_bail opts fd fs i wi" for u opts fd fs i wi
proof unfold_locales
  fix c s w assume inv: "copy_inv u opts fd fs i wi c s w"
  then have "opts_ok opts" and "offs_ok fs" and "u \<or> roomy opts fs"
    by (simp_all add: copy_inv_def)
  then show "opts_ok opts \<and> (u \<or> n_chunks opts fs + 2 ^ 32 \<le> LLONG_MAX)"
    using n_chunks_bound [of opts fs] by (auto simp: roomy_def offs_ok_def)
qed (rule copy_body_keeps)

text \<open>What holds after the mode: the return value tells success from an I/O error.\<close>

definition copy_report :: "int \<Rightarrow> int \<Rightarrow> string" where
  "copy_report n b = ''Corrupted '' @ show_int n @ '' chunks ('' @ show_int b @ '' bytes)''"

definition copy_post :: "opts_t \<Rightarrow> int \<Rightarrow> int \<Rightarrow> nat \<Rightarrow> os \<Rightarrow> int \<Rightarrow> os \<Rightarrow> bool" where
  "copy_post opts fd fs i wi v w \<longleftrightarrow>
     touches i wi w \<and>
     (v = EXIT_OK \<and> fds w = fds wi \<and>
        (\<exists>c b n. n_chunks opts fs \<le> c \<and> copy_steps opts fs (inodes wi i) c (b, n) (inodes w i) \<and>
           printed w = printed wi @ [copy_report n b]) \<or>
      v = EXIT_IO \<and> fd_get (fds w) = (fd_get (fds wi))(fd := None) \<and> printed w = printed wi \<and>
        (\<exists>c s. copy_steps opts fs (inodes wi i) c s (inodes w i)))"

lemma copy_post_agree:
  assumes "opts_ok opts" and "offs_ok fs" and "int (length (inodes wi i)) = fs" and "copy_post opts fd fs i wi v w"
  shows "agree_off (selected_bytes opts fs) (inodes wi i) (inodes w i)"
proof -
  obtain c s where "copy_steps opts fs (inodes wi i) c s (inodes w i)" using assms(4) by (auto simp: copy_post_def)
  from copy_steps_ok [OF assms(1-3) this] show ?thesis
    by (auto simp: copy_ok_def intro: agree_off_mono [OF _ selected_before_subset])
qed

lemma wp_corrupt_copy:
  assumes "opts_ok opts" and "offs_ok fs" and "u \<or> roomy opts fs"
    and "fd_reg w fd i True True pos" and "int (length (inodes w i)) = fs"
  shows "wp u (corrupt_copy opts fd fs (n_chunks opts fs)) (copy_post opts fd fs i w) R (\<lambda>_ _. False) w"
proof -
  have init: "copy_inv u opts fd fs i w (uint (o_index opts)) (0, 0) w"
    using assms copy_steps.start by (auto simp: copy_inv_def)
  have "wp u (for_chunks opts (n_chunks opts fs) (copy_body opts fd fs) (0, 0))
      (\<lambda>(b, n). wp u (c_bind (c_modify (lib_puts (''Corrupted '' @ show_int n @ '' chunks ('' @
             show_int b @ '' bytes)''))) (\<lambda>_. c_val EXIT_OK)) (copy_post opts fd fs i w) (copy_post opts fd fs i w) (\<lambda>_ _. False))
      (copy_bail opts fd fs i w) (\<lambda>_ _. False) w"
  proof (rule copy_mode.wp_loop [OF init])
    fix c s w'
    assume inv: "copy_inv u opts fd fs i w c s w'" and "n_chunks opts fs \<le> c"
    then show "(case s of (b, n) \<Rightarrow> wp u (c_bind (c_modify (lib_puts (''Corrupted '' @ show_int n @ '' chunks ('' @
             show_int b @ '' bytes)''))) (\<lambda>_. c_val EXIT_OK)) (copy_post opts fd fs i w) (copy_post opts fd fs i w) (\<lambda>_ _. False)) w'"
      by (auto simp: copy_post_def copy_inv_def copy_report_def lib_puts_def split: prod.splits)
  qed
  then show ?thesis
    unfolding corrupt_copy_def
    by (auto simp: split_def copy_bail_def copy_post_def elim!: wp_mono)
qed

section \<open>Properties\<close>

text \<open>C1: The copy mode on an open file of the given size, with validated options that leave room
  for one more chunk: for every fault plan and every state of the random number generator it
  ends without undefined behaviour; only bytes of selected chunks change and the length is kept,
  as are all other files and names.  On success the descriptors are unchanged and, with a modulus
  other than one, each selected chunk starts with a run of at least one original byte of an unselected
  chunk and keeps its own bytes after them; a chunk can keep all its bytes only when the probability
  is below one or the region has fewer than two chunks.  On an I/O error the descriptor is closed.\<close>

theorem corrupt_copy_correct:
  assumes "opts_ok opts" and "roomy opts fs" and "fd_reg w fd i True True pos"
    and "fs = int (length (inodes w i))"
  shows "\<exists>v w'. corrupt_copy opts fd fs (n_chunks opts fs) w = Val v w' \<and>
    touches i w w' \<and> agree_off (selected_bytes opts fs) (inodes w i) (inodes w' i) \<and>
    (v = EXIT_OK \<and> fds w' = fds w \<and>
       (o_mod opts \<noteq> 1 \<longrightarrow> (\<forall>d. selected opts d \<and> d < n_chunks opts fs \<longrightarrow>
          copied_chunk opts fs (inodes w i) (inodes w' i) d)) \<or>
     v = EXIT_IO \<and> fd_get (fds w') = (fd_get (fds w))(fd := None))"
proof -
  have fs: "offs_ok fs"
    using assms(2,4) opts_okD(4) [OF assms(1)] by (simp add: offs_ok_def roomy_def)
  then have "wp False (corrupt_copy opts fd fs (n_chunks opts fs)) (copy_post opts fd fs i w) (\<lambda>_ _. False) (\<lambda>_ _. False) w"
    using assms by (intro wp_corrupt_copy) auto
  then obtain v w' where run: "corrupt_copy opts fd fs (n_chunks opts fs) w = Val v w'" and post: "copy_post opts fd fs i w v w'"
    by (rule wp_totalD)
  have "agree_off (selected_bytes opts fs) (inodes w i) (inodes w' i)"
    using copy_post_agree [OF assms(1) fs _ post] assms(4) by simp
  moreover have "copied_chunk opts fs (inodes w i) (inodes w' i) d"
    if "v = EXIT_OK" "o_mod opts \<noteq> 1" "selected opts d" "d < n_chunks opts fs" for d
  proof -
    have "v \<noteq> EXIT_IO" using that(1) by (simp add: exit_code_defs)
    then obtain c b n where "n_chunks opts fs \<le> c" "copy_steps opts fs (inodes w i) c (b, n) (inodes w' i)"
      using post by (auto simp: copy_post_def)
    with copy_steps_ok [OF assms(1) fs _ this(2)] assms(4) that show ?thesis by (simp add: copy_ok_def)
  qed
  ultimately show ?thesis using run post unfolding copy_post_def by blast
qed

text \<open>C10: Refinement.  The copy mode implements the abstract copying machine: for every fault plan and every state of the
  generator a successful run is a complete run of the machine over the selected chunks in order, each step
  of which copies at least one byte from an acceptable source chunk, or passes over its chunk when the
  probability is below one or there is no second chunk, and the statistics it prints are
  the machine's count of chunks and bytes; a failed run stopped at a state of the machine.\<close>

theorem copy_refines_machine:
  assumes "opts_ok opts" and "roomy opts fs" and "fd_reg w fd i True True pos"
    and "fs = int (length (inodes w i))"
  shows "\<exists>v w'. corrupt_copy opts fd fs (n_chunks opts fs) w = Val v w' \<and>
    (v = EXIT_OK \<and> (\<exists>c b n. n_chunks opts fs \<le> c \<and> copy_steps opts fs (inodes w i) c (b, n) (inodes w' i) \<and>
       printed w' = printed w @ [''Corrupted '' @ show_int n @ '' chunks ('' @ show_int b @ '' bytes)'']) \<or>
     v = EXIT_IO \<and> printed w' = printed w \<and> (\<exists>c s. copy_steps opts fs (inodes w i) c s (inodes w' i)))"
proof -
  have "offs_ok fs"
    using assms(2,4) opts_okD(4) [OF assms(1)] by (simp add: offs_ok_def roomy_def)
  then have "wp False (corrupt_copy opts fd fs (n_chunks opts fs)) (copy_post opts fd fs i w) (\<lambda>_ _. False) (\<lambda>_ _. False) w"
    using assms by (intro wp_corrupt_copy) auto
  then show ?thesis unfolding copy_post_def copy_report_def by (rule wp_totalD) metis
qed

definition sample_opts :: opts_t where
  "sample_opts = default_opts\<lparr>o_file := Str ''/f'', o_chunk_size := 2, o_mod := 2\<rparr>"

lemma sample_opts_ok [simp]: "opts_ok sample_opts" "roomy sample_opts 8" "n_chunks sample_opts 8 = 4"
  by (simp_all add: sample_opts_def default_opts_def opts_ok_def roomy_def OFF_MAX_def n_chunks_def region_end_def)

theorem corrupt_copy_correct_witness:
  "\<exists>v w'. corrupt_copy sample_opts 0 8 4 (sample_os [1, 2, 3, 4, 5, 6, 7, 8] [Some (new_ofd (Reg 0) O_RDWR)]) = Val v w' \<and>
     agree_off (selected_bytes sample_opts 8) [1, 2, 3, 4, 5, 6, 7, 8] (inodes w' 0)"
proof -
  let ?w = "sample_os [1, 2, 3, 4, 5, 6, 7, 8] [Some (new_ofd (Reg 0) O_RDWR)]"
  have "8 = int (length (inodes ?w 0))" by simp
  from corrupt_copy_correct [OF sample_opts_ok(1,2) sample_fd_reg this]
  show ?thesis unfolding sample_opts_ok sample_os_simps by blast
qed

theorem copy_refines_machine_witness:
  "\<exists>v w'. corrupt_copy sample_opts 0 8 4 (sample_os [1, 2, 3, 4, 5, 6, 7, 8] [Some (new_ofd (Reg 0) O_RDWR)]) = Val v w' \<and>
     (\<exists>c s. copy_steps sample_opts 8 [1, 2, 3, 4, 5, 6, 7, 8] c s (inodes w' 0))"
proof -
  let ?w = "sample_os [1, 2, 3, 4, 5, 6, 7, 8] [Some (new_ofd (Reg 0) O_RDWR)]"
  have "8 = int (length (inodes ?w 0))" by simp
  from copy_refines_machine [OF sample_opts_ok(1,2) sample_fd_reg this]
  show ?thesis unfolding sample_opts_ok sample_os_simps by blast
qed

end
