(* ===== verification/CF_Paths.thy ===== *)
theory CF_Paths
  imports CF_Chunks "HOL-Library.Sublist"
begin

text \<open>
  Where snapshots live: the C library's \<open>dirname\<close>, the recursive \<open>mkdir_p\<close> of
  \<open>corrupt-file.c\<close>, and the paths that \<open>snapshot_path\<close> builds.

  The lemmas show what \<open>mkdir_p\<close> can change and when it ends, compute its effect when no
  call fails, and resolve snapshot paths into their components: different chunks have
  different snapshots as long as the path is not cut off at \<open>PATH_MAX\<close>.
\<close>

section \<open>Directory names\<close>

definition rstrip :: "string \<Rightarrow> string" where
  "rstrip s = rev (dropWhile (\<lambda>c. c = CHR ''/'') (rev s))"

text \<open>
  The C library's \<open>dirname\<close>.  Exactly two slashes at the beginning are kept, as POSIX allows.
\<close>

definition dirname :: "string \<Rightarrow> string" where
  "dirname s =
     (let t = rstrip s;
          h = rev (dropWhile (\<lambda>c. c \<noteq> CHR ''/'') (rev t));
          d = rstrip h
      in if s = [] then ''.''
         else if t = [] then (if s = ''//'' then ''//'' else ''/'')
         else if h = [] then ''.''
         else if d = [] then (if h = ''//'' then ''//'' else ''/'')
         else d)"

section \<open>Creating the directory\<close>

text \<open>
  The recursion may not end; then the result is \<open>None\<close>.
\<close>

partial_function (option) mkdir_p :: "string \<Rightarrow> os \<Rightarrow> (int \<times> os) option" where
  "mkdir_p path w =
     (let parent = dirname path in
      Option.bind (if 1 < length parent then mkdir_p parent w else Some (0, w)) (\<lambda>(res, w1).
        if res \<noteq> 0 \<and> errno_of w1 \<noteq> EEXIST then Some (errno_num (errno_of w1), w1)
        else case sys_mkdir path w1 of (res, w2) \<Rightarrow>
          if res \<noteq> 0 \<and> errno_of w2 \<noteq> EEXIST then Some (errno_num (errno_of w2), w2)
          else Some (0, w2)))"

section \<open>What \<open>mkdir_p\<close> can change\<close>

text \<open>Names are only added, and only as directories.\<close>

definition adds_dirs :: "os \<Rightarrow> os \<Rightarrow> bool" where
  "adds_dirs w w' \<longleftrightarrow>
     inodes w' = inodes w \<and> fds w' = fds w \<and> next_ino w' = next_ino w \<and> cwd w' = cwd w \<and>
     rand_st w' = rand_st w \<and> printed w' = printed w \<and>
     (\<forall>p. nodes w' p = nodes w p \<or> nodes w p = None \<and> nodes w' p = Some Dir)"

lemma adds_dirs_refl [simp, intro]: "adds_dirs w w"
  by (simp add: adds_dirs_def)

lemma adds_dirs_trans: "adds_dirs w w1 \<Longrightarrow> adds_dirs w1 w2 \<Longrightarrow> adds_dirs w w2"
  by (simp add: adds_dirs_def) metis

lemma sys_mkdir_adds: "sys_mkdir s w = (r, w') \<Longrightarrow> adds_dirs w w'"
  by (auto simp: sys_mkdir_def syscall_def fail_def do_mkdir_def Let_def adds_dirs_def
      split: fault.splits if_splits option.splits prod.splits)

lemma mkdir_p_adds:
  assumes "mkdir_p path w = Some y"
  shows "adds_dirs w (snd y)"
proof (rule mkdir_p.raw_induct [where P = "\<lambda>path w y. adds_dirs w (snd y)", OF _ assms], goal_cases)
  case (1 f path w y)
  show ?case
  proof (cases "if 1 < length (dirname path) then f (dirname path) w else Some (0, w)")
    case None
    with 1(2) show ?thesis by (simp add: Let_def)
  next
    case (Some a)
    obtain r1 w1 where a: "a = (r1, w1)" by force
    have "adds_dirs w w1"
      using Some 1(1) [of "dirname path" w a] by (auto simp: a split: if_splits)
    moreover have "adds_dirs w1 (snd y)"
      using 1(2) Some by (auto simp: a Let_def split: if_splits prod.splits dest: sys_mkdir_adds)
    ultimately show ?thesis by (rule adds_dirs_trans)
  qed
qed

section \<open>When \<open>mkdir_p\<close> ends\<close>

lemma rstrip_prefix: "prefix (rstrip s) s"
proof -
  have "s = rstrip s @ rev (takeWhile (\<lambda>c. c = CHR ''/'') (rev s))"
    unfolding rstrip_def by (metis rev_append rev_rev_ident takeWhile_dropWhile_id)
  then show ?thesis by (metis prefixI)
qed

lemma upto_slash_prefix: "prefix (rev (dropWhile (\<lambda>c. c \<noteq> CHR ''/'') (rev t))) t"
proof -
  have "t = rev (dropWhile (\<lambda>c. c \<noteq> CHR ''/'') (rev t)) @ rev (takeWhile (\<lambda>c. c \<noteq> CHR ''/'') (rev t))"
    by (metis rev_append rev_rev_ident takeWhile_dropWhile_id)
  then show ?thesis by (metis prefixI)
qed

lemma dirname_shape:
  "dirname s = ''.'' \<or> dirname s = ''/'' \<or> dirname s = ''//'' \<or> dirname s \<noteq> [] \<and> prefix (dirname s) s"
proof -
  have shape: "x = ''.'' \<or> x = ''/'' \<or> x = ''//'' \<or> x = d \<and> d \<noteq> []"
    if "x = (if s = [] then ''.'' else if t = [] then (if s = ''//'' then ''//'' else ''/'') else if h = [] then ''.''
      else if d = [] then (if h = ''//'' then ''//'' else ''/'') else d)" for x s t h d :: string
    using that by auto
  show ?thesis
    using shape [OF dirname_def [unfolded Let_def]]
      prefix_order.order_trans [OF rstrip_prefix prefix_order.order_trans [OF upto_slash_prefix rstrip_prefix], of s]
    by metis
qed

text \<open>A path with one slash at its beginning.\<close>

definition single_root :: "string \<Rightarrow> bool" where
  "single_root s \<longleftrightarrow> take 1 s = ''/'' \<and> take 2 s \<noteq> ''//''"

lemma single_root_prefix:
  assumes "single_root s" and "prefix d s" and "d \<noteq> []"
  shows "single_root d"
proof -
  obtain c d' where d: "d = c # d'" using assms(3) by (cases d) auto
  then show ?thesis
    using assms(1,2) by (cases d') (auto simp: single_root_def prefix_def)
qed

lemma dirname_shorter:
  assumes root: "single_root s" and long: "1 < length (dirname s)"
  shows "single_root (dirname s)" and "length (dirname s) < length s"
proof -
  let ?t = "rstrip s" and ?h = "rev (dropWhile (\<lambda>c. c \<noteq> CHR ''/'') (rev (rstrip s)))"
  let ?d = "rstrip ?h"
  have s: "s \<noteq> []" "s \<noteq> ''//''" using root by (auto simp: single_root_def)
  have pre: "prefix ?h s" using upto_slash_prefix [of ?t] rstrip_prefix [of s] by (rule prefix_order.order_trans)
  have h: "?h \<noteq> ''//''"
  proof
    assume "?h = ''//''"
    with pre have "prefix ''//'' s" by simp
    with root show False using single_root_prefix [of s "''//''"] by (simp add: single_root_def)
  qed
  then have cases: "?t \<noteq> []" "?h \<noteq> []" "?d \<noteq> []" "dirname s = ?d"
    using long s by (auto simp: dirname_def Let_def split: if_splits)
  have "prefix ?d s" using rstrip_prefix [of ?h] pre by (rule prefix_order.order_trans)
  with cases root show "single_root (dirname s)" using single_root_prefix by metis
  have "hd (rev ?h) = CHR ''/''" using cases(2) hd_dropWhile [of "\<lambda>c. c \<noteq> CHR ''/''" "rev ?t"] by auto
  then have "?d \<noteq> ?h" using cases(3) hd_dropWhile [of "\<lambda>c. c = CHR ''/''" "rev ?h"]
    by (metis rev_is_Nil_conv rev_rev_ident rstrip_def)
  with rstrip_prefix [of ?h] have "length ?d < length ?h"
    by (metis prefix_length_less strict_prefixI)
  also have "\<dots> \<le> length s" using pre by (rule prefix_length_le)
  finally show "length (dirname s) < length s" using cases(4) by simp
qed

lemma mkdir_p_ends:
  assumes "single_root path"
  shows "\<exists>r w'. mkdir_p path w = Some (r, w')"
  using assms
proof (induction "length path" arbitrary: path w rule: less_induct)
  case less
  have "\<exists>a. (if 1 < length (dirname path) then mkdir_p (dirname path) w else Some (0, w)) = Some a"
    using less.hyps [of "dirname path"] dirname_shorter [OF less.prems] by auto
  then obtain a where a: "(if 1 < length (dirname path) then mkdir_p (dirname path) w else Some (0, w)) = Some a" ..
  show ?case
    unfolding mkdir_p.simps [of path w] Let_def a by (auto split: prod.splits)
qed

section \<open>Parents of an absolute path\<close>

lemma dirname_root:
  assumes "single_root s"
  shows "single_root (dirname s)"
proof (cases "1 < length (dirname s)")
  case True
  with assms show ?thesis by (rule dirname_shorter)
next
  case False
  have "dirname s \<noteq> ''.''"
  proof
    assume dot: "dirname s = ''.''"
    obtain r where s: "s = CHR ''/'' # r" using assms by (cases s) (auto simp: single_root_def)
    let ?t = "rstrip s" and ?h = "rev (dropWhile (\<lambda>c. c \<noteq> CHR ''/'') (rev (rstrip s)))"
    have "rstrip x \<noteq> ''.''" if "prefix x s" for x
      using prefix_order.order_trans [OF rstrip_prefix [of x] that] s by auto
    moreover have "prefix ?h s" using upto_slash_prefix [of ?t] rstrip_prefix [of s] by (rule prefix_order.order_trans)
    ultimately have t: "?t \<noteq> []" "?h = []" using dot s by (auto simp: dirname_def Let_def split: if_splits)
    then have "CHR ''/'' \<in> set ?t"
      using rstrip_prefix [of s] s by (cases ?t) auto
    with t(2) show False by auto
  qed
  moreover have "dirname s \<noteq> ''//''" using False by auto
  ultimately have "dirname s = ''/'' \<or> dirname s \<noteq> [] \<and> prefix (dirname s) s"
    using dirname_shape [of s] by blast
  then show ?thesis
  proof
    assume "dirname s = ''/''"
    then show ?thesis by (simp add: single_root_def)
  qed (use assms single_root_prefix in blast)
qed

lemma snapshot_path_root: "single_root (snapshot_path f a b)"
  by (simp add: single_root_def snapshot_path_def snprintf_s_def PATH_MAX_def SNAPSHOT_DIR_def)

section \<open>Components of a path\<close>

lemma split_path_nonempty [simp]: "split_path s \<noteq> []"
  by (induction s) (auto split: list.split)

lemma split_path_append: "split_path (a @ CHR ''/'' # b) = split_path a @ split_path b"
  by (induction a) (auto split: list.split)

lemma split_path_single: "CHR ''/'' \<notin> set c \<Longrightarrow> split_path c = [c]"
  by (induction c) auto

lemma comps_append: "comps (a @ CHR ''/'' # b) = comps a @ comps b"
  by (simp add: comps_def split_path_append)

lemma comps_Nil [simp]: "comps [] = []"
  by (simp add: comps_def)

lemma comps_Cons: "comps (CHR ''/'' # b) = comps b"
  using comps_append [of "[]" b] by simp

lemma comps_slashes: "comps (a @ replicate n (CHR ''/'')) = comps a"
proof (induction n)
  case (Suc n)
  then show ?case
    using comps_append [of "a @ replicate n (CHR ''/'')" "[]"] by (simp add: replicate_append_same [symmetric])
qed simp

lemma split_path_slashes: "set (split_path a) \<subseteq> set (split_path (a @ replicate n (CHR ''/'')))"
  by (cases n) (simp_all add: split_path_append)

text \<open>A component that names an entry of a directory.\<close>

definition plain :: "string \<Rightarrow> bool" where
  "plain c \<longleftrightarrow> c \<noteq> [] \<and> c \<noteq> ''.'' \<and> c \<noteq> ''..'' \<and> CHR ''/'' \<notin> set c"

lemma comps_plain: "plain c \<Longrightarrow> comps c = [c]"
  by (simp add: comps_def split_path_single plain_def)

lemma walk_plain: "''..'' \<notin> set cs \<Longrightarrow> walk p cs = p @ cs"
  by (induction cs arbitrary: p) auto

text \<open>A path without dots.\<close>

definition plain_path :: "string \<Rightarrow> bool" where
  "plain_path s \<longleftrightarrow> single_root s \<and> (\<forall>c \<in> set (split_path s). c \<noteq> ''.'' \<and> c \<noteq> ''..'')"

lemma resolve_plain: "plain_path s \<Longrightarrow> resolve d s = comps s"
  by (auto simp: plain_path_def single_root_def resolve_def comps_def walk_plain)

section \<open>Parents\<close>

lemma rstrip_slashes: "\<exists>n. s = rstrip s @ replicate n (CHR ''/'')"
proof -
  let ?t = "takeWhile (\<lambda>c. c = CHR ''/'') (rev s)"
  have "s = rstrip s @ rev ?t"
    unfolding rstrip_def by (metis rev_append rev_rev_ident takeWhile_dropWhile_id)
  moreover have "rev ?t = replicate (length ?t) (CHR ''/'')"
    by (rule replicate_eqI) (auto dest: set_takeWhileD)
  ultimately show ?thesis by metis
qed

lemma comps_rstrip: "comps (rstrip s) = comps s"
  using rstrip_slashes [of s] comps_slashes by metis

lemma rstrip_last: "rstrip s \<noteq> [] \<Longrightarrow> last (rstrip s) \<noteq> CHR ''/''"
  using hd_dropWhile [of "\<lambda>c. c = CHR ''/''" "rev s"] by (simp add: rstrip_def last_rev)

text \<open>The last component of a path: everything after the last slash.\<close>

lemma split_last_slash:
  assumes "CHR ''/'' \<in> set t"
  obtains h c where "t = h @ CHR ''/'' # c" "CHR ''/'' \<notin> set c"
    "rev (dropWhile (\<lambda>c. c \<noteq> CHR ''/'') (rev t)) = h @ ''/''"
proof -
  obtain h c where t: "t = h @ CHR ''/'' # c" "CHR ''/'' \<notin> set c" using assms by (meson split_list_last)
  moreover have "dropWhile (\<lambda>c. c \<noteq> CHR ''/'') (rev c @ CHR ''/'' # rev h) = CHR ''/'' # rev h"
    using t(2) by (subst dropWhile_append2) auto
  ultimately show ?thesis using that by simp
qed

lemma plain_path_last:
  assumes "plain_path s" and "comps s \<noteq> []"
  obtains h c where "comps s = comps h @ [c]" "\<forall>x \<in> set (split_path h). x \<noteq> ''.'' \<and> x \<noteq> ''..''"
    "dirname s = (if rstrip (h @ ''/'') = [] then ''/'' else rstrip (h @ ''/''))"
proof -
  let ?t = "rstrip s"
  have root: "single_root s" using assms(1) by (simp add: plain_path_def)
  obtain n where n: "s = ?t @ replicate n (CHR ''/'')" using rstrip_slashes by blast
  have t: "?t \<noteq> []" and sne: "s \<noteq> []" using assms(2) comps_rstrip [of s] by auto
  have "prefix ?t s" by (rule rstrip_prefix)
  then have "single_root ?t" using root t single_root_prefix by blast
  then have "CHR ''/'' \<in> set ?t" by (cases ?t) (auto simp: single_root_def)
  then obtain h c where hc: "?t = h @ CHR ''/'' # c" "CHR ''/'' \<notin> set c"
      "rev (dropWhile (\<lambda>c. c \<noteq> CHR ''/'') (rev ?t)) = h @ ''/''"
    by (rule split_last_slash)
  have s: "s = h @ CHR ''/'' # c @ replicate n (CHR ''/'')" using n hc(1) by simp
  have dots: "x \<noteq> ''.'' \<and> x \<noteq> ''..''" if "x \<in> set (split_path h) \<or> x \<in> set (split_path (c @ replicate n (CHR ''/'')))" for x
    using assms(1) that unfolding plain_path_def s split_path_append by auto
  have "c \<in> set (split_path (c @ replicate n (CHR ''/'')))"
    using split_path_slashes [of c n] split_path_single [OF hc(2)] by auto
  then have "c \<noteq> ''.''" using dots by blast
  moreover have "c \<noteq> []" using rstrip_last [OF t] hc(1) by auto
  ultimately have "comps c = [c]" using hc(2) by (simp add: comps_def split_path_single)
  then have cs: "comps s = comps h @ [c]" using comps_rstrip [of s] hc(1) comps_append by metis
  have "h @ ''/'' \<noteq> ''//''"
  proof
    assume "h @ ''/'' = ''//''"
    then have "take 2 s = ''//''" using s by (cases h) auto
    with root show False by (simp add: single_root_def)
  qed
  then have "dirname s = (if rstrip (h @ ''/'') = [] then ''/'' else rstrip (h @ ''/''))"
    using t sne by (simp add: dirname_def Let_def hc(3) del: append_Cons)
  with cs dots show ?thesis using that by blast
qed

lemma comps_dirname:
  assumes "plain_path s" and "comps s \<noteq> []"
  shows "comps (dirname s) = butlast (comps s)" "plain_path (dirname s)"
proof -
  obtain h c where cs: "comps s = comps h @ [c]" and dots: "\<forall>x \<in> set (split_path h). x \<noteq> ''.'' \<and> x \<noteq> ''..''"
    and dir: "dirname s = (if rstrip (h @ ''/'') = [] then ''/'' else rstrip (h @ ''/''))"
    using plain_path_last [OF assms] by blast
  let ?d = "rstrip (h @ ''/'')"
  have cd: "comps ?d = comps h" using comps_rstrip [of "h @ ''/''"] comps_slashes [of h 1] by simp
  show "comps (dirname s) = butlast (comps s)"
  proof (cases "?d = []")
    case True
    then have "comps h = []" using cd by simp
    then show ?thesis using True comps_Cons [of "[]"] by (simp add: dir cs)
  qed (simp add: dir cd cs)
  have "set (split_path (dirname s)) \<subseteq> insert [] (set (split_path h))"
  proof (cases "?d = []")
    case False
    obtain m where "h @ ''/'' = ?d @ replicate m (CHR ''/'')" using rstrip_slashes by blast
    moreover from this rstrip_last [OF False] have "m \<noteq> 0" by (cases m) (auto dest: arg_cong [where f = last])
    ultimately have "h = ?d @ replicate (m - 1) (CHR ''/'')"
      by (cases m) (auto simp: replicate_append_same [symmetric])
    then have "set (split_path ?d) \<subseteq> set (split_path h)"
      using split_path_slashes [of ?d "m - 1"] by simp
    then show ?thesis using False by (auto simp: dir)
  qed (simp add: dir)
  moreover have "single_root s" using assms(1) by (simp add: plain_path_def)
  ultimately show "plain_path (dirname s)" using dots dirname_root by (auto simp: plain_path_def)
qed

lemma comps_nonempty:
  assumes "plain_path s" and "1 < length s"
  shows "comps s \<noteq> []"
proof -
  obtain c r where s: "s = CHR ''/'' # c # r" "c \<noteq> CHR ''/''"
    using assms by (cases s; cases "tl s") (auto simp: plain_path_def single_root_def)
  then obtain d ds where "split_path s = [] # (c # d) # ds" by (cases "split_path r") auto
  moreover from this assms(1) have "c # d \<noteq> ''.''" unfolding plain_path_def by force
  ultimately show ?thesis by (simp add: comps_def)
qed

section \<open>Creating directories when nothing fails\<close>

lemma pop_fault_Nil [simp]: "faults w = [] \<Longrightarrow> pop_fault w = w"
  by (cases w) (simp add: pop_fault_def)

definition with_dirs :: "path \<Rightarrow> (path \<rightharpoonup> node) \<Rightarrow> path \<rightharpoonup> node" where
  "with_dirs q m = (\<lambda>p. if prefix p q then Some Dir else m p)"

lemma with_dirs_step:
  assumes "q \<noteq> []"
  shows "with_dirs q m = (with_dirs (butlast q) m)(q \<mapsto> Dir)"
proof -
  have "prefix p q \<longleftrightarrow> p = q \<or> prefix p (butlast q)" for p
    using prefix_snoc [of p "butlast q" "last q"] assms by simp
  then show ?thesis by (auto simp: with_dirs_def fun_eq_iff)
qed

lemma sys_mkdir_quiet:
  assumes "faults w = []" and "plain_path s" and "nodes w (butlast (comps s)) = Some Dir"
    and "nodes w (comps s) = None \<or> nodes w (comps s) = Some Dir"
  shows "\<exists>e r. sys_mkdir s w = (r, w\<lparr>nodes := (nodes w)(comps s \<mapsto> Dir), errno_of := e\<rparr>) \<and> (r = 0 \<or> e = EEXIST)"
proof -
  have "s \<noteq> []" using assms(2) by (auto simp: plain_path_def single_root_def)
  then show ?thesis
    using assms by (cases w) (auto simp: sys_mkdir_def syscall_def do_mkdir_def resolve_plain Let_def fail_def fun_upd_idem)
qed

lemma mkdir_p_quiet:
  assumes "plain_path s" and "faults w = []" and "nodes w [] = Some Dir"
    and "\<And>p. prefix p (comps s) \<Longrightarrow> nodes w p = None \<or> nodes w p = Some Dir" and "comps s \<noteq> []"
  shows "\<exists>e. mkdir_p s w = Some (0, w\<lparr>nodes := with_dirs (comps s) (nodes w), errno_of := e\<rparr>)"
  using assms
proof (induction "length s" arbitrary: s rule: less_induct)
  case less
  let ?p = "dirname s" and ?q = "butlast (comps s)"
  have root: "single_root s" using less.prems(1) by (simp add: plain_path_def)
  have q: "comps ?p = ?q \<and> plain_path ?p" using comps_dirname less.prems(1,5) by blast
  have "\<exists>e. (if 1 < length ?p then mkdir_p ?p w else Some (0, w)) =
      Some (0, w\<lparr>nodes := with_dirs ?q (nodes w), errno_of := e\<rparr>)"
  proof (cases "1 < length ?p")
    case True
    have "prefix p (comps s)" if "prefix p ?q" for p
      using that prefixeq_butlast prefix_order.order_trans by blast
    then show ?thesis
      using less.hyps [of ?p] dirname_shorter [OF root True] comps_nonempty [of ?p] q less.prems True by auto
  next
    case False
    have "single_root ?p" using q by (simp add: plain_path_def)
    with False have "?p = ''/''" by (cases ?p; cases "tl ?p") (auto simp: single_root_def)
    with q have "?q = []" using comps_Cons [of "[]"] by simp
    then have "with_dirs ?q (nodes w) = nodes w" using less.prems(3) by (auto simp: with_dirs_def fun_eq_iff)
    with False show ?thesis by (intro exI [of _ "errno_of w"]) simp
  qed
  then obtain e where e: "(if 1 < length ?p then mkdir_p ?p w else Some (0, w)) =
      Some (0, w\<lparr>nodes := with_dirs ?q (nodes w), errno_of := e\<rparr>)" ..
  let ?w = "w\<lparr>nodes := with_dirs ?q (nodes w), errno_of := e\<rparr>"
  have "\<exists>e r. sys_mkdir s ?w = (r, ?w\<lparr>nodes := (nodes ?w)(comps s \<mapsto> Dir), errno_of := e\<rparr>) \<and> (r = 0 \<or> e = EEXIST)"
    using less.prems by (intro sys_mkdir_quiet) (auto simp: with_dirs_def)
  moreover have "(with_dirs ?q (nodes w))(comps s \<mapsto> Dir) = with_dirs (comps s) (nodes w)"
    using with_dirs_step [OF less.prems(5)] by simp
  ultimately obtain e' r where r: "sys_mkdir s ?w = (r, w\<lparr>nodes := with_dirs (comps s) (nodes w), errno_of := e'\<rparr>)"
      "r = 0 \<or> e' = EEXIST" by auto
  then show ?case
    unfolding mkdir_p.simps [of s w] Let_def e by auto
qed

section \<open>Snapshot paths\<close>

definition range_suffix :: "int \<Rightarrow> int \<Rightarrow> string" where
  "range_suffix a b = '':'' @ show_int a @ '':'' @ show_int b"

lemma show_int_no_sep [simp]: "CHR '':'' \<notin> set (show_int a)" "CHR ''/'' \<notin> set (show_int a)"
  using show_int_chars [of "CHR '':''" a] show_int_chars [of "CHR ''/''" a] by (auto simp: is_digit_def digit_val_def)

lemma split_at_last:
  assumes "x \<notin> set b" and "x \<notin> set d" and "a @ x # b = c @ x # d"
  shows "a = c \<and> b = d"
proof -
  have "rev b @ x # rev a = rev d @ x # rev c" using assms(3) by (metis rev.simps(2) rev_append append_assoc append_Cons append_Nil)
  moreover have "takeWhile (\<lambda>y. y \<noteq> x) (rev e @ x # r) = rev e" if "x \<notin> set e" for e r
    using that by (subst takeWhile_append2) auto
  ultimately have "rev b = rev d" using assms(1,2) by metis
  with assms(3) show ?thesis by simp
qed

lemma range_suffix_inject: "f @ range_suffix a b = g @ range_suffix c d \<longleftrightarrow> f = g \<and> a = c \<and> b = d"
proof
  assume eq: "f @ range_suffix a b = g @ range_suffix c d"
  then have "(f @ CHR '':'' # show_int a) @ CHR '':'' # show_int b = (g @ CHR '':'' # show_int c) @ CHR '':'' # show_int d"
    by (simp add: range_suffix_def)
  from split_at_last [OF _ _ this] have "f @ CHR '':'' # show_int a = g @ CHR '':'' # show_int c" "b = d" by simp_all
  with split_at_last [OF _ _ this(1)] show "f = g \<and> a = c \<and> b = d" by simp
qed simp

text \<open>A path that is not cut off, and one that is cut off before the offsets.\<close>

lemma snapshot_path_full:
  assumes "length f \<le> 4017" and "in_s64 a" and "in_s64 b"
  shows "snapshot_path f a b = SNAPSHOT_DIR @ ''/'' @ f @ range_suffix a b"
  using assms length_show_int [of a] length_show_int [of b]
  by (simp add: snapshot_path_def snprintf_s_def PATH_MAX_def SNAPSHOT_DIR_def range_suffix_def)

lemma snapshot_path_cut:
  assumes "4060 \<le> length f"
  shows "snapshot_path f a b = take 4095 (SNAPSHOT_DIR @ ''/'' @ f)"
  using assms by (simp add: snapshot_path_def snprintf_s_def PATH_MAX_def SNAPSHOT_DIR_def)

text \<open>The absolute path of a file, as \<open>realpath\<close> returns it.\<close>

definition canonical :: "path \<Rightarrow> bool" where
  "canonical p \<longleftrightarrow> p \<noteq> [] \<and> (\<forall>c \<in> set p. plain c)"

definition snapshot_at :: "path \<Rightarrow> int \<Rightarrow> int \<Rightarrow> path" where
  "snapshot_at p a b = comps SNAPSHOT_DIR @ butlast p @ [last p @ range_suffix a b]"

lemma snapshot_at_inject [simp]: "snapshot_at p a b = snapshot_at p c d \<longleftrightarrow> a = c \<and> b = d"
  using range_suffix_inject [of "[]" a b "[]" c d] by (simp add: snapshot_at_def)

lemma split_path_string: "\<forall>c \<in> set p. plain c \<Longrightarrow> p \<noteq> [] \<Longrightarrow> split_path (path_string p) = [] # p"
proof (induction p rule: rev_induct)
  case (snoc c p)
  have c: "split_path c = [c]" using snoc.prems by (simp add: plain_def split_path_single)
  then show ?case
  proof (cases "p = []")
    case False
    then have "path_string (p @ [c]) = path_string p @ CHR ''/'' # c" by (simp add: path_string_def)
    with snoc False c show ?thesis by (simp add: split_path_append)
  qed (simp add: path_string_def c)
qed simp

lemma plain_suffix: "plain c \<Longrightarrow> plain (c @ range_suffix a b)"
  by (auto simp: plain_def range_suffix_def Cons_eq_append_conv append_eq_Cons_conv)

lemma canonical_suffix: "canonical p \<Longrightarrow> canonical (butlast p @ [last p @ range_suffix a b])"
  by (auto simp: canonical_def plain_suffix dest: in_set_butlastD)

lemma path_string_suffix:
  assumes "p \<noteq> []"
  shows "path_string p @ t = path_string (butlast p @ [last p @ t])"
proof -
  have "path_string (butlast p @ [last p]) @ t = path_string (butlast p @ [last p @ t])" by (simp add: path_string_def)
  with assms show ?thesis by simp
qed

lemma split_SNAPSHOT_DIR: "split_path SNAPSHOT_DIR = [[], ''tmp'', ''jepsen'', ''corrupt-file'', ''snapshots'']"
  by (simp add: SNAPSHOT_DIR_def)

lemma snapshot_path_plain:
  assumes p: "canonical p" and len: "length (path_string p) \<le> 4017" and ab: "in_s64 a" "in_s64 b"
  shows "plain_path (snapshot_path (path_string p) a b)" "comps (snapshot_path (path_string p) a b) = snapshot_at p a b"
proof -
  let ?q = "butlast p @ [last p @ range_suffix a b]"
  have q: "\<forall>c \<in> set ?q. plain c" "?q \<noteq> []" using canonical_suffix [OF p] by (simp_all add: canonical_def)
  have "snapshot_path (path_string p) a b = SNAPSHOT_DIR @ CHR ''/'' # path_string ?q"
    using p by (simp add: snapshot_path_full [OF len ab] path_string_suffix canonical_def)
  then have sp: "split_path (snapshot_path (path_string p) a b) = split_path SNAPSHOT_DIR @ [] # ?q"
    by (simp add: split_path_append split_path_string [OF q])
  show "plain_path (snapshot_path (path_string p) a b)"
    using snapshot_path_root q(1) unfolding plain_path_def sp by (auto simp: split_SNAPSHOT_DIR plain_def)
  show "comps (snapshot_path (path_string p) a b) = snapshot_at p a b"
    using q(1) unfolding comps_def sp by (auto simp: snapshot_at_def comps_def split_SNAPSHOT_DIR plain_def intro!: filter_True)
qed

lemma mkdir_p_double_slash:
  assumes "mkdir_p path w = Some y"
  shows "path \<noteq> ''//''"
proof (rule mkdir_p.raw_induct [where P = "\<lambda>path w y. path \<noteq> ''//''", OF _ assms], goal_cases)
  case (1 f path w y)
  show ?case
  proof
    assume p: "path = ''//''"
    have "dirname path = ''//''" by (simp add: p dirname_def rstrip_def)
    moreover from this have "f ''//'' w = None"
      using 1(1) [of "''//''" w] by (cases "f ''//'' w") auto
    ultimately show False using 1(2) by (simp add: Let_def)
  qed
qed

section \<open>Properties\<close>

text \<open>C29: For file names of up to 4017 characters the snapshot path determines the file, the start and
  the end of the chunk: no two chunks, of the same file or of different files, share a snapshot.\<close>

theorem snapshot_path_injective:
  assumes "length f \<le> 4017" and "length g \<le> 4017" and "in_s64 a" "in_s64 b" "in_s64 c" "in_s64 d"
  shows "snapshot_path f a b = snapshot_path g c d \<longleftrightarrow> f = g \<and> a = c \<and> b = d"
  using assms by (simp add: snapshot_path_full range_suffix_inject)

theorem snapshot_path_injective_witness:
  "snapshot_path ''/f'' 0 10 \<noteq> snapshot_path ''/f:0'' 0 10"
  using snapshot_path_injective [of "''/f''" "''/f:0''" 0 10 0 10] by (simp add: in_s64_def)

text \<open>C30: The path buffer cuts long names off without notice: for a file name of 4060 characters or more
  all chunks have the same snapshot path.\<close>

theorem snapshot_paths_collide:
  assumes "4060 \<le> length f"
  shows "snapshot_path f a b = snapshot_path f c d"
  using assms by (simp add: snapshot_path_cut)

theorem snapshot_paths_collide_witness:
  "snapshot_path (replicate 4060 (CHR ''a'')) 0 10 = snapshot_path (replicate 4060 (CHR ''a'')) 10 20"
  by (rule snapshot_paths_collide) simp

text \<open>C28: Creating a directory with its parents.  On any path that starts with one slash, not two,
  the recursion ends, whatever the system calls return, and it only ever adds directories.  When in
  addition the path names at least one directory below the root and has no component \<open>.\<close> or \<open>..\<close>, no call
  fails, the root is a directory and no regular file is in the way, it returns
  zero and every prefix of the path is a directory afterwards, all other names being as before.\<close>

theorem mkdir_p_correct:
  assumes "single_root s"
  shows "\<exists>r w'. mkdir_p s w = Some (r, w') \<and> adds_dirs w w' \<and>
    (plain_path s \<and> comps s \<noteq> [] \<and> faults w = [] \<and> nodes w [] = Some Dir \<and>
       (\<forall>p. prefix p (comps s) \<longrightarrow> nodes w p \<in> {None, Some Dir}) \<longrightarrow>
      r = 0 \<and> (\<forall>p. nodes w' p = (if prefix p (comps s) then Some Dir else nodes w p)))"
proof -
  obtain r w' where r: "mkdir_p s w = Some (r, w')"
    using mkdir_p_ends [OF assms, of w] by auto
  moreover have "adds_dirs w w'" using mkdir_p_adds [OF r] by simp
  moreover have "r = 0 \<and> (\<forall>p. nodes w' p = (if prefix p (comps s) then Some Dir else nodes w p))"
    if "plain_path s" "comps s \<noteq> []" "faults w = []" "nodes w [] = Some Dir" "\<forall>p. prefix p (comps s) \<longrightarrow> nodes w p \<in> {None, Some Dir}"
    using mkdir_p_quiet [OF that(1,3,4) _ that(2)] that(5) r by (auto simp: with_dirs_def)
  ultimately show ?thesis by blast
qed

theorem mkdir_p_correct_witness:
  "\<exists>w'. mkdir_p ''/tmp/a/b'' (sample_os [] []) = Some (0, w') \<and>
     nodes w' [''tmp'', ''a''] = Some Dir \<and> nodes w' [''f''] = Some (Reg 0)"
proof -
  have c: "comps ''/tmp/a/b'' = [''tmp'', ''a'', ''b'']" "plain_path ''/tmp/a/b''" "single_root ''/tmp/a/b''"
    by (simp_all add: comps_def plain_path_def single_root_def)
  have "\<forall>p. prefix p [''tmp'', ''a'', ''b''] \<longrightarrow> nodes (sample_os [] []) p \<in> {None, Some Dir}"
    by (auto simp: sample_os_def prefix_Cons)
  with mkdir_p_correct [OF c(3), of "sample_os [] []"] c(1,2) show ?thesis
    by (auto simp: sample_os_def)
qed

text \<open>C40: Called on two slashes the recursion would not end, because the C library keeps them; the
  snapshot mode never gets there, since its paths start with one.\<close>

theorem mkdir_p_diverges_on_double_slash:
  "mkdir_p ''//'' w = None \<and> (\<exists>r w'. mkdir_p (dirname (snapshot_path f a b)) w = Some (r, w'))"
proof
  show "mkdir_p ''//'' w = None" using mkdir_p_double_slash [of "''//''" w] by (cases "mkdir_p ''//'' w") auto
  show "\<exists>r w'. mkdir_p (dirname (snapshot_path f a b)) w = Some (r, w')"
    by (rule mkdir_p_ends [OF dirname_root [OF snapshot_path_root]])
qed

end
