(* ===== verification/CF_Snapshot.thy ===== *)
theory CF_Snapshot
  imports CF_Copy CF_Paths
begin

text \<open>
  The snapshot mode of \<open>corrupt-file.c\<close>: it copies each selected chunk into a file of its
  own under the snapshot directory.

  The lemmas show, for every fault plan, that the mode touches neither the file it takes
  snapshots of nor any other file that is not one of its snapshots, and which names it can change.
\<close>

text \<open>A function that may not end, as a program.\<close>

definition c_option :: "('w \<Rightarrow> ('a \<times> 'w) option) \<Rightarrow> ('w, 'a) prog" where
  "c_option f w = (case f w of None \<Rightarrow> Diverge | Some (a, w') \<Rightarrow> Val a w')"

text \<open>The string a pointer points to.\<close>

definition c_str :: "cptr \<Rightarrow> ('w, string) prog" where
  "c_str p = (case p of Uninit \<Rightarrow> c_undef UninitRead | Null \<Rightarrow> c_undef NullDeref | Str s \<Rightarrow> c_val s)"

section \<open>The snapshot mode\<close>

definition region_clip :: "opts_t \<Rightarrow> int \<Rightarrow> int" where
  "region_clip opts e = (if o_end opts < e then o_end opts else e)"

definition snap_body :: "opts_t \<Rightarrow> string \<Rightarrow> int \<Rightarrow> int \<Rightarrow> int \<times> int \<Rightarrow> (os, int \<times> int) prog" where
  "snap_body opts file fd chunk = (\<lambda>(bytes_snapped, chunks_snapped).
     c_bind (chunk_offset opts chunk) (\<lambda>start.
     c_bind (s64 (start + o_chunk_size opts)) (\<lambda>end0.
     let end1 = region_clip opts end0; snapshot = snapshot_path file start end1 in
     c_bind (c_lib (sys_unlink snapshot)) (\<lambda>err.
     c_bind (c_gets errno_of) (\<lambda>errno.
     if err \<noteq> 0 \<and> errno \<noteq> ENOENT then c_return EXIT_IO
     else
       c_bind (c_lib (sys_open snapshot O_CREAT_WRONLY)) (\<lambda>dest_fd.
       if dest_fd = -1 then c_return EXIT_IO
       else
         c_bind (s64 (end1 - start)) (\<lambda>len.
         c_bind (c_lib (sys_cfr fd (Some start) dest_fd None len)) (\<lambda>copied.
         if copied = -1 then
           c_bind (c_lib (sys_close fd)) (\<lambda>_.
           c_bind (c_lib (sys_close dest_fd)) (\<lambda>_. c_return EXIT_IO))
         else
           c_bind (s64 (bytes_snapped + copied)) (\<lambda>b.
           c_bind (s64 (chunks_snapped + 1)) (\<lambda>n.
           c_bind (c_lib (sys_close dest_fd)) (\<lambda>_. c_val (b, n))))))))))))"

definition corrupt_snapshot :: "opts_t \<Rightarrow> int \<Rightarrow> int \<Rightarrow> int \<Rightarrow> (os, int) prog" where
  "corrupt_snapshot opts fd file_size count =
     c_call
       (c_bind (c_str (o_file opts)) (\<lambda>file.
        c_bind (c_option (mkdir_p (dirname (snapshot_path file 0 0)))) (\<lambda>err.
        if err \<noteq> 0 then c_return EXIT_IO
        else
          c_bind (for_chunks opts count (snap_body opts file fd) (0, 0))
            (\<lambda>(bytes_snapped, chunks_snapped).
          c_bind (c_modify (lib_puts (''Snapshot '' @ show_int chunks_snapped @ '' chunks ('' @
            show_int bytes_snapped @ '' bytes)''))) (\<lambda>_.
          c_val EXIT_OK)))))"

lemma wp_option: "wp u (c_option f) Q R X w = (case f w of None \<Rightarrow> False | Some (a, w') \<Rightarrow> Q a w')"
  by (auto simp: wp_def c_option_def split: option.split prod.split)

section \<open>The snapshot mode does not touch the file\<close>

text \<open>
  What the mode needs of the system: the file's inode number was allocated, and the file is
  not one of its own snapshots.
\<close>

definition snap_name :: "string \<Rightarrow> os \<Rightarrow> path \<Rightarrow> bool" where
  "snap_name f w p \<longleftrightarrow> (\<exists>a b. in_s64 a \<and> in_s64 b \<and> p = resolve (cwd w) (snapshot_path f a b))"

definition snap_env :: "string \<Rightarrow> nat \<Rightarrow> os \<Rightarrow> bool" where
  "snap_env f i w \<longleftrightarrow> i < next_ino w \<and> (\<forall>p. snap_name f w p \<longrightarrow> nodes w p \<noteq> Some (Reg i))"

text \<open>All files that are not snapshots of \<open>f\<close> keep their bytes, and stay no snapshots.\<close>

definition snap_kept :: "string \<Rightarrow> os \<Rightarrow> os \<Rightarrow> bool" where
  "snap_kept f wi w \<longleftrightarrow> cwd w = cwd wi \<and> (\<forall>k. snap_env f k wi \<longrightarrow> inodes w k = inodes wi k \<and> snap_env f k w) \<and>
     (\<forall>p. \<not> snap_name f wi p \<longrightarrow> nodes w p = nodes wi p)"

lemma snap_name_updates [simp]:
  "snap_name f (w\<lparr>nodes := a\<rparr>) = snap_name f w" "snap_name f (w\<lparr>inodes := b\<rparr>) = snap_name f w"
  "snap_name f (w\<lparr>next_ino := c\<rparr>) = snap_name f w" "snap_name f (w\<lparr>fds := d\<rparr>) = snap_name f w"
  "snap_name f (w\<lparr>errno_of := e\<rparr>) = snap_name f w" "snap_name f (w\<lparr>rand_st := g\<rparr>) = snap_name f w"
  "snap_name f (w\<lparr>printed := h\<rparr>) = snap_name f w" "snap_name f (pop_fault w) = snap_name f w"
  by (simp_all add: snap_name_def fun_eq_iff)

lemma snap_name_cong: "cwd w = cwd wi \<Longrightarrow> snap_name f w = snap_name f wi"
  by (simp add: snap_name_def fun_eq_iff)

lemma snap_kept_refl: "snap_kept f w w"
  by (simp add: snap_kept_def)

lemma snap_kept_updates [simp]:
  "snap_kept f wi (w\<lparr>fds := d\<rparr>) = snap_kept f wi w" "snap_kept f wi (w\<lparr>errno_of := e\<rparr>) = snap_kept f wi w"
  "snap_kept f wi (w\<lparr>rand_st := g\<rparr>) = snap_kept f wi w" "snap_kept f wi (w\<lparr>printed := h\<rparr>) = snap_kept f wi w"
  "snap_kept f wi (pop_fault w) = snap_kept f wi w"
  by (simp_all add: snap_kept_def snap_env_def)

lemma snap_kept_unlink:
  assumes "snap_kept f wi w" and "snap_name f wi p"
  shows "snap_kept f wi (w\<lparr>nodes := (nodes w)(p := None)\<rparr>)"
  using assms by (auto simp: snap_kept_def snap_env_def)

lemma snap_kept_create:
  assumes "snap_kept f wi w" and "snap_name f wi p"
  shows "snap_kept f wi (w\<lparr>nodes := (nodes w)(p \<mapsto> Reg (next_ino w)), inodes := (inodes w)(next_ino w := []),
    next_ino := Suc (next_ino w)\<rparr>)"
  using assms by (auto simp: snap_kept_def snap_env_def)

lemma snap_kept_write:
  assumes "snap_kept f wi w" and "\<not> snap_env f j wi"
  shows "snap_kept f wi (w\<lparr>inodes := (inodes w)(j := bs)\<rparr>)"
  using assms by (auto simp: snap_kept_def snap_env_def)

lemma sys_unlink_cases:
  fixes s w
  defines "p \<equiv> resolve (cwd w) s"
  obtains (failed) e where "sys_unlink s w = (-1, (pop_fault w)\<lparr>errno_of := e\<rparr>)"
  | (removed) j where "sys_unlink s w = (0, (pop_fault w)\<lparr>nodes := (nodes w)(p := None)\<rparr>)" "nodes w p = Some (Reg j)"
proof (cases "\<exists>e. next_fault w = Fail e")
  case True
  then show ?thesis using failed by (auto simp: sys_unlink_def syscall_def fail_def)
next
  case False
  then have run: "sys_unlink s w = (case do_unlink s (pop_fault w) of ((r, _), w') \<Rightarrow> (r, w'))"
    by (cases "next_fault w") (auto simp: sys_unlink_def syscall_def)
  consider "s = []" | "s \<noteq> []" "nodes w p = Some Dir" | j where "s \<noteq> []" "nodes w p = Some (Reg j)"
    | "s \<noteq> []" "nodes w p = None"
    by (metis node.exhaust option.exhaust)
  then show ?thesis
  proof cases
    case (3 j)
    then show ?thesis using run by (intro removed) (auto simp: do_unlink_def p_def Let_def)
  qed (use run failed in \<open>auto simp: do_unlink_def p_def Let_def fail_def\<close>)
qed

definition snap_inv :: "bool \<Rightarrow> opts_t \<Rightarrow> string \<Rightarrow> int \<Rightarrow> int \<Rightarrow> nat \<Rightarrow> os \<Rightarrow> int \<Rightarrow> int \<times> int \<Rightarrow> os \<Rightarrow> bool" where
  "snap_inv u opts f fd fs i wi c = (\<lambda>(b, n) w.
     opts_ok opts \<and> offs_ok fs \<and> (u \<or> roomy opts fs) \<and> (\<exists>pos. fd_reg wi fd i True True pos) \<and>
     int (length (inodes wi i)) = fs \<and> stats_ok opts c b n \<and>
     snap_env f i wi \<and> snap_kept f wi w \<and> fd_get (fds w) = fd_get (fds wi))"

definition snap_bail :: "string \<Rightarrow> int \<Rightarrow> os \<Rightarrow> int \<Rightarrow> os \<Rightarrow> bool" where
  "snap_bail f fd wi v w \<longleftrightarrow> v = EXIT_IO \<and> snap_kept f wi w \<and>
     (fd_get (fds w) = fd_get (fds wi) \<or> fd_get (fds w) = (fd_get (fds wi))(fd := None))"

lemma region_clip_chunk:
  assumes ok: "opts_ok opts" "offs_ok fs" and sel: "selected opts c" "c < n_chunks opts fs"
  defines "e \<equiv> region_clip opts (chunk_start opts c + o_chunk_size opts)"
  shows "chunk_start opts c < e" "e \<le> chunk_start opts c + o_chunk_size opts" "e \<le> LLONG_MAX"
    "chunk_end opts fs c = min e fs" "in_s64 (e - chunk_start opts c)"
proof -
  note f = chunk_facts [OF ok sel]
  show "chunk_start opts c < e" "e \<le> chunk_start opts c + o_chunk_size opts" "e \<le> LLONG_MAX"
    "chunk_end opts fs c = min e fs"
    using f opts_okD [OF ok(1)] by (auto simp: e_def region_clip_def region_end_def chunk_end_def)
  then show "in_s64 (e - chunk_start opts c)" using f by (simp add: in_s64_def)
qed

lemma snap_kept_close: "sys_close fd w = (r, w') \<Longrightarrow> snap_kept f wi w' = snap_kept f wi w"
  by (auto simp: sys_close_def Let_def split: option.splits fault.splits)

lemma fd_get_close: "sys_close fd w = (r, w') \<Longrightarrow> fd_get (fds w') = (fd_get (fds w))(fd := None)"
  by (auto dest: sys_close_frame)

text \<open>Copying the chunk into an open snapshot file and closing it.\<close>

lemma snap_copy_wp:
  assumes inv: "snap_inv u opts f fd fs i wi c (b, k) w" and sel: "selected opts c" "c < n_chunks opts fs"
    and kept: "snap_kept f wi w1" and new: "fd_get (fds wi) (int n) = None"
    and tab: "fd_get (fds w1) = (fd_get (fds wi))(int n := Some (new_ofd (Reg j) O_CREAT_WRONLY))" and nj: "\<not> snap_env f j wi"
  defines "e \<equiv> region_clip opts (chunk_start opts c + o_chunk_size opts)"
  shows "wp u (c_bind (c_lib (sys_cfr fd (Some (chunk_start opts c)) (int n) None (e - chunk_start opts c))) (\<lambda>copied.
      if copied = -1 then
        c_bind (c_lib (sys_close fd)) (\<lambda>_. c_bind (c_lib (sys_close (int n))) (\<lambda>_. c_return EXIT_IO))
      else
        c_bind (s64 (b + copied)) (\<lambda>b. c_bind (s64 (k + 1)) (\<lambda>k.
        c_bind (c_lib (sys_close (int n))) (\<lambda>_. c_val (b, k))))))
    (snap_inv u opts f fd fs i wi (c + uint (o_mod opts))) (snap_bail f fd wi) (\<lambda>_ _. False) w1"
proof -
  have ok: "opts_ok opts" "offs_ok fs" and room: "u \<or> roomy opts fs" and st: "stats_ok opts c b k"
    using inv by (simp_all add: snap_inv_def)
  have ji: "j \<noteq> i" using inv nj by (auto simp: snap_inv_def)
  obtain pos where pos: "fd_reg wi fd i True True pos" using inv by (auto simp: snap_inv_def)
  note cf = chunk_facts [OF ok sel] and clip = region_clip_chunk [OF ok sel, folded e_def]
  let ?s = "chunk_start opts c"
  let ?a = "nat ?s" and ?len = "e - ?s"
  have nfd: "int n \<noteq> fd" using pos new by (auto simp: fd_reg_def)
  have fd: "fd_reg w1 fd i True True pos" "fd_reg w1 (int n) j False True 0"
    using pos nfd tab by (auto simp: fd_reg_def new_ofd_def)
  have undo: "((fd_get (fds wi))(int n := x))(int n := None) = fd_get (fds wi)" for x
    using new by (auto simp: fun_eq_iff)
  show ?thesis
  proof (rule sys_cfr_cases [of w1 fd i True pos "int n" j False 0 ?len "Some ?s" ?a None 0, OF fd])
    fix er assume r: "sys_cfr fd (Some ?s) (int n) None ?len w1 = (-1, (pop_fault w1)\<lparr>errno_of := er\<rparr>)"
    have "snap_bail f fd wi EXIT_IO w3"
      if "sys_close fd ((pop_fault w1)\<lparr>errno_of := er\<rparr>) = (r2, w2)" "sys_close (int n) w2 = (r3, w3)" for r2 w2 r3 w3
    proof -
      have "fd_get (fds w3) = (fd_get (fds wi))(fd := None)"
        using fd_get_close [OF that(1)] fd_get_close [OF that(2)] tab new nfd by (auto simp: fun_eq_iff)
      then show ?thesis
        using kept snap_kept_close [OF that(1)] snap_kept_close [OF that(2)] by (simp add: snap_bail_def)
    qed
    then show ?thesis by (simp add: wp_lib r split: prod.split)
  next
    fix m t assume r: "sys_cfr fd (Some ?s) (int n) None ?len w1 = (int m, (cfr_transfer i ?a j 0 m (pop_fault w1))\<lparr>fds := t\<rparr>)"
      and m: "m \<le> cfr_count w1 i ?a ?len"
      and t: "\<And>x. (x = fd \<Longrightarrow> Some ?s \<noteq> None) \<Longrightarrow> (x = int n \<Longrightarrow> None \<noteq> None) \<Longrightarrow> fd_get t x = fd_get (fds w1) x"
    let ?w2 = "(cfr_transfer i ?a j 0 m (pop_fault w1))\<lparr>fds := t\<rparr>"
    have mm: "int m \<le> o_chunk_size opts"
      using m clip(1,2,5) by (auto simp: cfr_count_def in_s64_def)
    have kept2: "snap_kept f wi ?w2"
      using snap_kept_write [of f wi "pop_fault w1" j] kept nj by (simp add: cfr_transfer_def)
    obtain x where x: "fd_get t = (fd_get (fds wi))(int n := x)"
    proof
      show "fd_get t = (fd_get (fds wi))(int n := fd_get t (int n))" using t tab by (auto simp: fun_eq_iff)
    qed
    have fin: "snap_inv u opts f fd fs i wi (c + uint (o_mod opts)) (b + int m, k + 1) w3"
      if "sys_close (int n) ?w2 = (r3, w3)" for r3 w3
    proof -
      have "fd_get (fds w3) = fd_get (fds wi)" using fd_get_close [OF that] x undo by simp
      then show ?thesis
        using inv stats_ok_add [OF ok(1) st _ mm] kept2 snap_kept_close [OF that] by (simp add: snap_inv_def)
    qed
    have "u \<or> in_s64 (b + int m) \<and> in_s64 (k + 1)"
      by (rule stats_fit [OF ok room sel st _ mm]) simp
    with fin show ?thesis by (auto simp: wp_lib r split: prod.split)
  qed (use cf clip ji ok in \<open>auto simp: pos_of_def in_s64_def\<close>)
qed

text \<open>From opening the snapshot file on.\<close>

lemma snap_open_wp:
  assumes inv: "snap_inv u opts f fd fs i wi c (b, k) w" and sel: "selected opts c" "c < n_chunks opts fs"
    and k1: "snap_kept f wi w1" and t1: "fd_get (fds w1) = fd_get (fds wi)"
  defines "s \<equiv> chunk_start opts c" and "e \<equiv> region_clip opts (chunk_start opts c + o_chunk_size opts)"
  assumes name: "snap_name f wi (resolve (cwd w1) (snapshot_path f s e))"
  shows "wp u (c_bind (c_lib (sys_open (snapshot_path f s e) O_CREAT_WRONLY)) (\<lambda>dest_fd.
      if dest_fd = -1 then c_return EXIT_IO
      else c_bind (s64 (e - s)) (\<lambda>len. c_bind (c_lib (sys_cfr fd (Some s) dest_fd None len)) (\<lambda>copied.
        if copied = -1 then
          c_bind (c_lib (sys_close fd)) (\<lambda>_. c_bind (c_lib (sys_close dest_fd)) (\<lambda>_. c_return EXIT_IO))
        else
          c_bind (s64 (b + copied)) (\<lambda>b. c_bind (s64 (k + 1)) (\<lambda>k.
          c_bind (c_lib (sys_close dest_fd)) (\<lambda>_. c_val (b, k))))))))
    (snap_inv u opts f fd fs i wi (c + uint (o_mod opts))) (snap_bail f fd wi) (\<lambda>_ _. False) w1"
proof -
  have ok: "opts_ok opts" "offs_ok fs" using inv by (simp_all add: snap_inv_def)
  note clip = region_clip_chunk [OF ok sel, folded e_def s_def]
  let ?p = "snapshot_path f s e"
  note run = snap_copy_wp [OF inv sel, folded e_def s_def]
  have tab: "fd_get (fds wi) (int n) = None \<and> fd_get t = (fd_get (fds wi))(int n := Some (new_ofd (Reg j) O_CREAT_WRONLY))"
    if "fd_alloc (fds w1) (new_ofd (Reg j) O_CREAT_WRONLY) = (n, t)" for n j t
    using fdt.alloc_fresh [OF that] fdt.get_alloc [OF that] t1 by simp
  show ?thesis
  proof (rule sys_open_creat [of ?p w1])
    fix er assume "sys_open ?p O_CREAT_WRONLY w1 = (-1, (pop_fault w1)\<lparr>errno_of := er\<rparr>)"
    with k1 t1 show ?thesis by (simp add: wp_lib snap_bail_def)
  next
    fix n t j assume r: "sys_open ?p O_CREAT_WRONLY w1 = (int n, (pop_fault w1)\<lparr>fds := t\<rparr>)"
      and j: "nodes w1 (resolve (cwd w1) ?p) = Some (Reg j)"
      and a: "fd_alloc (fds w1) (new_ofd (Reg j) O_CREAT_WRONLY) = (n, t)"
    have "snap_name f w1 = snap_name f wi" by (rule snap_name_cong) (use k1 in \<open>simp add: snap_kept_def\<close>)
    with name have "snap_name f w1 (resolve (cwd w1) ?p)" by simp
    with k1 j have "\<not> snap_env f j wi" unfolding snap_kept_def snap_env_def by blast
    with run [OF _ _ _ this, of _ n] tab [OF a] k1 show ?thesis using clip(5) by (simp add: wp_lib r)
  next
    fix n t assume r: "sys_open ?p O_CREAT_WRONLY w1 =
        (int n, (pop_fault w1)\<lparr>nodes := (nodes w1)(resolve (cwd w1) ?p \<mapsto> Reg (next_ino w1)),
           inodes := (inodes w1)(next_ino w1 := []), next_ino := Suc (next_ino w1), fds := t\<rparr>)"
      and a: "fd_alloc (fds w1) (new_ofd (Reg (next_ino w1)) O_CREAT_WRONLY) = (n, t)"
    have "\<not> snap_env f (next_ino w1) wi" using k1 by (auto simp: snap_kept_def snap_env_def)
    moreover have "snap_kept f wi ((pop_fault w1)\<lparr>nodes := (nodes w1)(resolve (cwd w1) ?p \<mapsto> Reg (next_ino w1)),
           inodes := (inodes w1)(next_ino w1 := []), next_ino := Suc (next_ino w1), fds := t\<rparr>)"
      using snap_kept_create [of f wi "pop_fault w1" "resolve (cwd w1) ?p"] k1 name by simp
    ultimately show ?thesis using run [of _ n "next_ino w1"] tab [OF a] clip(5) by (simp add: wp_lib r)
  qed
qed

lemma snap_body_keeps:
  assumes inv: "snap_inv u opts f fd fs i wi c s w" and sel: "selected opts c" "c < n_chunks opts fs"
  shows "wp u (snap_body opts f fd c s) (snap_inv u opts f fd fs i wi (c + uint (o_mod opts)))
    (snap_bail f fd wi) (\<lambda>_ _. False) w"
proof -
  obtain b k where s: "s = (b, k)" by force
  have ok: "opts_ok opts" "offs_ok fs" and room: "u \<or> roomy opts fs"
    and kept: "snap_kept f wi w" and tab: "fd_get (fds w) = fd_get (fds wi)"
    using inv by (simp_all add: snap_inv_def s)
  note cf = chunk_facts [OF ok sel] and clip = region_clip_chunk [OF ok sel]
  let ?s = "chunk_start opts c" and ?e = "region_clip opts (chunk_start opts c + o_chunk_size opts)"
  let ?p = "snapshot_path f ?s ?e"
  have "in_s64 ?s" "in_s64 ?e" using cf clip ok(2) by (auto simp: in_s64_def offs_ok_def)
  then have name: "snap_name f wi (resolve (cwd w) ?p)" using kept by (auto simp: snap_kept_def snap_name_def)
  note op = snap_open_wp [OF inv [unfolded s] sel]
  note chunk_sum_fits [OF ok room sel]
  moreover have "wp u (c_bind (c_lib (sys_unlink ?p)) (\<lambda>err. c_bind (c_gets errno_of) (\<lambda>errno.
      if err \<noteq> 0 \<and> errno \<noteq> ENOENT then c_return EXIT_IO
      else c_bind (c_lib (sys_open ?p O_CREAT_WRONLY)) (\<lambda>dest_fd.
      if dest_fd = -1 then c_return EXIT_IO
      else c_bind (s64 (?e - ?s)) (\<lambda>len. c_bind (c_lib (sys_cfr fd (Some ?s) dest_fd None len)) (\<lambda>copied.
        if copied = -1 then
          c_bind (c_lib (sys_close fd)) (\<lambda>_. c_bind (c_lib (sys_close dest_fd)) (\<lambda>_. c_return EXIT_IO))
        else
          c_bind (s64 (b + copied)) (\<lambda>b. c_bind (s64 (k + 1)) (\<lambda>k.
          c_bind (c_lib (sys_close dest_fd)) (\<lambda>_. c_val (b, k))))))))))
      (snap_inv u opts f fd fs i wi (c + uint (o_mod opts))) (snap_bail f fd wi) (\<lambda>_ _. False) w"
  proof (rule sys_unlink_cases [of ?p w])
    fix er assume "sys_unlink ?p w = (-1, (pop_fault w)\<lparr>errno_of := er\<rparr>)"
    with op [of "(pop_fault w)\<lparr>errno_of := er\<rparr>"] kept tab name show ?thesis
      by (cases "er = ENOENT") (simp_all add: wp_lib snap_bail_def)
  next
    assume "sys_unlink ?p w = (0, (pop_fault w)\<lparr>nodes := (nodes w)(resolve (cwd w) ?p := None)\<rparr>)"
    with op [of "(pop_fault w)\<lparr>nodes := (nodes w)(resolve (cwd w) ?p := None)\<rparr>"] kept tab name
      snap_kept_unlink [of f wi "pop_fault w", OF _ name] show ?thesis
      by (simp add: wp_lib)
  qed
  ultimately show ?thesis
    unfolding s snap_body_def
    using clip(5) by (auto simp: Let_def wp_chunk_offset [OF ok(1) cf(1) sel(2) ok(2)] cong: if_cong)
qed

interpretation snap_mode: chunk_mode u opts "n_chunks opts fs" "snap_body opts f fd"
    "snap_inv u opts f fd fs i wi" "snap_bail f fd wi" for u opts f fd fs i wi
proof unfold_locales
  fix c s w assume "snap_inv u opts f fd fs i wi c s w"
  then have "opts_ok opts" and "offs_ok fs" and "u \<or> roomy opts fs"
    by (auto simp: snap_inv_def)
  then show "opts_ok opts \<and> (u \<or> n_chunks opts fs + 2 ^ 32 \<le> LLONG_MAX)"
    using n_chunks_bound [of opts fs] by (auto simp: roomy_def offs_ok_def)
qed (rule snap_body_keeps)

text \<open>What the mode can change: names of snapshots, missing directories, and the bytes of snapshots.\<close>

definition snap_effect :: "string \<Rightarrow> os \<Rightarrow> os \<Rightarrow> bool" where
  "snap_effect f w w' \<longleftrightarrow> (\<forall>k. snap_env f k w \<longrightarrow> inodes w' k = inodes w k) \<and>
     (\<forall>p. \<not> snap_name f w p \<longrightarrow> nodes w' p = nodes w p \<or> nodes w p = None \<and> nodes w' p = Some Dir)"

lemma snap_effect_printed [simp]: "snap_effect f w (w'\<lparr>printed := p\<rparr>) = snap_effect f w w'"
  by (simp add: snap_effect_def)

definition snap_post :: "string \<Rightarrow> int \<Rightarrow> os \<Rightarrow> int \<Rightarrow> os \<Rightarrow> bool" where
  "snap_post f fd w v w' \<longleftrightarrow> cwd w' = cwd w \<and> snap_effect f w w' \<and>
     (v = EXIT_OK \<and> fd_get (fds w') = fd_get (fds w) \<or>
      v = EXIT_IO \<and> (fd_get (fds w') = fd_get (fds w) \<or> fd_get (fds w') = (fd_get (fds w))(fd := None)))"

lemma snap_env_dirs: "adds_dirs w w1 \<Longrightarrow> snap_env f k w \<Longrightarrow> snap_env f k w1"
  using snap_name_cong [of w1 w f] unfolding snap_env_def adds_dirs_def by (metis node.distinct(1) option.inject)

lemma snap_kept_after:
  assumes "adds_dirs w w1" and "snap_kept f w1 w'"
  shows "snap_effect f w w'" "cwd w' = cwd w"
  using assms snap_name_cong [of w1 w f] snap_env_dirs [OF assms(1), of f]
  by (auto simp: adds_dirs_def snap_kept_def snap_effect_def)

lemma wp_corrupt_snapshot:
  assumes ok: "opts_ok opts" "offs_ok fs" and room: "u \<or> roomy opts fs" and ff: "o_file opts = Str f"
    and fd: "fd_reg w fd i True True pos" and len: "int (length (inodes w i)) = fs" and env: "snap_env f i w"
  shows "wp u (corrupt_snapshot opts fd fs (n_chunks opts fs)) (snap_post f fd w) R (\<lambda>_ _. False) w"
proof -
  obtain r w1 where mk: "mkdir_p (dirname (snapshot_path f 0 0)) w = Some (r, w1)"
    using mkdir_p_ends [OF dirname_root [OF snapshot_path_root]] by blast
  then have dirs: "adds_dirs w w1" using mkdir_p_adds by fastforce
  have env1: "snap_env f i w1" using snap_env_dirs [OF dirs env] .
  have init: "snap_inv u opts f fd fs i w1 (uint (o_index opts)) (0, 0) w1"
    using ok room fd len dirs stats_ok_init [OF ok(1)] snap_kept_refl env1
    by (auto simp: snap_inv_def adds_dirs_def fd_reg_def)
  have "wp u (for_chunks opts (n_chunks opts fs) (snap_body opts f fd) (0, 0))
      (\<lambda>(b, n). wp u (c_bind (c_modify (lib_puts (''Snapshot '' @ show_int n @ '' chunks ('' @
             show_int b @ '' bytes)''))) (\<lambda>_. c_val EXIT_OK)) (snap_post f fd w) (snap_post f fd w) (\<lambda>_ _. False))
      (snap_bail f fd w1) (\<lambda>_ _. False) w1"
  proof (rule snap_mode.wp_loop [OF init])
    fix c s w' assume "snap_inv u opts f fd fs i w1 c s w'"
    then have "snap_kept f w1 w'" "fd_get (fds w') = fd_get (fds w)"
      using dirs by (auto simp: snap_inv_def adds_dirs_def)
    with snap_kept_after [OF dirs this(1)]
    show "(case s of (b, n) \<Rightarrow> wp u (c_bind (c_modify (lib_puts (''Snapshot '' @ show_int n @ '' chunks ('' @
             show_int b @ '' bytes)''))) (\<lambda>_. c_val EXIT_OK)) (snap_post f fd w) (snap_post f fd w) (\<lambda>_ _. False)) w'"
      by (simp add: snap_post_def lib_puts_def split: prod.split)
  qed
  moreover have "snap_post f fd w v w'" if "snap_bail f fd w1 v w'" for v w'
    using that snap_kept_after [OF dirs, of f w'] dirs by (auto simp: snap_bail_def snap_post_def adds_dirs_def)
  moreover have "snap_post f fd w EXIT_IO w1"
    using snap_kept_after [OF dirs snap_kept_refl] dirs by (simp add: snap_post_def adds_dirs_def)
  ultimately show ?thesis
    unfolding corrupt_snapshot_def c_str_def ff
    by (simp add: wp_option mk split_def) (auto elim!: wp_mono)
qed

section \<open>Properties\<close>

text \<open>C16: Taking snapshots, for every fault plan: the mode ends without undefined behaviour and
  changes neither the file itself nor any other file that is not one of its snapshots.  The only names that can change are snapshot names of this file and
  directories that were missing.  The descriptor table is as before, except that an I/O error in a
  copy closes the file's descriptor.\<close>

theorem snapshot_keeps_file:
  assumes "opts_ok opts" and "roomy opts fs" and "o_file opts = Str f"
    and "fd_reg w fd i True True pos" and "fs = int (length (inodes w i))"
    and "i < next_ino w" and "\<forall>a b. in_s64 a \<and> in_s64 b \<longrightarrow> nodes w (resolve (cwd w) (snapshot_path f a b)) \<noteq> Some (Reg i)"
  shows "\<exists>v w'. corrupt_snapshot opts fd fs (n_chunks opts fs) w = Val v w' \<and>
    (\<forall>k. k < next_ino w \<and> (\<forall>a b. in_s64 a \<and> in_s64 b \<longrightarrow> nodes w (resolve (cwd w) (snapshot_path f a b)) \<noteq> Some (Reg k)) \<longrightarrow>
       inodes w' k = inodes w k) \<and>
    (\<forall>p. (\<forall>a b. in_s64 a \<and> in_s64 b \<longrightarrow> p \<noteq> resolve (cwd w) (snapshot_path f a b)) \<longrightarrow>
       nodes w' p = nodes w p \<or> nodes w p = None \<and> nodes w' p = Some Dir) \<and>
    (v = EXIT_OK \<and> fd_get (fds w') = fd_get (fds w) \<or>
     v = EXIT_IO \<and> (fd_get (fds w') = fd_get (fds w) \<or> fd_get (fds w') = (fd_get (fds w))(fd := None)))"
proof -
  have "offs_ok fs"
    using assms(2,5) opts_okD(4) [OF assms(1)] by (simp add: offs_ok_def roomy_def)
  moreover have env: "snap_env f k w \<longleftrightarrow> k < next_ino w \<and>
      (\<forall>a b. in_s64 a \<and> in_s64 b \<longrightarrow> nodes w (resolve (cwd w) (snapshot_path f a b)) \<noteq> Some (Reg k))" for k
    by (auto simp: snap_env_def snap_name_def)
  ultimately have "wp False (corrupt_snapshot opts fd fs (n_chunks opts fs)) (snap_post f fd w) (\<lambda>_ _. False) (\<lambda>_ _. False) w"
    using assms by (intro wp_corrupt_snapshot) auto
  then obtain v w' where "corrupt_snapshot opts fd fs (n_chunks opts fs) w = Val v w'" "snap_post f fd w v w'"
    by (rule wp_totalD)
  then show ?thesis unfolding snap_post_def snap_effect_def env unfolding snap_name_def by blast
qed

theorem snapshot_keeps_file_witness:
  "\<exists>v w'. corrupt_snapshot sample_opts 0 8 4 (sample_os [1, 2, 3, 4, 5, 6, 7, 8] [Some (new_ofd (Reg 0) O_RDWR)]) = Val v w' \<and>
     inodes w' 0 = [1, 2, 3, 4, 5, 6, 7, 8]"
proof -
  let ?w = "sample_os [1, 2, 3, 4, 5, 6, 7, 8] [Some (new_ofd (Reg 0) O_RDWR)]"
  have len: "8 = int (length (inodes ?w 0))" and ff: "o_file sample_opts = Str ''/f''" by (simp_all add: sample_opts_def)
  have no: "nodes ?w (resolve (cwd ?w) (snapshot_path ''/f'' a b)) \<noteq> Some (Reg 0)" if "in_s64 a" "in_s64 b" for a b
  proof -
    have "canonical [''f'']" "path_string [''f''] = ''/f''" by (simp_all add: canonical_def plain_def path_string_def)
    then have "resolve (cwd ?w) (snapshot_path ''/f'' a b) = snapshot_at [''f''] a b"
      using snapshot_path_plain [of "[''f'']" a b] that by (simp add: resolve_plain)
    then show ?thesis by (simp add: sample_os_def snapshot_at_def comps_def split_SNAPSHOT_DIR)
  qed
  from snapshot_keeps_file [OF sample_opts_ok(1,2) ff sample_fd_reg len _]
  show ?thesis unfolding sample_opts_ok sample_os_simps using no by auto
qed

end
