(* ===== verification/CF_Restore.thy ===== *)
theory CF_Restore
  imports CF_Snapshot
begin

text \<open>
  The restore mode of \<open>corrupt-file.c\<close>: with the given probability it looks for the snapshot of
  each selected chunk and copies it back.

  The lemmas establish that, whatever the system calls return, the mode changes only bytes of
  selected chunks and bytes beyond the old end of the file up to the end of the region, and no
  other file; \<open>restore_mode\<close> interprets the loop contract of \<open>CF_Loop\<close> on its body.
\<close>

section \<open>The restore mode\<close>

text \<open>
  The variable \<open>end\<close> lives across iterations: it is advanced from its last value, not
  computed from the start of the chunk.
\<close>

definition restore_body :: "opts_t \<Rightarrow> int \<Rightarrow> int \<Rightarrow> int \<times> int \<times> int \<Rightarrow> (os, int \<times> int \<times> int) prog" where
  "restore_body opts fd chunk = (\<lambda>(end_off, bytes_restored, chunks_restored).
     c_bind (c_lib lib_drand48) (\<lambda>r.
     if d_less (o_probability opts) r then c_val (end_off, bytes_restored, chunks_restored)
     else
       c_bind (chunk_offset opts chunk) (\<lambda>start.
       c_bind (s64 (end_off + o_chunk_size opts)) (\<lambda>end0.
       c_bind (c_str (o_file opts)) (\<lambda>file.
       let end1 = region_clip opts end0; snapshot = snapshot_path file start end1 in
       c_bind (c_lib (sys_open snapshot O_RDONLY)) (\<lambda>source_fd.
       c_bind (c_gets errno_of) (\<lambda>errno.
       if source_fd = -1 then
         if errno = ENOENT then c_val (end1, bytes_restored, chunks_restored) else c_return EXIT_IO
       else
         c_bind (s64 (end1 - start)) (\<lambda>len.
         c_bind (c_lib (sys_cfr source_fd None fd (Some start) len)) (\<lambda>copied.
         if copied = -1 then
           c_bind (c_lib (sys_close source_fd)) (\<lambda>_.
           c_bind (c_lib (sys_close fd)) (\<lambda>_. c_return EXIT_IO))
         else
           c_bind (s64 (bytes_restored + copied)) (\<lambda>b.
           c_bind (s64 (chunks_restored + 1)) (\<lambda>n.
           c_bind (c_lib (sys_close source_fd)) (\<lambda>_. c_val (end1, b, n)))))))))))))"

definition corrupt_restore :: "opts_t \<Rightarrow> int \<Rightarrow> int \<Rightarrow> int \<Rightarrow> (os, int) prog" where
  "corrupt_restore opts fd file_size count =
     c_call
       (c_bind (for_chunks opts count (restore_body opts fd) (0, 0, 0))
          (\<lambda>(_, bytes_restored, chunks_restored).
        c_bind (c_modify (lib_puts (''Restored '' @ show_int chunks_restored @ '' chunks ('' @
          show_int bytes_restored @ '' bytes)''))) (\<lambda>_.
        c_val EXIT_OK)))"

section \<open>What it can change\<close>

text \<open>
  Contents that may have grown, and otherwise differ at positions in \<open>S\<close> only.
\<close>

definition grown_off :: "nat set \<Rightarrow> byte list \<Rightarrow> byte list \<Rightarrow> bool" where
  "grown_off S xs ys \<longleftrightarrow> length xs \<le> length ys \<and> (\<forall>k < length xs. k \<notin> S \<longrightarrow> ys ! k = xs ! k)"

lemma grown_off_refl [simp, intro]: "grown_off S xs xs"
  by (simp add: grown_off_def)

lemma grown_off_mono: "grown_off S xs ys \<Longrightarrow> S \<subseteq> T \<Longrightarrow> grown_off T xs ys"
  by (auto simp: grown_off_def)

lemma grown_off_write:
  assumes "grown_off S xs ys" and "\<And>k. off \<le> k \<Longrightarrow> k < off + length bs \<Longrightarrow> k < length xs \<Longrightarrow> k \<in> S"
  shows "grown_off S xs (write_at ys off bs)"
proof -
  have "write_at ys off bs ! k = ys ! k" if "k < length xs" "k \<notin> S" for k
  proof (rule nth_write_at_outside)
    show "k < length ys" using assms(1) that(1) by (simp add: grown_off_def)
    show "k < off \<or> off + length bs \<le> k" using assms(2) that by (meson not_less)
  qed
  with assms(1) show ?thesis by (auto simp: grown_off_def length_write_at)
qed

text \<open>
  How long the file may become: to the end of the region, and to one chunk past its old end,
  before which the last chunk starts.
\<close>

definition restore_limit :: "opts_t \<Rightarrow> int \<Rightarrow> int" where
  "restore_limit opts fs = max fs (min (o_end opts) (fs + o_chunk_size opts))"

lemma restore_limit_ge [simp, intro]: "fs \<le> restore_limit opts fs"
  by (simp add: restore_limit_def)

text \<open>
  Before chunk \<open>c\<close> the accumulated end lies at or below the distance of chunk \<open>c\<close> from the
  start of the region, so that the bytes restored into a chunk never reach the next one.
\<close>

definition restore_inv :: "bool \<Rightarrow> opts_t \<Rightarrow> int \<Rightarrow> int \<Rightarrow> nat \<Rightarrow> os \<Rightarrow> int \<Rightarrow> int \<times> int \<times> int \<Rightarrow> os \<Rightarrow> bool" where
  "restore_inv u opts fd fs i wi c = (\<lambda>(e, b, n) w.
     opts_ok opts \<and> offs_ok fs \<and> (u \<or> roomy opts fs) \<and> (\<exists>f. o_file opts = Str f) \<and>
     (\<exists>pos. fd_reg wi fd i True True pos) \<and> int (length (inodes wi i)) = fs \<and>
     0 \<le> e \<and> e \<le> c * o_chunk_size opts \<and> stats_ok opts c b n \<and>
     touches i wi w \<and> fd_get (fds w) = fd_get (fds wi) \<and>
     grown_off (selected_bytes opts fs) (inodes wi i) (inodes w i) \<and>
     int (length (inodes w i)) \<le> restore_limit opts fs)"

definition restore_bail :: "opts_t \<Rightarrow> int \<Rightarrow> int \<Rightarrow> nat \<Rightarrow> os \<Rightarrow> int \<Rightarrow> os \<Rightarrow> bool" where
  "restore_bail opts fd fs i wi v w \<longleftrightarrow>
     v = EXIT_IO \<and> touches i wi w \<and> grown_off (selected_bytes opts fs) (inodes wi i) (inodes w i) \<and>
     int (length (inodes w i)) \<le> restore_limit opts fs \<and>
     (fd_get (fds w) = fd_get (fds wi) \<or> fd_get (fds w) = (fd_get (fds wi))(fd := None))"

lemma restore_inv_pass:
  assumes inv: "restore_inv u opts fd fs i wi c (e, b, n) w"
    and e: "0 \<le> e'" "e' \<le> (c + 1) * o_chunk_size opts"
    and w: "inodes w' = inodes w" "touches i wi w'" "fd_get (fds w') = fd_get (fds wi)"
  shows "restore_inv u opts fd fs i wi (c + uint (o_mod opts)) (e', b, n) w'"
proof -
  have ok: "opts_ok opts" using inv by (simp add: restore_inv_def)
  have m: "0 < uint (o_mod opts)" using opts_okD(6) [OF ok] by (auto intro: le_less_trans [OF uint_ge_0])
  have "(c + 1) * o_chunk_size opts \<le> (c + uint (o_mod opts)) * o_chunk_size opts"
    using m opts_okD(4) [OF ok] by (intro mult_right_mono) auto
  with inv e w stats_ok_skip [OF ok] show ?thesis by (auto simp: restore_inv_def)
qed

text \<open>The end of the piece that is restored into chunk \<open>c\<close>.\<close>

lemma restore_end:
  assumes ok: "opts_ok opts" "offs_ok fs" and sel: "selected opts c" "c < n_chunks opts fs"
    and e: "0 \<le> e" "e \<le> c * o_chunk_size opts"
  defines "e' \<equiv> region_clip opts (e + o_chunk_size opts)"
  shows "0 \<le> e'" "e' \<le> (c + 1) * o_chunk_size opts" "e' \<le> o_end opts"
    "e' - chunk_start opts c \<le> o_chunk_size opts" "in_s64 (e' - chunk_start opts c)"
    "chunk_start opts c + (e' - chunk_start opts c) \<le> o_end opts"
    "roomy opts fs \<Longrightarrow> in_s64 (e + o_chunk_size opts)"
proof -
  note f = chunk_facts [OF ok sel] and o = opts_okD [OF ok(1)]
  show "0 \<le> e'" "e' \<le> (c + 1) * o_chunk_size opts" "e' \<le> o_end opts"
    using e o by (auto simp: e'_def region_clip_def distrib_right)
  then show "e' - chunk_start opts c \<le> o_chunk_size opts" "in_s64 (e' - chunk_start opts c)"
    "chunk_start opts c + (e' - chunk_start opts c) \<le> o_end opts"
    using f o ok(2) by (auto simp: chunk_start_def in_s64_def offs_ok_def distrib_right)
  have "c * o_chunk_size opts < fs" using f(3,6) o(1) by (simp add: chunk_start_def)
  then show "roomy opts fs \<Longrightarrow> in_s64 (e + o_chunk_size opts)"
    using e o(4) by (auto simp: roomy_def in_s64_def)
qed

text \<open>A piece of at most one chunk, written at the start of chunk \<open>c\<close>.\<close>

lemma restore_inv_write:
  assumes inv: "restore_inv u opts fd fs i wi c (e, b, n) w" and sel: "selected opts c" "c < n_chunks opts fs"
    and m: "int (length bs) \<le> m" "m \<le> o_chunk_size opts" "chunk_start opts c + m \<le> o_end opts"
    and e: "0 \<le> e'" "e' \<le> (c + 1) * o_chunk_size opts" and m0: "0 \<le> m'" "m' \<le> o_chunk_size opts"
    and w': "inodes w' = (inodes w)(i := write_at (inodes w i) (nat (chunk_start opts c)) bs)"
      "touches i wi w'" "fd_get (fds w') = fd_get (fds wi)"
  shows "restore_inv u opts fd fs i wi (c + uint (o_mod opts)) (e', b + m', n + 1) w'"
proof -
  have ok: "opts_ok opts" "offs_ok fs" and len: "int (length (inodes wi i)) = fs"
    and st: "stats_ok opts c b n"
    and grown: "grown_off (selected_bytes opts fs) (inodes wi i) (inodes w i)"
    and bound: "int (length (inodes w i)) \<le> restore_limit opts fs"
    using inv by (simp_all add: restore_inv_def)
  note f = chunk_facts [OF ok sel]
  have mod: "0 < uint (o_mod opts)" using opts_okD(6) [OF ok(1)] by (auto intro: le_less_trans [OF uint_ge_0])
  have "(c + 1) * o_chunk_size opts \<le> (c + uint (o_mod opts)) * o_chunk_size opts"
    using mod opts_okD(4) [OF ok(1)] by (intro mult_right_mono) auto
  moreover have "grown_off (selected_bytes opts fs) (inodes wi i) (inodes w' i)"
    unfolding w'(1) fun_upd_same
  proof (rule grown_off_write [OF grown])
    fix k assume "nat (chunk_start opts c) \<le> k" "k < nat (chunk_start opts c) + length bs" "k < length (inodes wi i)"
    then have "k \<in> chunk_bytes opts fs c"
      using f m len by (auto simp: chunk_bytes_def chunk_end_def region_end_def)
    with sel show "k \<in> selected_bytes opts fs" by (auto simp: selected_bytes_def)
  qed
  moreover have "int (length (inodes w' i)) \<le> restore_limit opts fs"
    using bound m f by (auto simp: w'(1) length_write_at restore_limit_def)
  ultimately show ?thesis
    using inv e w' stats_ok_add [OF ok(1) st m0] by (auto simp: restore_inv_def)
qed

text \<open>Copying from an open snapshot into the chunk and closing the snapshot.\<close>

lemma restore_copy_wp:
  assumes inv: "restore_inv u opts fd fs i wi c (e, b, n) w" and sel: "selected opts c" "c < n_chunks opts fs"
    and new: "fd_get (fds wi) (int k) = None" and w1: "inodes w1 = inodes w" "touches i wi w1"
    and tab: "fd_get (fds w1) = (fd_get (fds wi))(int k := Some (new_ofd nd O_RDONLY))"
  defines "e' \<equiv> region_clip opts (e + o_chunk_size opts)"
  shows "wp u (c_bind (c_lib (sys_cfr (int k) None fd (Some (chunk_start opts c)) (e' - chunk_start opts c))) (\<lambda>copied.
      if copied = -1 then
        c_bind (c_lib (sys_close (int k))) (\<lambda>_. c_bind (c_lib (sys_close fd)) (\<lambda>_. c_return EXIT_IO))
      else
        c_bind (s64 (b + copied)) (\<lambda>b. c_bind (s64 (n + 1)) (\<lambda>n.
        c_bind (c_lib (sys_close (int k))) (\<lambda>_. c_val (e', b, n))))))
    (restore_inv u opts fd fs i wi (c + uint (o_mod opts))) (restore_bail opts fd fs i wi) (\<lambda>_ _. False) w1"
proof -
  have ok: "opts_ok opts" "offs_ok fs" and room: "u \<or> roomy opts fs" and st: "stats_ok opts c b n"
    and e: "0 \<le> e" "e \<le> c * o_chunk_size opts"
    using inv by (simp_all add: restore_inv_def)
  note re = restore_end [OF ok sel e, folded e'_def] and f = chunk_facts [OF ok sel]
  obtain pos g where g: "fd_get (fds wi) fd = Some g" "of_node g = Reg i"
    using inv by (auto simp: restore_inv_def fd_reg_def)
  have kfd: "int k \<noteq> fd" using g new by auto
  let ?s = "chunk_start opts c" and ?f = "new_ofd nd O_RDONLY"
  have get: "fd_get (fds w1) (int k) = Some ?f" "fd_get (fds w1) fd = Some g" using tab g kfd by auto
  show ?thesis
  proof (rule sys_cfr_any [OF re(5) get g(2), of None "Some ?s"])
    fix er assume r: "sys_cfr (int k) None fd (Some ?s) (e' - ?s) w1 = (-1, (pop_fault w1)\<lparr>errno_of := er\<rparr>)"
    have "restore_bail opts fd fs i wi EXIT_IO w3"
      if "sys_close (int k) ((pop_fault w1)\<lparr>errno_of := er\<rparr>) = (r2, w2)" "sys_close fd w2 = (r3, w3)" for r2 w2 r3 w3
    proof -
      note c2 = sys_close_frame [OF that(1), of i] and c3 = sys_close_frame [OF that(2), of i]
      have "fd_get (fds w3) = (fd_get (fds wi))(fd := None)"
        using c2 c3 tab new kfd by (auto simp: fun_eq_iff)
      moreover have "touches i wi w3" using c2 c3 w1(2) by (auto intro: touches_trans)
      ultimately show ?thesis using c2 c3 w1(1) inv by (simp add: restore_bail_def restore_inv_def)
    qed
    then show ?thesis by (simp add: wp_lib r split: prod.split)
  next
    fix j m t assume m: "int m \<le> e' - ?s"
      and r: "sys_cfr (int k) None fd (Some ?s) (e' - ?s) w1 =
        (int m, (cfr_transfer j (nat (pos_of None (of_pos ?f))) i (nat (pos_of (Some ?s) (of_pos g))) m (pop_fault w1))\<lparr>fds := t\<rparr>)"
      and t: "\<And>x. (x = int k \<Longrightarrow> None \<noteq> None) \<Longrightarrow> (x = fd \<Longrightarrow> Some ?s \<noteq> None) \<Longrightarrow> fd_get t x = fd_get (fds w1) x"
    let ?w2 = "(cfr_transfer j (nat (pos_of None (of_pos ?f))) i (nat (pos_of (Some ?s) (of_pos g))) m (pop_fault w1))\<lparr>fds := t\<rparr>"
    have fin: "restore_inv u opts fd fs i wi (c + uint (o_mod opts)) (e', b + int m, n + 1) w3"
      if "sys_close (int k) ?w2 = (r3, w3)" for r3 w3
    proof (rule restore_inv_write [OF inv sel _ re(4,6,1,2), where bs = "read_at (inodes w j) (nat (pos_of None (of_pos ?f))) m"])
      note c3 = sys_close_frame [OF that, of i]
      show "fd_get (fds w3) = fd_get (fds wi)" using c3 t tab new by (auto simp: fun_eq_iff)
      show "touches i wi w3" using c3 w1(2) touches_trans [of i wi ?w2 w3] by simp
      show "inodes w3 = (inodes w)(i := write_at (inodes w i) (nat ?s) (read_at (inodes w j) (nat (pos_of None (of_pos ?f))) m))"
        using c3 w1(1) by (simp add: pos_of_def)
    qed (use m re(4) in auto)
    have "u \<or> in_s64 (b + int m) \<and> in_s64 (n + 1)"
      using m re(4) by (intro stats_fit [OF ok room sel st]) auto
    with fin show ?thesis by (auto simp: wp_lib r split: prod.split)
  qed
qed

lemma restore_body_keeps:
  assumes inv: "restore_inv u opts fd fs i wi c s w" and sel: "selected opts c" "c < n_chunks opts fs"
  shows "wp u (restore_body opts fd c s) (restore_inv u opts fd fs i wi (c + uint (o_mod opts)))
    (restore_bail opts fd fs i wi) (\<lambda>_ _. False) w"
proof -
  obtain e b n where s: "s = (e, b, n)" by (cases s)
  have ok: "opts_ok opts" "offs_ok fs" and room: "u \<or> roomy opts fs"
    and e: "0 \<le> e" "e \<le> c * o_chunk_size opts" and t: "touches i wi w" "fd_get (fds w) = fd_get (fds wi)"
    using inv by (simp_all add: restore_inv_def s)
  obtain f where ff: "o_file opts = Str f" using inv by (auto simp: restore_inv_def s)
  note inv' = inv [unfolded s] and cf = chunk_facts [OF ok sel] and re = restore_end [OF ok sel e]
  let ?s = "chunk_start opts c" and ?e = "region_clip opts (e + o_chunk_size opts)"
  let ?w = "w\<lparr>rand_st := lcg_step (rand_st w)\<rparr>" and ?p = "snapshot_path f ?s ?e"
  have k: "0 \<le> o_chunk_size opts" using opts_okD(4) [OF ok(1)] by simp
  note pass = restore_inv_pass [OF inv']
  have op: "wp u (c_bind (c_lib (sys_open ?p O_RDONLY)) (\<lambda>source_fd. c_bind (c_gets errno_of) (\<lambda>errno.
       if source_fd = -1 then if errno = ENOENT then c_val (?e, b, n) else c_return EXIT_IO
       else c_bind (s64 (?e - ?s)) (\<lambda>len.
         c_bind (c_lib (sys_cfr source_fd None fd (Some ?s) len)) (\<lambda>copied.
         if copied = -1 then
           c_bind (c_lib (sys_close source_fd)) (\<lambda>_. c_bind (c_lib (sys_close fd)) (\<lambda>_. c_return EXIT_IO))
         else c_bind (s64 (b + copied)) (\<lambda>b. c_bind (s64 (n + 1)) (\<lambda>n.
           c_bind (c_lib (sys_close source_fd)) (\<lambda>_. c_val (?e, b, n)))))))))
      (restore_inv u opts fd fs i wi (c + uint (o_mod opts))) (restore_bail opts fd fs i wi) (\<lambda>_ _. False) ?w"
  proof (rule sys_open_rdonly [of ?p ?w])
    fix er assume "sys_open ?p O_RDONLY ?w = (-1, (pop_fault ?w)\<lparr>errno_of := er\<rparr>)"
    with t pass [OF re(1,2), of "(pop_fault ?w)\<lparr>errno_of := er\<rparr>"] inv' show ?thesis
      by (auto simp: wp_lib restore_bail_def restore_inv_def)
  next
    fix k tb nd assume r: "sys_open ?p O_RDONLY ?w = (int k, (pop_fault ?w)\<lparr>fds := tb\<rparr>)"
      and a: "fd_alloc (fds ?w) (new_ofd nd O_RDONLY) = (k, tb)"
    have "fd_get (fds wi) (int k) = None" "fd_get tb = (fd_get (fds wi))(int k := Some (new_ofd nd O_RDONLY))"
      using fdt.alloc_fresh [OF a] fdt.get_alloc [OF a] t(2) by simp_all
    with t restore_copy_wp [OF inv' sel, of k "(pop_fault ?w)\<lparr>fds := tb\<rparr>" nd] re(5) show ?thesis
      by (simp add: wp_lib r)
  qed
  have "e \<le> (c + 1) * o_chunk_size opts" using e k by (simp add: distrib_right)
  then have "restore_inv u opts fd fs i wi (c + uint (o_mod opts)) (e, b, n) ?w"
    using pass [OF e(1), of ?w] t by simp
  moreover have "u \<or> in_s64 (e + o_chunk_size opts)" using room re(7) by blast
  ultimately show ?thesis
    unfolding s restore_body_def
    using op by (auto simp: wp_lib lib_drand48_def Let_def c_str_def ff
        wp_chunk_offset [OF ok(1) cf(1) sel(2) ok(2)] cong: if_cong)
qed

interpretation restore_mode: chunk_mode u opts "n_chunks opts fs" "restore_body opts fd"
    "restore_inv u opts fd fs i wi" "restore_bail opts fd fs i wi" for u opts fd fs i wi
proof unfold_locales
  fix c s w assume "restore_inv u opts fd fs i wi c s w"
  then have "opts_ok opts" and "offs_ok fs" and "u \<or> roomy opts fs"
    by (auto simp: restore_inv_def)
  then show "opts_ok opts \<and> (u \<or> n_chunks opts fs + 2 ^ 32 \<le> LLONG_MAX)"
    using n_chunks_bound [of opts fs] by (auto simp: roomy_def offs_ok_def)
qed (rule restore_body_keeps)

definition restore_post :: "opts_t \<Rightarrow> int \<Rightarrow> int \<Rightarrow> nat \<Rightarrow> os \<Rightarrow> int \<Rightarrow> os \<Rightarrow> bool" where
  "restore_post opts fd fs i w v w' \<longleftrightarrow>
     touches i w w' \<and> grown_off (selected_bytes opts fs) (inodes w i) (inodes w' i) \<and>
     int (length (inodes w' i)) \<le> restore_limit opts fs \<and>
     (v = EXIT_OK \<and> fd_get (fds w') = fd_get (fds w) \<or>
      v = EXIT_IO \<and> (fd_get (fds w') = fd_get (fds w) \<or> fd_get (fds w') = (fd_get (fds w))(fd := None)))"

lemma wp_corrupt_restore:
  assumes ok: "opts_ok opts" "offs_ok fs" and room: "u \<or> roomy opts fs" and ff: "o_file opts = Str f"
    and fd: "fd_reg w fd i True True pos" and len: "int (length (inodes w i)) = fs"
  shows "wp u (corrupt_restore opts fd fs (n_chunks opts fs)) (restore_post opts fd fs i w) R (\<lambda>_ _. False) w"
proof -
  have init: "restore_inv u opts fd fs i w (uint (o_index opts)) (0, 0, 0) w"
    using assms stats_ok_init [OF ok(1)] opts_okD(4) [OF ok(1)] by (auto simp: restore_inv_def restore_limit_def)
  have "wp u (for_chunks opts (n_chunks opts fs) (restore_body opts fd) (0, 0, 0))
      (\<lambda>(_, b, n). wp u (c_bind (c_modify (lib_puts (''Restored '' @ show_int n @ '' chunks ('' @
             show_int b @ '' bytes)''))) (\<lambda>_. c_val EXIT_OK)) (restore_post opts fd fs i w) (restore_post opts fd fs i w) (\<lambda>_ _. False))
      (restore_bail opts fd fs i w) (\<lambda>_ _. False) w"
  proof (rule restore_mode.wp_loop [OF init])
    fix c s w' assume "restore_inv u opts fd fs i w c s w'"
    then show "(case s of (_, b, n) \<Rightarrow> wp u (c_bind (c_modify (lib_puts (''Restored '' @ show_int n @ '' chunks ('' @
             show_int b @ '' bytes)''))) (\<lambda>_. c_val EXIT_OK)) (restore_post opts fd fs i w) (restore_post opts fd fs i w) (\<lambda>_ _. False)) w'"
      by (auto simp: restore_inv_def restore_post_def lib_puts_def split: prod.split)
  qed
  then show ?thesis
    unfolding corrupt_restore_def
    by (auto simp: split_def restore_bail_def restore_post_def elim!: wp_mono)
qed

section \<open>Properties\<close>

text \<open>C15: Restoring snapshots, for every fault plan, every set of snapshot files and every state of the
  random number generator: the mode ends without undefined behaviour; the bytes of the file outside
  the selected chunks are kept, as are all other files and all names; the file never shrinks, and a
  snapshot that is longer than what is left of the file extends it at most to the end of the region, and by at most one chunk.
  The descriptor table is as before, except that an I/O error in a copy closes the file's descriptor.\<close>

theorem restore_frame:
  assumes "opts_ok opts" and "roomy opts fs" and "o_file opts = Str f"
    and "fd_reg w fd i True True pos" and "fs = int (length (inodes w i))"
  shows "\<exists>v w'. corrupt_restore opts fd fs (n_chunks opts fs) w = Val v w' \<and>
    touches i w w' \<and> length (inodes w i) \<le> length (inodes w' i) \<and>
    int (length (inodes w' i)) \<le> max fs (min (o_end opts) (fs + o_chunk_size opts)) \<and>
    (\<forall>k < length (inodes w i). k \<notin> selected_bytes opts fs \<longrightarrow> inodes w' i ! k = inodes w i ! k) \<and>
    (v = EXIT_OK \<and> fd_get (fds w') = fd_get (fds w) \<or>
     v = EXIT_IO \<and> (fd_get (fds w') = fd_get (fds w) \<or> fd_get (fds w') = (fd_get (fds w))(fd := None)))"
proof -
  have "offs_ok fs"
    using assms(2,5) opts_okD(4) [OF assms(1)] by (simp add: offs_ok_def roomy_def)
  then have "wp False (corrupt_restore opts fd fs (n_chunks opts fs)) (restore_post opts fd fs i w) (\<lambda>_ _. False) (\<lambda>_ _. False) w"
    using assms by (intro wp_corrupt_restore) auto
  then show ?thesis unfolding restore_post_def grown_off_def restore_limit_def by (rule wp_totalD) blast
qed

theorem restore_frame_witness:
  "\<exists>v w'. corrupt_restore sample_opts 0 8 4 (sample_os [1, 2, 3, 4, 5, 6, 7, 8] [Some (new_ofd (Reg 0) O_RDWR)]) = Val v w' \<and>
     8 \<le> length (inodes w' 0)"
proof -
  let ?w = "sample_os [1, 2, 3, 4, 5, 6, 7, 8] [Some (new_ofd (Reg 0) O_RDWR)]"
  have len: "8 = int (length (inodes ?w 0))" and ff: "o_file sample_opts = Str ''/f''" by (simp_all add: sample_opts_def)
  from restore_frame [OF sample_opts_ok(1,2) ff sample_fd_reg len]
  show ?thesis unfolding sample_opts_ok sample_os_simps by auto
qed

end
