(* ===== verification/CF_Store.thy ===== *)
theory CF_Store
  imports CF_Restore
begin

text \<open>
  What the snapshot and restore modes promise, without a file system: a store maps the start and
  the end of a piece to its bytes.  \<open>snapshot_spec\<close> puts the piece of every selected chunk into
  it; \<open>restore_spec\<close> draws a number for each selected chunk and writes the piece it finds
  back into the file.  \<open>store_of\<close> reads the store of a file off the snapshot directory.

  On a system where no call fails the two modes refine the two functions: \<open>snapshot_refines_store\<close>
  and \<open>restore_refines_store\<close>.  For that the first section evaluates the system calls when the
  plan is empty, one lemma per mode runs one iteration of its loop, and the interpretations
  \<open>snapx_mode\<close> and \<open>restx_mode\<close> of \<open>chunk_mode\<close> carry it through the loop.
\<close>

section \<open>System calls that do not fail\<close>

lemma missing_ENOENT:
  assumes "\<And>k. k < length p \<Longrightarrow> nodes w (take k p) = Some Dir"
  shows "missing w p = ENOENT"
  using assms by (auto simp: missing_def list_ex_iff is_reg_def)

lemma sys_unlink_quiet:
  assumes "faults w = []" and "s \<noteq> []" and "resolve (cwd w) s = p"
    and "\<And>k. k < length p \<Longrightarrow> nodes w (take k p) = Some Dir" and "nodes w p \<noteq> Some Dir"
  shows "\<exists>r e. sys_unlink s w = (r, w\<lparr>nodes := (nodes w)(p := None), errno_of := e\<rparr>) \<and> (r = 0 \<or> e = ENOENT)"
proof (cases "nodes w p")
  case None
  have "missing w p = ENOENT" by (rule missing_ENOENT) (rule assms(4))
  with None assms(1-3) show ?thesis
    by (cases w) (auto simp: sys_unlink_def syscall_def do_unlink_def Let_def fail_def fun_upd_idem)
next
  case (Some nd)
  then obtain j where "nodes w p = Some (Reg j)" using assms(5) by (cases nd) auto
  with assms(1-3) show ?thesis
    by (cases w) (auto simp: sys_unlink_def syscall_def do_unlink_def Let_def)
qed

lemma sys_open_creat_quiet:
  assumes "faults w = []" and "s \<noteq> []" and "resolve (cwd w) s = p"
    and "nodes w p = None" and "nodes w (butlast p) = Some Dir"
    and "fd_alloc (fds w) (new_ofd (Reg (next_ino w)) O_CREAT_WRONLY) = (n, t)"
  shows "sys_open s O_CREAT_WRONLY w =
    (int n, w\<lparr>nodes := (nodes w)(p \<mapsto> Reg (next_ino w)), inodes := (inodes w)(next_ino w := []),
       next_ino := Suc (next_ino w), fds := t\<rparr>)"
  using assms by (simp add: sys_open_def syscall_def do_open_def open_node_def Let_def)

lemma sys_open_rdonly_quiet:
  assumes "faults w = []" and "s \<noteq> []" and "resolve (cwd w) s = p" and "nodes w p = Some (Reg j)"
    and "fd_alloc (fds w) (new_ofd (Reg j) O_RDONLY) = (n, t)"
  shows "sys_open s O_RDONLY w = (int n, w\<lparr>fds := t\<rparr>)"
  using assms by (simp add: sys_open_def syscall_def do_open_def open_node_def Let_def)

lemma sys_close_quiet:
  assumes "faults w = []"
  obtains r e t where "sys_close fd w = (r, w\<lparr>fds := t, errno_of := e\<rparr>)" "fd_get t = (fd_get (fds w))(fd := None)"
proof (cases "fd_get (fds w) fd")
  case None
  with assms have "sys_close fd w = (-1, w\<lparr>fds := fds w, errno_of := EBADF\<rparr>)" by (cases w) (simp add: sys_close_def Let_def)
  with None that show ?thesis by (metis fun_upd_idem)
next
  case (Some y)
  with assms have "sys_close fd w = (0, w\<lparr>fds := fd_free (fds w) fd, errno_of := errno_of w\<rparr>)" by (cases w) (simp add: sys_close_def Let_def)
  with that show ?thesis by (metis fdt.get_free)
qed

text \<open>A transfer between two different files moves everything that is there.\<close>

lemma sys_cfr_quiet:
  assumes "faults w = []" and fd: "fd_reg w fd i True wr p" "fd_reg w fd' j rd True q" and "i \<noteq> j"
    and pos: "pos_of off p = int a" "pos_of off' q = int b"
    and len: "0 \<le> len" "int a + len \<le> LLONG_MAX" "int b + len \<le> LLONG_MAX"
    and m: "m = min (nat len) (length (inodes w i) - a)"
  obtains t where "sys_cfr fd off fd' off' len w = (int m, (cfr_transfer i a j b m w)\<lparr>fds := t\<rparr>)"
    "\<And>x. (x = fd \<Longrightarrow> off \<noteq> None) \<Longrightarrow> (x = fd' \<Longrightarrow> off' \<noteq> None) \<Longrightarrow> fd_get t x = fd_get (fds w) x"
proof (rule sys_cfr_cases [of w fd i wr p fd' j rd q len off a off' b, OF fd])
  have w: "next_fault w = NoFault" "pop_fault w = w" using assms(1) by simp_all
  {
    fix er assume "next_fault w = Fail er \<or> LLONG_MAX < int a + len \<or> LLONG_MAX < int b + len"
    then show thesis using w len by auto
  next
    fix m' t
    assume r: "sys_cfr fd off fd' off' len w = (int m', (cfr_transfer i a j b m' (pop_fault w))\<lparr>fds := t\<rparr>)"
      and m': "next_fault w = NoFault \<Longrightarrow> m' = cfr_count w i a len"
      and t: "\<And>x. (x = fd \<Longrightarrow> off \<noteq> None) \<Longrightarrow> (x = fd' \<Longrightarrow> off' \<noteq> None) \<Longrightarrow> fd_get t x = fd_get (fds w) x"
    have "len mod 2 ^ 64 = len" using len by (intro mod_pos_pos_trivial) simp_all
    then have "m' = m" using m' [OF w(1)] m by (simp add: cfr_count_def)
    from r [unfolded this w(2)] t show thesis by (rule that)
  }
qed (use assms in auto)

text \<open>A copy between two files, one through the descriptor \<open>n\<close>, which is then closed.\<close>

lemma cfr_close_quiet:
  assumes "faults w = []" and "fd_reg w fd i True wr p" "fd_reg w fd' j rd True q" and "i \<noteq> j"
    and "pos_of off p = int a" "pos_of off' q = int b"
    and "0 \<le> len" "int a + len \<le> LLONG_MAX" "int b + len \<le> LLONG_MAX"
    and "m = min (nat len) (length (inodes w i) - a)"
    and other: "\<And>x. x \<noteq> n \<Longrightarrow> (x = fd \<longrightarrow> off \<noteq> None) \<and> (x = fd' \<longrightarrow> off' \<noteq> None)"
  obtains t r e t' where "sys_cfr fd off fd' off' len w = (int m, (cfr_transfer i a j b m w)\<lparr>fds := t\<rparr>)"
    "sys_close n ((cfr_transfer i a j b m w)\<lparr>fds := t\<rparr>) = (r, (cfr_transfer i a j b m w)\<lparr>fds := t', errno_of := e\<rparr>)"
    "fd_get t' = (fd_get (fds w))(n := None)"
proof -
  obtain t where cfr: "sys_cfr fd off fd' off' len w = (int m, (cfr_transfer i a j b m w)\<lparr>fds := t\<rparr>)"
    and t: "\<And>x. (x = fd \<Longrightarrow> off \<noteq> None) \<Longrightarrow> (x = fd' \<Longrightarrow> off' \<noteq> None) \<Longrightarrow> fd_get t x = fd_get (fds w) x"
    using sys_cfr_quiet [OF assms(1-10)] by blast
  let ?w = "(cfr_transfer i a j b m w)\<lparr>fds := t\<rparr>"
  have "faults ?w = []" using assms(1) by simp
  then obtain r e t' where close: "sys_close n ?w = (r, ?w\<lparr>fds := t', errno_of := e\<rparr>)" and t': "fd_get t' = (fd_get t)(n := None)"
    by (rule sys_close_quiet) simp
  have "fd_get t' = (fd_get (fds w))(n := None)"
    unfolding t' using t other by (auto simp: fun_eq_iff)
  with cfr close show ?thesis by (intro that) simp_all
qed

section \<open>The snapshots of a file\<close>

definition snap_dir :: "path \<Rightarrow> path" where
  "snap_dir p = comps SNAPSHOT_DIR @ butlast p"

lemma snapshot_at_dir: "butlast (snapshot_at p a b) = snap_dir p" "snapshot_at p a b \<noteq> snap_dir p"
    "snapshot_at p a b \<noteq> []" "\<not> prefix (snapshot_at p a b) (snap_dir p)"
  by (auto simp: snapshot_at_def snap_dir_def prefix_def butlast_append)

lemma take_snapshot_at: "k < length (snapshot_at p a b) \<Longrightarrow> prefix (take k (snapshot_at p a b)) (snap_dir p)"
  by (metis snapshot_at_dir(1) take_butlast take_is_prefix)

text \<open>
  The setting: a file with an absolute name that fits the path buffer, no failing call, nothing but
  directories in the way of the snapshot directory, and no directory where a snapshot goes.
\<close>

definition snap_room :: "path \<Rightarrow> os \<Rightarrow> bool" where
  "snap_room p w \<longleftrightarrow> canonical p \<and> length (path_string p) \<le> 4017 \<and> faults w = [] \<and> nodes w [] = Some Dir \<and>
     (\<forall>q. prefix q (snap_dir p) \<longrightarrow> nodes w q \<in> {None, Some Dir}) \<and>
     (\<forall>a b. nodes w (snapshot_at p a b) \<noteq> Some Dir)"

text \<open>The snapshot directory exists.\<close>

definition snap_ready :: "path \<Rightarrow> os \<Rightarrow> bool" where
  "snap_ready p w \<longleftrightarrow> canonical p \<and> length (path_string p) \<le> 4017 \<and> faults w = [] \<and>
     (\<forall>q. prefix q (snap_dir p) \<longrightarrow> nodes w q = Some Dir) \<and>
     (\<forall>a b. nodes w (snapshot_at p a b) \<noteq> Some Dir)"

text \<open>The bytes of a chunk, and the name of its snapshot.\<close>

definition chunk_limit :: "opts_t \<Rightarrow> int \<Rightarrow> int" where
  "chunk_limit opts c = region_clip opts (chunk_start opts c + o_chunk_size opts)"

definition piece :: "opts_t \<Rightarrow> byte list \<Rightarrow> int \<Rightarrow> byte list" where
  "piece opts bs c = read_at bs (nat (chunk_start opts c)) (nat (chunk_limit opts c - chunk_start opts c))"

definition snap_of :: "opts_t \<Rightarrow> path \<Rightarrow> int \<Rightarrow> path" where
  "snap_of opts p c = snapshot_at p (chunk_start opts c) (chunk_limit opts c)"

lemma snap_of_inject: "opts_ok opts \<Longrightarrow> snap_of opts p c = snap_of opts p d \<longleftrightarrow> c = d"
  using opts_okD(4) [of opts] by (auto simp: snap_of_def chunk_start_def)

section \<open>The store\<close>

type_synonym store = "int \<times> int \<Rightarrow> byte list option"

definition store_of :: "path \<Rightarrow> os \<Rightarrow> store" where
  "store_of p w = (\<lambda>(a, b). case nodes w (snapshot_at p a b) of Some (Reg j) \<Rightarrow> Some (inodes w j) | _ \<Rightarrow> None)"

lemma store_of_updates [simp]:
  "store_of p (w\<lparr>fds := t\<rparr>) = store_of p w" "store_of p (w\<lparr>errno_of := e\<rparr>) = store_of p w"
  "store_of p (w\<lparr>rand_st := x\<rparr>) = store_of p w" "store_of p (w\<lparr>printed := ps\<rparr>) = store_of p w"
  by (auto simp: store_of_def fun_eq_iff split: option.split node.split)

definition snap_step :: "opts_t \<Rightarrow> byte list \<Rightarrow> int \<Rightarrow> store \<times> int \<times> int \<Rightarrow> store \<times> int \<times> int" where
  "snap_step opts bs c = (\<lambda>(st, b, k).
     (st((chunk_start opts c, chunk_limit opts c) \<mapsto> piece opts bs c), b + int (length (piece opts bs c)), k + 1))"

definition snapshot_spec :: "opts_t \<Rightarrow> byte list \<Rightarrow> store \<Rightarrow> store \<times> int \<times> int" where
  "snapshot_spec opts bs st = fold (snap_step opts bs) (chunks_from opts (int (length bs)) 0) (st, 0, 0)"

text \<open>
  The restore mode carries the state of the generator, the end it accumulates, the bytes of the
  file and its two counters.  A piece whose name ends before it starts is an I/O error.
\<close>

type_synonym restore_state = "rng \<times> int \<times> byte list \<times> int \<times> int"

definition restore_step :: "opts_t \<Rightarrow> store \<Rightarrow> int \<Rightarrow> restore_state \<Rightarrow> restore_state option" where
  "restore_step opts st c = (\<lambda>(x, e, bs, b, k).
     let x' = lcg_step x; s = chunk_start opts c; e' = region_clip opts (e + o_chunk_size opts)
     in if d_less (o_probability opts) (Fin (of_int x' / 2 ^ 48)) then Some (x', e, bs, b, k)
        else case st (s, e') of
          None \<Rightarrow> Some (x', e', bs, b, k)
        | Some ys \<Rightarrow> if e' < s then None
            else let zs = take (nat (e' - s)) ys
                 in Some (x', e', write_at bs (nat s) zs, b + int (length zs), k + 1))"

primrec restore_fold :: "opts_t \<Rightarrow> store \<Rightarrow> int list \<Rightarrow> restore_state \<Rightarrow> byte list + restore_state" where
  "restore_fold opts st [] r = Inr r"
| "restore_fold opts st (c # cs) r = (case restore_step opts st c r of
     None \<Rightarrow> Inl (fst (snd (snd r)))
   | Some r' \<Rightarrow> restore_fold opts st cs r')"

definition restore_spec :: "opts_t \<Rightarrow> store \<Rightarrow> rng \<Rightarrow> byte list \<Rightarrow> byte list + restore_state" where
  "restore_spec opts st x bs = restore_fold opts st (chunks_from opts (int (length bs)) 0) (x, 0, bs, 0, 0)"

section \<open>One iteration of the snapshot loop\<close>

lemma snap_ready_updates [simp]:
  "snap_ready p (w\<lparr>fds := t\<rparr>) = snap_ready p w" "snap_ready p (w\<lparr>errno_of := e\<rparr>) = snap_ready p w"
  "snap_ready p (w\<lparr>rand_st := x\<rparr>) = snap_ready p w" "snap_ready p (w\<lparr>printed := ps\<rparr>) = snap_ready p w"
  by (simp_all add: snap_ready_def)

lemma snap_ready_room: "snap_ready p w \<Longrightarrow> snap_room p w"
  by (auto simp: snap_ready_def snap_room_def)

lemma snap_ready_frame:
  assumes "snap_ready p w" and "faults w' = []" and "nodes w' = (nodes w)(snapshot_at p a b := v)" and "v \<noteq> Some Dir"
  shows "snap_ready p w'"
  using assms snapshot_at_dir(4) by (auto simp: snap_ready_def)

lemma snap_room_names:
  assumes "snap_room p w" and "in_s64 a" and "in_s64 b"
  shows "resolve (cwd w) (snapshot_path (path_string p) a b) = snapshot_at p a b"
    "snapshot_path (path_string p) a b \<noteq> []"
proof -
  have "canonical p" "length (path_string p) \<le> 4017" using assms(1) by (simp_all add: snap_room_def)
  note pl = snapshot_path_plain [OF this assms(2,3)]
  show "resolve (cwd w) (snapshot_path (path_string p) a b) = snapshot_at p a b" by (simp add: resolve_plain pl)
  show "snapshot_path (path_string p) a b \<noteq> []" using pl(1) by (auto simp: plain_path_def single_root_def)
qed

lemma snap_ready_dirs:
  assumes "snap_ready p w"
  shows "nodes w (butlast (snapshot_at p a b)) = Some Dir"
    "k < length (snapshot_at p a b) \<Longrightarrow> nodes w (take k (snapshot_at p a b)) = Some Dir"
  using assms take_snapshot_at by (simp_all add: snap_ready_def snapshot_at_dir)

lemma chunk_limit_facts:
  assumes ok: "opts_ok opts" "offs_ok fs" and sel: "selected opts c" "c < n_chunks opts fs"
  shows "in_s64 (chunk_start opts c)" "in_s64 (chunk_limit opts c)" "in_s64 (chunk_limit opts c - chunk_start opts c)"
    "0 \<le> chunk_start opts c" "chunk_start opts c < chunk_limit opts c" "chunk_limit opts c \<le> LLONG_MAX"
    "chunk_limit opts c \<le> chunk_start opts c + o_chunk_size opts" "chunk_end opts fs c = min (chunk_limit opts c) fs"
  using chunk_facts [OF ok sel] region_clip_chunk [OF ok sel] ok(2)
  by (auto simp: chunk_limit_def in_s64_def offs_ok_def)

lemma read_at_min: "read_at bs a (min n (length bs - a)) = read_at bs a n"
  by (simp add: read_at_def min_def)

lemma write_at_empty [simp]: "write_at [] 0 ys = ys"
  by (simp add: write_at_def)

lemma snap_room_mkdir:
  assumes "snap_room p w"
  shows "\<exists>e. mkdir_p (dirname (snapshot_path (path_string p) 0 0)) w =
      Some (0, w\<lparr>nodes := with_dirs (snap_dir p) (nodes w), errno_of := e\<rparr>)"
    "snap_ready p (w\<lparr>nodes := with_dirs (snap_dir p) (nodes w), errno_of := e\<rparr>)"
proof -
  have p: "canonical p" "length (path_string p) \<le> 4017" using assms by (simp_all add: snap_room_def)
  have "in_s64 0" by (simp add: in_s64_def)
  note pl = snapshot_path_plain [OF p this this]
  have "comps (snapshot_path (path_string p) 0 0) \<noteq> []" by (simp add: pl(2) snapshot_at_dir)
  note dir = comps_dirname [OF pl(1) this, unfolded pl(2) snapshot_at_dir]
  have "snap_dir p \<noteq> []" by (simp add: snap_dir_def comps_def split_SNAPSHOT_DIR)
  with mkdir_p_quiet [OF dir(2), of w] dir(1) assms
  show "\<exists>e. mkdir_p (dirname (snapshot_path (path_string p) 0 0)) w =
      Some (0, w\<lparr>nodes := with_dirs (snap_dir p) (nodes w), errno_of := e\<rparr>)"
    by (auto simp: snap_room_def)
  show "snap_ready p (w\<lparr>nodes := with_dirs (snap_dir p) (nodes w), errno_of := e\<rparr>)"
    using assms snapshot_at_dir(4) by (auto simp: snap_room_def snap_ready_def with_dirs_def)
qed

text \<open>The inode numbers of the file and its snapshots are in use, and the file is no snapshot.\<close>

definition store_ok :: "path \<Rightarrow> nat \<Rightarrow> os \<Rightarrow> bool" where
  "store_ok p i w \<longleftrightarrow> i < next_ino w \<and>
     (\<forall>a b j. nodes w (snapshot_at p a b) = Some (Reg j) \<longrightarrow> j < next_ino w \<and> j \<noteq> i)"

lemma store_ok_updates [simp]:
  "store_ok p i (w\<lparr>fds := t\<rparr>) = store_ok p i w" "store_ok p i (w\<lparr>errno_of := e\<rparr>) = store_ok p i w"
  "store_ok p i (w\<lparr>rand_st := x\<rparr>) = store_ok p i w" "store_ok p i (w\<lparr>printed := ps\<rparr>) = store_ok p i w"
  by (simp_all add: store_ok_def)

text \<open>What an iteration changes: one name, one new inode.\<close>

definition snap_put :: "opts_t \<Rightarrow> path \<Rightarrow> nat \<Rightarrow> int \<Rightarrow> os \<Rightarrow> os \<Rightarrow> bool" where
  "snap_put opts p i c w w' \<longleftrightarrow> nodes w' = (nodes w)(snap_of opts p c \<mapsto> Reg (next_ino w)) \<and>
     inodes w' = (inodes w)(next_ino w := piece opts (inodes w i) c) \<and> next_ino w' = Suc (next_ino w) \<and>
     cwd w' = cwd w \<and> fd_get (fds w') = fd_get (fds w) \<and> printed w' = printed w \<and> faults w' = []"

lemma snap_put_store:
  assumes "snap_put opts p i c w w'" and "store_ok p i w"
  shows "store_of p w' = (store_of p w)((chunk_start opts c, chunk_limit opts c) \<mapsto> piece opts (inodes w i) c)"
    "store_ok p i w'" "inodes w' i = inodes w i"
proof -
  show "store_of p w' = (store_of p w)((chunk_start opts c, chunk_limit opts c) \<mapsto> piece opts (inodes w i) c)"
    using assms by (fastforce simp: store_of_def snap_put_def snap_of_def store_ok_def fun_eq_iff split: option.split node.split)
  show "store_ok p i w'" "inodes w' i = inodes w i"
    using assms by (auto simp: store_ok_def snap_put_def less_Suc_eq split: if_splits)
qed

lemma snap_body_quiet:
  assumes ok: "opts_ok opts" "offs_ok fs" "roomy opts fs" and sel: "selected opts c" "c < n_chunks opts fs"
    and st: "stats_ok opts c b k" and ready: "snap_ready p w" and ino: "i < next_ino w"
    and fd: "fd_reg w fd i True True pos" and len: "int (length (inodes w i)) = fs"
  shows "wp False (snap_body opts (path_string p) fd c (b, k))
    (\<lambda>r w'. r = (b + int (length (piece opts (inodes w i) c)), k + 1) \<and> snap_put opts p i c w w') R (\<lambda>_ _. False) w"
proof -
  note cf = chunk_facts [OF ok(1,2) sel] and cl = chunk_limit_facts [OF ok(1,2) sel]
    and nm = snap_room_names [OF snap_ready_room [OF ready]] and dr = snap_ready_dirs [OF ready]
  let ?s = "chunk_start opts c" and ?e = "chunk_limit opts c"
  let ?f = "snapshot_path (path_string p) ?s ?e" and ?q = "snap_of opts p c"
  have flt: "faults w = []" and nd: "nodes w ?q \<noteq> Some Dir" using ready by (simp_all add: snap_ready_def snap_of_def)
  obtain r e where un: "sys_unlink ?f w = (r, w\<lparr>nodes := (nodes w)(?q := None), errno_of := e\<rparr>)" "r = 0 \<or> e = ENOENT"
    using sys_unlink_quiet [OF flt, of ?f ?q] nm [OF cl(1,2)] dr nd by (auto simp: snap_of_def)
  let ?w1 = "w\<lparr>nodes := (nodes w)(?q := None), errno_of := e\<rparr>" and ?j = "next_ino w"
  obtain n t where a: "fd_alloc (fds w) (new_ofd (Reg ?j) O_CREAT_WRONLY) = (n, t)" by force
  let ?w2 = "w\<lparr>errno_of := e, nodes := (nodes w)(?q \<mapsto> Reg ?j), inodes := (inodes w)(?j := []), next_ino := Suc ?j, fds := t\<rparr>"
  have "nodes w (butlast ?q) = Some Dir" "butlast ?q \<noteq> ?q" using dr(1) snapshot_at_dir(2) [of p, symmetric] by (simp_all add: snap_of_def snapshot_at_dir(1))
  then have op: "sys_open ?f O_CREAT_WRONLY ?w1 = (int n, ?w2)"
    using sys_open_creat_quiet [of ?w1 ?f ?q n t] nm [OF cl(1,2)] flt a by (simp add: snap_of_def)
  note new = fdt.alloc_fresh [OF a] fdt.get_alloc [OF a]
  have nfd: "int n \<noteq> fd" using fd new(1) by (auto simp: fd_reg_def)
  have fd2: "fd_reg ?w2 fd i True True pos" "fd_reg ?w2 (int n) ?j False True 0"
    using fd nfd new by (auto simp: fd_reg_def new_ofd_def)
  let ?m = "min (nat (?e - ?s)) (length (inodes w i) - nat ?s)"
  have m: "?m = min (nat (?e - ?s)) (length (inodes ?w2 i) - nat ?s)" using ino by simp
  obtain t' r4 e4 t4 where cfr: "sys_cfr fd (Some ?s) (int n) None (?e - ?s) ?w2 = (int ?m, (cfr_transfer i (nat ?s) ?j 0 ?m ?w2)\<lparr>fds := t'\<rparr>)"
    and close: "sys_close (int n) ((cfr_transfer i (nat ?s) ?j 0 ?m ?w2)\<lparr>fds := t'\<rparr>) =
      (r4, (cfr_transfer i (nat ?s) ?j 0 ?m ?w2)\<lparr>fds := t4, errno_of := e4\<rparr>)"
    and t4: "fd_get t4 = (fd_get (fds ?w2))(int n := None)"
    by (rule cfr_close_quiet [OF _ fd2 _ _ _ _ _ _ m, where off = "Some ?s" and off' = None and b = 0 and n = "int n"])
      (use flt cl ino in \<open>auto simp: pos_of_def\<close>)
  let ?w4 = "(cfr_transfer i (nat ?s) ?j 0 ?m ?w2)\<lparr>fds := t4, errno_of := e4\<rparr>"
  have "fd_get t4 = fd_get (fds w)" using t4 new by (simp add: fun_eq_iff)
  then have put: "snap_put opts p i c w ?w4" and lp: "length (piece opts (inodes w i) c) = ?m"
    using ino flt by (simp_all add: snap_put_def piece_def read_at_min)
  have mm: "int ?m \<le> o_chunk_size opts" using cl(5,7) by linarith
  have fit: "in_s64 (b + int ?m)" "in_s64 (k + 1)" using stats_fit [OF ok(1,2) _ sel st _ mm, of False] ok(3) by simp_all
  have sum: "in_s64 (?s + o_chunk_size opts)" using chunk_sum_fits [OF ok(1,2) _ sel, of False] ok(3) by simp
  show ?thesis
    unfolding snap_body_def
    using sum cl(3) un fit put
    by (auto simp: wp_chunk_offset [OF ok(1) cf(1) sel(2) ok(2)] Let_def chunk_limit_def [symmetric] wp_lib op cfr close lp)
qed


section \<open>One iteration of the restore loop\<close>

definition rest_frame :: "nat \<Rightarrow> os \<Rightarrow> os \<Rightarrow> bool" where
  "rest_frame i w w' \<longleftrightarrow> touches i w w' \<and> fd_get (fds w') = fd_get (fds w) \<and> printed w' = printed w \<and> faults w' = []"

lemma rest_frame_refl: "faults w = [] \<Longrightarrow> rest_frame i w w"
  by (simp add: rest_frame_def)

lemma rest_frame_trans: "rest_frame i w w1 \<Longrightarrow> rest_frame i w1 w2 \<Longrightarrow> rest_frame i w w2"
  by (auto simp: rest_frame_def intro: touches_trans)

lemma touches_store:
  assumes "touches i w w'" and "store_ok p i w"
  shows "store_of p w' = store_of p w" "store_ok p i w'"
  using assms by (auto simp: store_of_def touches_def store_ok_def fun_eq_iff split: option.split node.split)

text \<open>No snapshot under the name: the call says so.\<close>

lemma sys_open_rdonly_absent:
  assumes "snap_room p w" and "in_s64 a" "in_s64 b" and "nodes w (snapshot_at p a b) = None"
  shows "sys_open (snapshot_path (path_string p) a b) O_RDONLY w = (-1, w\<lparr>errno_of := ENOENT\<rparr>)"
proof -
  have "missing w (snapshot_at p a b) = ENOENT"
    using assms(1) take_snapshot_at by (fastforce simp: missing_def list_ex_iff is_reg_def snap_room_def)
  then show ?thesis
    using assms(1,4) snap_room_names [OF assms(1-3)]
    by (simp add: sys_open_def syscall_def do_open_def fail_def Let_def snap_room_def)
qed

lemma sys_cfr_negative:
  assumes "faults w = []" and "in_s64 len" "len < 0" and "fd_get (fds w) fd = Some f" and "fd_get (fds w) fd' = Some g" "of_node g = Reg i"
  obtains e where "sys_cfr fd off fd' off' len w = (-1, w\<lparr>errno_of := e\<rparr>)"
  by (rule sys_cfr_any [OF assms(2,4-6), of off off']) (use assms in auto)

lemma drand48_le_one: "\<not> 281474976710656 < lcg_step x"
  using lcg_step_ok [of x] by (simp add: rng_ok_def)

text \<open>Reading the piece: the file is written, or the piece ends before it starts.\<close>

lemma restore_piece_quiet:
  assumes fd: "fd_reg w fd i True True pos" and j: "j \<noteq> i" and quiet: "faults w = []" and s: "0 \<le> s"
    and e': "in_s64 (e' - s)" "e' \<le> LLONG_MAX" "in_s64 s"
    and a: "fd_alloc (fds w) (new_ofd (Reg j) O_RDONLY) = (n, tb)"
    and fit: "\<And>m. 0 \<le> m \<Longrightarrow> m \<le> e' - s \<Longrightarrow> in_s64 (b + m) \<and> in_s64 (k + 1)"
    and post: "\<And>w'. s \<le> e' \<Longrightarrow> rest_frame i w w' \<Longrightarrow> rand_st w' = rand_st w \<Longrightarrow>
      inodes w' i = write_at (inodes w i) (nat s) (take (nat (e' - s)) (inodes w j)) \<Longrightarrow>
      Q (e', b + int (length (take (nat (e' - s)) (inodes w j))), k + 1) w'"
    and bail: "\<And>w'. e' < s \<Longrightarrow> inodes w' = inodes w \<Longrightarrow> touches i w w' \<Longrightarrow> R EXIT_IO w'"
  shows "wp False (c_bind (s64 (e' - s)) (\<lambda>len.
         c_bind (c_lib (sys_cfr (int n) None fd (Some s) len)) (\<lambda>copied.
         if copied = -1 then
           c_bind (c_lib (sys_close (int n))) (\<lambda>_.
           c_bind (c_lib (sys_close fd)) (\<lambda>_. c_return EXIT_IO))
         else
           c_bind (s64 (b + copied)) (\<lambda>b.
           c_bind (s64 (k + 1)) (\<lambda>n'.
           c_bind (c_lib (sys_close (int n))) (\<lambda>_. c_val (e', b, n'))))))) Q R (\<lambda>_ _. False) (w\<lparr>fds := tb\<rparr>)"
proof -
  let ?w1 = "w\<lparr>fds := tb\<rparr>"
  note new = fdt.alloc_fresh [OF a] fdt.get_alloc [OF a]
  have nfd: "int n \<noteq> fd" using fd new(1) by (auto simp: fd_reg_def)
  have fd1: "fd_reg ?w1 (int n) j True False 0" "fd_reg ?w1 fd i True True pos"
    using fd nfd new by (auto simp: fd_reg_def new_ofd_def)
  show ?thesis
  proof (cases "e' < s")
    case True
    obtain f g where fg: "fd_get (fds ?w1) (int n) = Some f" "fd_get (fds ?w1) fd = Some g" "of_node g = Reg i"
      using fd1 by (auto simp: fd_reg_def)
    have "e' - s < 0" "faults ?w1 = []" using True quiet by simp_all
    then obtain er where cfr: "sys_cfr (int n) None fd (Some s) (e' - s) ?w1 = (-1, ?w1\<lparr>errno_of := er\<rparr>)"
      using sys_cfr_negative [OF _ e'(1) _ fg] by blast
    have "R EXIT_IO w3" if "sys_close (int n) (?w1\<lparr>errno_of := er\<rparr>) = (r2, w2)" "sys_close fd w2 = (r3, w3)" for r2 w2 r3 w3
      using sys_close_frame [OF that(1), of i] sys_close_frame [OF that(2), of i] True
      by (intro bail) (auto intro: touches_trans)
    then show ?thesis using e'(1) by (simp add: wp_lib cfr split: prod.split)
  next
    case False
    let ?m = "min (nat (e' - s)) (length (inodes w j))"
    have m: "?m = min (nat (e' - s)) (length (inodes ?w1 j) - 0)" by simp
    obtain t' r4 e4 t4 where cfr: "sys_cfr (int n) None fd (Some s) (e' - s) ?w1 = (int ?m, (cfr_transfer j 0 i (nat s) ?m ?w1)\<lparr>fds := t'\<rparr>)"
      and close: "sys_close (int n) ((cfr_transfer j 0 i (nat s) ?m ?w1)\<lparr>fds := t'\<rparr>) =
          (r4, (cfr_transfer j 0 i (nat s) ?m ?w1)\<lparr>fds := t4, errno_of := e4\<rparr>)"
      and t4: "fd_get t4 = (fd_get (fds ?w1))(int n := None)"
      by (rule cfr_close_quiet [OF _ fd1 _ _ _ _ _ _ m, where off = None and off' = "Some s" and b = "nat s" and n = "int n"])
        (use quiet e' s j False in \<open>auto simp: pos_of_def in_s64_def\<close>)
    let ?w4 = "(cfr_transfer j 0 i (nat s) ?m ?w1)\<lparr>fds := t4, errno_of := e4\<rparr>"
    have "take (nat (e' - s)) (inodes w j) = read_at (inodes ?w1 j) 0 ?m" by (simp add: read_at_def min_def)
    moreover have "fd_get t4 = fd_get (fds w)" using t4 new by (simp add: fun_eq_iff)
    ultimately have "Q (e', b + int ?m, k + 1) ?w4"
      using post [of ?w4] False quiet by (auto simp: rest_frame_def min.commute)
    moreover have "in_s64 (b + int ?m) \<and> in_s64 (k + 1)" using False by (intro fit) auto
    ultimately show ?thesis using e'(1) by (simp add: wp_lib cfr close)
  qed
qed


lemma wp_bind_lib: "wp u (c_bind (c_lib f) g) Q R X w = (case f w of (a, w') \<Rightarrow> wp u (g a) Q R X w')"
  by (simp add: wp_lib)

lemma wp_bind_gets: "wp u (c_bind (c_gets f) g) Q R X w = wp u (g (f w)) Q R X w"
  by simp

lemma restore_body_quiet:
  assumes ok: "opts_ok opts" "offs_ok fs" "roomy opts fs" and sel: "selected opts c" "c < n_chunks opts fs"
    and ff: "o_file opts = Str (path_string p)" and room: "snap_room p w" and own: "store_ok p i w"
    and fd: "fd_reg w fd i True True pos" and e: "0 \<le> e" "e \<le> c * o_chunk_size opts" and st: "stats_ok opts c b k"
  shows "wp False (restore_body opts fd c (e, b, k))
    (\<lambda>(e', b', k') w'. rest_frame i w w' \<and>
      restore_step opts (store_of p w) c (rand_st w, e, inodes w i, b, k) = Some (rand_st w', e', inodes w' i, b', k'))
    (\<lambda>v w'. v = EXIT_IO \<and> touches i w w' \<and> inodes w' = inodes w \<and>
      restore_step opts (store_of p w) c (rand_st w, e, inodes w i, b, k) = None) (\<lambda>_ _. False) w"
    (is "wp False _ ?Q ?R _ w")
proof -
  note cf = chunk_facts [OF ok(1,2) sel] and re = restore_end [OF ok(1,2) sel e]
  let ?s = "chunk_start opts c" and ?e = "region_clip opts (e + o_chunk_size opts)" and ?x = "lcg_step (rand_st w)"
  let ?f = "snapshot_path (path_string p) ?s ?e" and ?w = "w\<lparr>rand_st := ?x\<rparr>"
  have rng: "in_s64 ?s" "in_s64 ?e" "?e \<le> LLONG_MAX"
    using cf re opts_okD [OF ok(1)] ok(2) by (auto simp: in_s64_def offs_ok_def)
  have quiet: "faults ?w = []" and room': "snap_room p ?w" and own': "store_ok p i ?w" and fd': "fd_reg ?w fd i True True pos"
    using room own fd by (simp_all add: snap_room_def store_ok_def fd_reg_def)
  have skip: "?Q (e, b, k) ?w" if "d_less (o_probability opts) (Fin (of_int ?x / 2 ^ 48))"
    using that quiet by (simp add: rest_frame_def restore_step_def Let_def)
  have draw: "wp False (c_bind (c_lib (sys_open ?f O_RDONLY)) (\<lambda>source_fd. c_bind (c_gets errno_of) (\<lambda>errno.
       if source_fd = -1 then if errno = ENOENT then c_val (?e, b, k) else c_return EXIT_IO
       else c_bind (s64 (?e - ?s)) (\<lambda>len.
         c_bind (c_lib (sys_cfr source_fd None fd (Some ?s) len)) (\<lambda>copied.
         if copied = -1 then
           c_bind (c_lib (sys_close source_fd)) (\<lambda>_. c_bind (c_lib (sys_close fd)) (\<lambda>_. c_return EXIT_IO))
         else c_bind (s64 (b + copied)) (\<lambda>b. c_bind (s64 (k + 1)) (\<lambda>n.
           c_bind (c_lib (sys_close source_fd)) (\<lambda>_. c_val (?e, b, n))))))))) ?Q ?R (\<lambda>_ _. False) ?w"
    if p: "\<not> d_less (o_probability opts) (Fin (of_int ?x / 2 ^ 48))"
  proof (cases "nodes ?w (snapshot_at p ?s ?e)")
    case None
    then show ?thesis
      using p quiet by (simp add: wp_lib sys_open_rdonly_absent [OF room' rng(1,2)] rest_frame_def restore_step_def Let_def store_of_def)
  next
    case (Some nd)
    then obtain j where j: "nodes ?w (snapshot_at p ?s ?e) = Some (Reg j)" using room by (cases nd) (auto simp: snap_room_def)
    obtain n tb where a: "fd_alloc (fds ?w) (new_ofd (Reg j) O_RDONLY) = (n, tb)" by force
    have op: "sys_open ?f O_RDONLY ?w = (int n, ?w\<lparr>fds := tb\<rparr>)"
      using quiet snap_room_names [OF room' rng(1,2)] j a by (intro sys_open_rdonly_quiet) simp_all
    have store: "store_of p w (?s, ?e) = Some (inodes w j)" using j by (simp add: store_of_def)
    have ji: "j \<noteq> i" using j own by (auto simp: store_ok_def)
    have fit: "in_s64 (b + m) \<and> in_s64 (k + 1)" if "0 \<le> m" "m \<le> ?e - ?s" for m
      using stats_fit [OF ok(1,2) _ sel st that(1), of False] that(2) re(4) ok(3) by auto
    have "(int n = - 1) = False" by simp
    then show ?thesis
      by (simp only: wp_bind_lib wp_bind_gets op prod.case if_False)
        (rule restore_piece_quiet [OF fd' ji quiet cf(2) re(5) rng(3,1) a fit],
         use p store in \<open>auto simp: restore_step_def Let_def rest_frame_def\<close>)
  qed
  show ?thesis
    unfolding restore_body_def
    using skip draw re(7) [OF ok(3)]
    by (auto simp: lib_drand48_def Let_def c_str_def ff wp_lib wp_chunk_offset [OF ok(1) cf(1) sel(2) ok(2)] cong: if_cong)
qed


section \<open>The loops\<close>

text \<open>The spec's run over the chunks still to come ends where its run over all chunks does.\<close>

definition snapx_frame :: "path \<Rightarrow> os \<Rightarrow> os \<Rightarrow> bool" where
  "snapx_frame p w w' \<longleftrightarrow> cwd w' = cwd w \<and> fd_get (fds w') = fd_get (fds w) \<and> printed w' = printed w \<and>
     next_ino w \<le> next_ino w' \<and> (\<forall>j < next_ino w. inodes w' j = inodes w j) \<and>
     (\<forall>q. (\<forall>a b. q \<noteq> snapshot_at p a b) \<longrightarrow> nodes w' q = nodes w q)"

lemma snapx_frame_put: "snapx_frame p wi w \<Longrightarrow> snap_put opts p i c w w' \<Longrightarrow> snapx_frame p wi w'"
  by (auto simp: snapx_frame_def snap_put_def snap_of_def)

definition snapx_inv :: "opts_t \<Rightarrow> path \<Rightarrow> int \<Rightarrow> int \<Rightarrow> nat \<Rightarrow> os \<Rightarrow> int \<Rightarrow> int \<times> int \<Rightarrow> os \<Rightarrow> bool" where
  "snapx_inv opts p fd fs i wi c = (\<lambda>(b, k) w.
     opts_ok opts \<and> offs_ok fs \<and> roomy opts fs \<and> (\<exists>pos. fd_reg wi fd i True True pos) \<and>
     int (length (inodes wi i)) = fs \<and> stats_ok opts c b k \<and> i < next_ino wi \<and>
     snap_ready p w \<and> store_ok p i w \<and> snapx_frame p wi w \<and>
     snapshot_spec opts (inodes wi i) (store_of p wi) =
       fold (snap_step opts (inodes wi i)) (chunks_from opts fs c) (store_of p w, b, k))"

lemma piece_length:
  assumes "opts_ok opts" "offs_ok fs" "selected opts c" "c < n_chunks opts fs"
  shows "int (length (piece opts bs c)) \<le> o_chunk_size opts"
  using chunk_limit_facts(5,7) [OF assms] by (simp add: piece_def)

lemma snapx_body:
  assumes inv: "snapx_inv opts p fd fs i wi c s w" and sel: "selected opts c" "c < n_chunks opts fs"
  shows "wp False (snap_body opts (path_string p) fd c s) (snapx_inv opts p fd fs i wi (c + uint (o_mod opts)))
    (\<lambda>_ _. False) (\<lambda>_ _. False) w"
proof -
  obtain b k where s: "s = (b, k)" by force
  have ok: "opts_ok opts" "offs_ok fs" "roomy opts fs" and st: "stats_ok opts c b k" and ino: "i < next_ino wi"
    and ready: "snap_ready p w" and own: "store_ok p i w" and fr: "snapx_frame p wi w" and len: "int (length (inodes wi i)) = fs"
    and spec: "snapshot_spec opts (inodes wi i) (store_of p wi) =
       fold (snap_step opts (inodes wi i)) (chunks_from opts fs c) (store_of p w, b, k)"
    using inv by (simp_all add: snapx_inv_def s)
  obtain pos where "fd_reg wi fd i True True pos" using inv by (auto simp: snapx_inv_def s)
  then have fd: "fd_reg w fd i True True pos" using fr by (simp add: fd_reg_def snapx_frame_def)
  have same: "inodes w i = inodes wi i" "i < next_ino w" using fr ino by (auto simp: snapx_frame_def)
  show ?thesis
    unfolding s
  proof (rule wp_mono_val [OF snap_body_quiet [OF ok sel st ready same(2) fd]])
    fix r w' assume r: "r = (b + int (length (piece opts (inodes w i) c)), k + 1) \<and> snap_put opts p i c w w'"
    then have put: "snap_put opts p i c w w'" by simp
    have "snap_ready p w'"
      using put by (intro snap_ready_frame [OF ready]) (auto simp: snap_put_def snap_of_def)
    moreover have "snapshot_spec opts (inodes wi i) (store_of p wi) =
        fold (snap_step opts (inodes wi i)) (chunks_from opts fs (c + uint (o_mod opts)))
          (store_of p w', b + int (length (piece opts (inodes w i) c)), k + 1)"
      using spec by (simp add: chunks_from_step [OF ok(1) sel] snap_step_def snap_put_store(1) [OF put own] same)
    ultimately show "snapx_inv opts p fd fs i wi (c + uint (o_mod opts)) r w'"
      using inv r snap_put_store(2) [OF put own] snapx_frame_put [OF fr put]
        stats_ok_add [OF ok(1) st _ piece_length [OF ok(1,2) sel]]
      by (auto simp: snapx_inv_def s)
  qed (use len same in simp)
qed

interpretation snapx_mode: chunk_mode False opts "n_chunks opts fs" "snap_body opts (path_string p) fd"
    "snapx_inv opts p fd fs i wi" "\<lambda>_ _. False" for opts p fd fs i wi
proof unfold_locales
  fix c s w assume "snapx_inv opts p fd fs i wi c s w"
  then have "opts_ok opts" and "offs_ok fs" and "roomy opts fs" by (auto simp: snapx_inv_def)
  then show "opts_ok opts \<and> (False \<or> n_chunks opts fs + 2 ^ 32 \<le> LLONG_MAX)"
    using n_chunks_bound [of opts fs] by (auto simp: roomy_def offs_ok_def)
qed (rule snapx_body)

definition restx_inv :: "opts_t \<Rightarrow> path \<Rightarrow> int \<Rightarrow> int \<Rightarrow> nat \<Rightarrow> os \<Rightarrow> int \<Rightarrow> int \<times> int \<times> int \<Rightarrow> os \<Rightarrow> bool" where
  "restx_inv opts p fd fs i wi c = (\<lambda>(e, b, k) w.
     opts_ok opts \<and> offs_ok fs \<and> roomy opts fs \<and> o_file opts = Str (path_string p) \<and> snap_room p wi \<and> store_ok p i wi \<and>
     (\<exists>pos. fd_reg wi fd i True True pos) \<and> 0 \<le> e \<and> e \<le> c * o_chunk_size opts \<and> stats_ok opts c b k \<and>
     rest_frame i wi w \<and> int (length (inodes wi i)) = fs \<and>
     restore_fold opts (store_of p wi) (chunks_from opts fs c) (rand_st w, e, inodes w i, b, k) =
       restore_spec opts (store_of p wi) (rand_st wi) (inodes wi i))"

definition restx_bail :: "opts_t \<Rightarrow> path \<Rightarrow> nat \<Rightarrow> os \<Rightarrow> int \<Rightarrow> os \<Rightarrow> bool" where
  "restx_bail opts p i wi v w \<longleftrightarrow> v = EXIT_IO \<and> touches i wi w \<and>
     restore_spec opts (store_of p wi) (rand_st wi) (inodes wi i) = Inl (inodes w i)"

text \<open>What one step of the spec does to the end and the counters.\<close>

lemma restore_step_bounds:
  assumes ok: "opts_ok opts" "offs_ok fs" and sel: "selected opts c" "c < n_chunks opts fs"
    and e: "0 \<le> e" "e \<le> c * o_chunk_size opts" and st: "stats_ok opts c b k"
    and step: "restore_step opts store c (x, e, bs, b, k) = Some (x', e', bs', b', k')"
  shows "0 \<le> e'" "e' \<le> (c + uint (o_mod opts)) * o_chunk_size opts" "stats_ok opts (c + uint (o_mod opts)) b' k'"
proof -
  note re = restore_end [OF ok sel e] and o = opts_okD [OF ok(1)]
  have m: "0 < uint (o_mod opts)" using o(6) by (auto intro: le_less_trans [OF uint_ge_0])
  then have le: "(c + 1) * o_chunk_size opts \<le> (c + uint (o_mod opts)) * o_chunk_size opts"
    using o(4) by (intro mult_right_mono) auto
  have e': "e' = e \<or> e' = region_clip opts (e + o_chunk_size opts)"
    using step by (auto simp: restore_step_def Let_def split: if_splits option.splits)
  have "e \<le> (c + 1) * o_chunk_size opts" using e o(4) by (simp add: distrib_right)
  with e' re(1,2) e(1) le show "0 \<le> e'" "e' \<le> (c + uint (o_mod opts)) * o_chunk_size opts" by auto
  have "int (length (take (nat (region_clip opts (e + o_chunk_size opts) - chunk_start opts c)) ys)) \<le> o_chunk_size opts" for ys :: "byte list"
    using re(4) o(4) by simp
  with step stats_ok_skip [OF ok(1) st] stats_ok_add [OF ok(1) st]
  show "stats_ok opts (c + uint (o_mod opts)) b' k'"
    by (auto simp: restore_step_def Let_def split: if_splits option.splits)
qed

lemma restx_body:
  assumes inv: "restx_inv opts p fd fs i wi c s w" and sel: "selected opts c" "c < n_chunks opts fs"
  shows "wp False (restore_body opts fd c s) (restx_inv opts p fd fs i wi (c + uint (o_mod opts)))
    (restx_bail opts p i wi) (\<lambda>_ _. False) w"
proof -
  obtain e b k where s: "s = (e, b, k)" by (cases s)
  have ok: "opts_ok opts" "offs_ok fs" "roomy opts fs" and ff: "o_file opts = Str (path_string p)" and st: "stats_ok opts c b k"
    and e: "0 \<le> e" "e \<le> c * o_chunk_size opts" and fr: "rest_frame i wi w" and own: "store_ok p i wi"
    and spec: "restore_fold opts (store_of p wi) (chunks_from opts fs c) (rand_st w, e, inodes w i, b, k) =
       restore_spec opts (store_of p wi) (rand_st wi) (inodes wi i)"
    using inv by (simp_all add: restx_inv_def s)
  have t: "touches i wi w" using fr by (simp add: rest_frame_def)
  have room: "snap_room p w" using inv fr by (auto simp: restx_inv_def s rest_frame_def snap_room_def touches_def)
  obtain pos where "fd_reg wi fd i True True pos" using inv by (auto simp: restx_inv_def s)
  then have fd: "fd_reg w fd i True True pos" using fr by (simp add: fd_reg_def rest_frame_def)
  note store = touches_store [OF t own] and run = spec [unfolded chunks_from_step [OF ok(1) sel] restore_fold.simps]
  show ?thesis
    unfolding s
  proof (rule wp_mono [OF restore_body_quiet [OF ok sel ff room store(2) fd e st]])
    fix r w' assume "(case r of (e', b', k') \<Rightarrow> \<lambda>w'. rest_frame i w w' \<and>
      restore_step opts (store_of p w) c (rand_st w, e, inodes w i, b, k) = Some (rand_st w', e', inodes w' i, b', k')) w'"
    then obtain e' b' k' where r: "r = (e', b', k')" and fr': "rest_frame i w w'" and
      step: "restore_step opts (store_of p wi) c (rand_st w, e, inodes w i, b, k) = Some (rand_st w', e', inodes w' i, b', k')"
      by (cases r) (auto simp: store)
    with inv restore_step_bounds [OF ok(1,2) sel e st step] run rest_frame_trans [OF fr fr']
    show "restx_inv opts p fd fs i wi (c + uint (o_mod opts)) r w'" by (simp add: restx_inv_def s)
  next
    fix v w' assume "v = EXIT_IO \<and> touches i w w' \<and> inodes w' = inodes w \<and>
      restore_step opts (store_of p w) c (rand_st w, e, inodes w i, b, k) = None"
    then show "restx_bail opts p i wi v w'" using run t by (auto simp: restx_bail_def store intro: touches_trans)
  qed
qed


interpretation restx_mode: chunk_mode False opts "n_chunks opts fs" "restore_body opts fd"
    "restx_inv opts p fd fs i wi" "restx_bail opts p i wi" for opts p fd fs i wi
proof unfold_locales
  fix c s w assume "restx_inv opts p fd fs i wi c s w"
  then have "opts_ok opts" and "offs_ok fs" and "roomy opts fs" by (auto simp: restx_inv_def)
  then show "opts_ok opts \<and> (False \<or> n_chunks opts fs + 2 ^ 32 \<le> LLONG_MAX)"
    using n_chunks_bound [of opts fs] by (auto simp: roomy_def offs_ok_def)
qed (rule restx_body)

section \<open>The modes refine their specifications\<close>

definition snap_report :: "int \<Rightarrow> int \<Rightarrow> string" where
  "snap_report k b = ''Snapshot '' @ show_int k @ '' chunks ('' @ show_int b @ '' bytes)''"

definition restore_report :: "int \<Rightarrow> int \<Rightarrow> string" where
  "restore_report k b = ''Restored '' @ show_int k @ '' chunks ('' @ show_int b @ '' bytes)''"

definition snapx_post :: "opts_t \<Rightarrow> path \<Rightarrow> nat \<Rightarrow> os \<Rightarrow> int \<Rightarrow> os \<Rightarrow> bool" where
  "snapx_post opts p i w v w' \<longleftrightarrow> v = EXIT_OK \<and> snap_ready p w' \<and> store_ok p i w' \<and>
     (\<exists>b k. snapshot_spec opts (inodes w i) (store_of p w) = (store_of p w', b, k) \<and>
        printed w' = printed w @ [snap_report k b]) \<and>
     cwd w' = cwd w \<and> fd_get (fds w') = fd_get (fds w) \<and> (\<forall>j < next_ino w. inodes w' j = inodes w j) \<and>
     (\<forall>q. (\<forall>a b. q \<noteq> snapshot_at p a b) \<longrightarrow> nodes w' q = with_dirs (snap_dir p) (nodes w) q)"

lemma wp_snapshot_quiet:
  assumes ok: "opts_ok opts" "offs_ok fs" "roomy opts fs" and ff: "o_file opts = Str (path_string p)"
    and room: "snap_room p w" and own: "store_ok p i w" and fd: "fd_reg w fd i True True pos" "int (length (inodes w i)) = fs"
  shows "wp False (corrupt_snapshot opts fd fs (n_chunks opts fs)) (snapx_post opts p i w) R (\<lambda>_ _. False) w"
proof -
  obtain e where mk: "mkdir_p (dirname (snapshot_path (path_string p) 0 0)) w =
      Some (0, w\<lparr>nodes := with_dirs (snap_dir p) (nodes w), errno_of := e\<rparr>)"
    using snap_room_mkdir(1) [OF room] ..
  let ?w = "w\<lparr>nodes := with_dirs (snap_dir p) (nodes w), errno_of := e\<rparr>"
  have names: "nodes ?w (snapshot_at p a b) = nodes w (snapshot_at p a b)" for a b
    by (simp add: with_dirs_def snapshot_at_dir)
  then have own1: "store_ok p i ?w" and store: "store_of p ?w = store_of p w"
    using own by (auto simp: store_ok_def store_of_def fun_eq_iff split: option.split node.split)
  have init: "snapx_inv opts p fd fs i ?w (uint (o_index opts)) (0, 0) ?w"
    using ok fd snap_room_mkdir(2) [OF room] stats_ok_init [OF ok(1)] own own1 chunks_from_init [of opts fs]
    by (auto simp: snapx_inv_def fd_reg_def store_ok_def snapx_frame_def snapshot_spec_def)
  have "wp False (for_chunks opts (n_chunks opts fs) (snap_body opts (path_string p) fd) (0, 0))
      (\<lambda>(b, n). wp False (c_bind (c_modify (lib_puts (snap_report n b))) (\<lambda>_. c_val EXIT_OK)) (snapx_post opts p i w) (snapx_post opts p i w) (\<lambda>_ _. False))
      (\<lambda>_ _. False) (\<lambda>_ _. False) ?w"
  proof (rule snapx_mode.wp_loop [OF init])
    fix c s w' assume inv: "snapx_inv opts p fd fs i ?w c s w'" and c: "n_chunks opts fs \<le> c"
    then show "(case s of (b, n) \<Rightarrow> wp False (c_bind (c_modify (lib_puts (snap_report n b))) (\<lambda>_. c_val EXIT_OK)) (snapx_post opts p i w) (snapx_post opts p i w) (\<lambda>_ _. False)) w'"
      using store by (auto simp: snapx_inv_def snapx_post_def snapx_frame_def lib_puts_def split: prod.split)
  qed
  then show ?thesis
    unfolding corrupt_snapshot_def c_str_def ff snap_report_def [symmetric]
    by (simp add: wp_option mk split_def) (auto elim!: wp_mono)
qed

definition restx_post :: "opts_t \<Rightarrow> path \<Rightarrow> nat \<Rightarrow> os \<Rightarrow> int \<Rightarrow> os \<Rightarrow> bool" where
  "restx_post opts p i w v w' \<longleftrightarrow> touches i w w' \<and>
     (case restore_spec opts (store_of p w) (rand_st w) (inodes w i) of
        Inl bs \<Rightarrow> v = EXIT_IO \<and> inodes w' i = bs
      | Inr (x, e, bs, b, k) \<Rightarrow> v = EXIT_OK \<and> inodes w' i = bs \<and> rand_st w' = x \<and>
          printed w' = printed w @ [restore_report k b] \<and> fd_get (fds w') = fd_get (fds w))"

lemma wp_restore_quiet:
  assumes ok: "opts_ok opts" "offs_ok fs" "roomy opts fs" and ff: "o_file opts = Str (path_string p)"
    and room: "snap_room p w" and own: "store_ok p i w" and fd: "fd_reg w fd i True True pos" "int (length (inodes w i)) = fs"
  shows "wp False (corrupt_restore opts fd fs (n_chunks opts fs)) (restx_post opts p i w) R (\<lambda>_ _. False) w"
proof -
  have "faults w = []" using room by (simp add: snap_room_def)
  moreover have "0 \<le> uint (o_index opts) * o_chunk_size opts" using opts_okD(4) [OF ok(1)] by simp
  ultimately have init: "restx_inv opts p fd fs i w (uint (o_index opts)) (0, 0, 0) w"
    using assms stats_ok_init [OF ok(1)] chunks_from_init [of opts fs] rest_frame_refl
    by (auto simp: restx_inv_def restore_spec_def)
  have "wp False (for_chunks opts (n_chunks opts fs) (restore_body opts fd) (0, 0, 0))
      (\<lambda>(_, b, n). wp False (c_bind (c_modify (lib_puts (restore_report n b))) (\<lambda>_. c_val EXIT_OK)) (restx_post opts p i w) (restx_post opts p i w) (\<lambda>_ _. False))
      (restx_bail opts p i w) (\<lambda>_ _. False) w"
  proof (rule restx_mode.wp_loop [OF init])
    fix c s w' assume inv: "restx_inv opts p fd fs i w c s w'" and c: "n_chunks opts fs \<le> c"
    then show "(case s of (_, b, n) \<Rightarrow> wp False (c_bind (c_modify (lib_puts (restore_report n b))) (\<lambda>_. c_val EXIT_OK)) (restx_post opts p i w) (restx_post opts p i w) (\<lambda>_ _. False)) w'"
      by (cases s) (auto simp: restx_inv_def restx_post_def lib_puts_def rest_frame_def dest: sym)
  qed
  then show ?thesis
    unfolding corrupt_restore_def restore_report_def [symmetric] by (auto simp: split_def restx_bail_def restx_post_def elim!: wp_mono)
qed


section \<open>Properties\<close>

text \<open>C13: The snapshot mode refines its specification: on a system where no call fails, with room for the
  snapshot directory, it ends with success; the snapshots of the file afterwards are those before
  with the piece of every selected chunk put in under its start and end; the report counts the chunks
  and the bytes; every file that existed is unchanged, and so is every name that is neither a snapshot of this
  file nor a directory above them.\<close>

theorem snapshot_refines_store:
  assumes "opts_ok opts" and "roomy opts fs" and "o_file opts = Str (path_string p)" and "snap_room p w" and "store_ok p i w"
    and "fd_reg w fd i True True pos" and "fs = int (length (inodes w i))"
  shows "\<exists>w' b k. corrupt_snapshot opts fd fs (n_chunks opts fs) w = Val EXIT_OK w' \<and>
    snapshot_spec opts (inodes w i) (store_of p w) = (store_of p w', b, k) \<and>
    printed w' = printed w @ [snap_report k b] \<and>
    (\<forall>j < next_ino w. inodes w' j = inodes w j) \<and> fd_get (fds w') = fd_get (fds w) \<and>
    (\<forall>q. (\<forall>a b. q \<noteq> snapshot_at p a b) \<and> \<not> prefix q (snap_dir p) \<longrightarrow> nodes w' q = nodes w q)"
proof -
  have "offs_ok fs" using assms(2,7) opts_okD(4) [OF assms(1)] by (simp add: offs_ok_def roomy_def)
  then have "wp False (corrupt_snapshot opts fd fs (n_chunks opts fs)) (snapx_post opts p i w) (\<lambda>_ _. False) (\<lambda>_ _. False) w"
    using assms by (intro wp_snapshot_quiet) auto
  then show ?thesis by (rule wp_totalD) (auto simp: snapx_post_def with_dirs_def)
qed

definition every_opts :: opts_t where
  "every_opts = default_opts\<lparr>o_file := Str ''/f'', o_chunk_size := 3\<rparr>"

lemma every_opts_simps [simp]:
  "o_file every_opts = Str ''/f''" "o_start every_opts = 0" "o_end every_opts = LLONG_MAX" "o_chunk_size every_opts = 3"
  "o_index every_opts = 0" "o_mod every_opts = 1" "o_probability every_opts = Fin 1"
  by (simp_all add: every_opts_def default_opts_def OFF_MAX_def)

lemma every_opts_ok: "opts_ok every_opts" "roomy every_opts 8" "o_file every_opts = Str (path_string [''f''])"
  by (simp_all add: opts_ok_def roomy_def OFF_MAX_def path_string_def)

lemma every_chunks: "n_chunks every_opts 8 = 3" "chunks_from every_opts 8 0 = [0, 1, 2]"
proof -
  show n: "n_chunks every_opts 8 = 3" by (simp add: n_chunks_def region_end_def)
  show "chunks_from every_opts 8 0 = [0, 1, 2]" by (simp add: chunks_from_def n selected_def upto_rec1)
qed

lemma sample_no_snapshot: "nodes (sample_os bs t) (snapshot_at p a b) = None"
  by (simp add: sample_os_def snapshot_at_def comps_def split_SNAPSHOT_DIR)

lemma sample_snap_room: "snap_room [''f''] (sample_os bs t)" "store_ok [''f''] 0 (sample_os bs t)"
proof -
  have "nodes (sample_os bs t) q \<in> {None, Some Dir}" if "prefix q (snap_dir [''f''])" for q
    using that by (auto simp: sample_os_def snap_dir_def comps_def split_SNAPSHOT_DIR prefix_Cons)
  then show "snap_room [''f''] (sample_os bs t)"
    by (simp add: snap_room_def canonical_def plain_def path_string_def sample_no_snapshot) (simp add: sample_os_def)
  show "store_ok [''f''] 0 (sample_os bs t)" by (simp add: store_ok_def sample_no_snapshot)
qed

theorem snapshot_refines_store_witness:
  "\<exists>w'. corrupt_snapshot every_opts 0 8 3 (sample_os [1, 2, 3, 4, 5, 6, 7, 8] [Some (new_ofd (Reg 0) O_RDWR)]) = Val EXIT_OK w' \<and>
     store_of [''f''] w' (3, 6) = Some [4, 5, 6] \<and> store_of [''f''] w' (6, 9) = Some [7, 8] \<and>
     printed w' = [snap_report 3 8]"
proof -
  let ?w = "sample_os [1, 2, 3, 4, 5, 6, 7, 8] [Some (new_ofd (Reg 0) O_RDWR)]"
  have len: "8 = int (length (inodes ?w 0))" and pr: "printed ?w = []" by (simp_all add: sample_os_def)
  have "snapshot_spec every_opts [1, 2, 3, 4, 5, 6, 7, 8] st =
      (st((0, 3) \<mapsto> [1, 2, 3], (3, 6) \<mapsto> [4, 5, 6], (6, 9) \<mapsto> [7, 8]), 8, 3)" for st
    by (simp add: snapshot_spec_def every_chunks snap_step_def piece_def chunk_limit_def region_clip_def chunk_start_def read_at_def)
  note spec = this [of "store_of [''f''] ?w"]
  obtain w' b k where w': "corrupt_snapshot every_opts 0 8 3 ?w = Val EXIT_OK w'" "printed w' = [snap_report k b]"
    and st: "snapshot_spec every_opts [1, 2, 3, 4, 5, 6, 7, 8] (store_of [''f''] ?w) = (store_of [''f''] w', b, k)"
    using snapshot_refines_store [OF every_opts_ok(1-3) sample_snap_room sample_fd_reg len] unfolding every_chunks sample_os_simps pr by auto
  have "store_of [''f''] w' (3, 6) = Some [4, 5, 6] \<and> store_of [''f''] w' (6, 9) = Some [7, 8]" "b = 8" "k = 3"
    using st unfolding spec by (auto dest: sym)
  with w' show ?thesis by blast
qed

text \<open>C14: The restore mode refines its specification: on a system where no call fails, from any state of the random
  number generator and any snapshots, it leaves the file, the generator and the report as the
  specification computes them, and every other file and name alone; when the specification meets a piece whose
  name ends before it starts, the mode returns the status for I/O errors with the chunks restored so far.\<close>

theorem restore_refines_store:
  assumes "opts_ok opts" and "roomy opts fs" and "o_file opts = Str (path_string p)" and "snap_room p w" and "store_ok p i w"
    and "fd_reg w fd i True True pos" and "fs = int (length (inodes w i))"
  shows "\<exists>v w'. corrupt_restore opts fd fs (n_chunks opts fs) w = Val v w' \<and> touches i w w' \<and>
    (case restore_spec opts (store_of p w) (rand_st w) (inodes w i) of
       Inl bs \<Rightarrow> v = EXIT_IO \<and> inodes w' i = bs
     | Inr (x, e, bs, b, k) \<Rightarrow> v = EXIT_OK \<and> inodes w' i = bs \<and> rand_st w' = x \<and>
         printed w' = printed w @ [restore_report k b] \<and> fd_get (fds w') = fd_get (fds w))"
proof -
  have "offs_ok fs" using assms(2,7) opts_okD(4) [OF assms(1)] by (simp add: offs_ok_def roomy_def)
  then have "wp False (corrupt_restore opts fd fs (n_chunks opts fs)) (restx_post opts p i w) (\<lambda>_ _. False) (\<lambda>_ _. False) w"
    using assms by (intro wp_restore_quiet) auto
  then show ?thesis by (rule wp_totalD) (auto simp: restx_post_def)
qed

text \<open>A file with one snapshot, of its second chunk.\<close>

definition restore_os :: os where
  "restore_os = (sample_os [1, 2, 3, 4, 5, 6, 7, 8] [Some (new_ofd (Reg 0) O_RDWR)])
     \<lparr>nodes := [[] \<mapsto> Dir, [''f''] \<mapsto> Reg 0, snapshot_at [''f''] 3 6 \<mapsto> Reg 1], inodes := (\<lambda>_. [])(0 := [1, 2, 3, 4, 5, 6, 7, 8], 1 := [0, 0, 0]),
      next_ino := 2\<rparr>"

lemma restore_os_at: "nodes restore_os (snapshot_at [''f''] a b) = (if a = 3 \<and> b = 6 then Some (Reg 1) else None)"
  using snapshot_at_inject [of "[''f'']" a b 3 6]
  by (auto simp: restore_os_def snapshot_at_def comps_def split_SNAPSHOT_DIR)

lemma restore_os_ok: "snap_room [''f''] restore_os" "store_ok [''f''] 0 restore_os"
    "fd_reg restore_os 0 0 True True 0" "8 = int (length (inodes restore_os 0))"
proof -
  have "nodes restore_os q \<in> {None, Some Dir}" if "prefix q (snap_dir [''f''])" for q
    using that by (auto simp: restore_os_def snap_dir_def snapshot_at_def comps_def split_SNAPSHOT_DIR prefix_Cons prefix_def)
  moreover have "nodes restore_os [] = Some Dir" "faults restore_os = []"
    using snapshot_at_dir(3) [of "[''f'']" 3 6] by (simp_all add: restore_os_def del: snapshot_at_dir)
  ultimately show "snap_room [''f''] restore_os" by (auto simp: snap_room_def canonical_def plain_def path_string_def restore_os_at)
  show "store_ok [''f''] 0 restore_os" by (simp add: store_ok_def restore_os_at) (simp add: restore_os_def)
qed (simp_all add: restore_os_def fd_reg_def fd_get_def new_ofd_def)

theorem restore_refines_store_witness:
  "\<exists>w'. corrupt_restore every_opts 0 8 3 restore_os = Val EXIT_OK w' \<and>
     inodes w' 0 = [1, 2, 3, 0, 0, 0, 7, 8] \<and> printed w' = [restore_report 1 3]"
proof -
  have pr: "printed restore_os = []" "inodes restore_os 0 = [1, 2, 3, 4, 5, 6, 7, 8]"
    by (simp_all add: restore_os_def sample_os_def)
  have st: "store_of [''f''] restore_os = [(3, 6) \<mapsto> [0, 0, 0]]"
    by (auto simp: store_of_def restore_os_at fun_eq_iff) (simp add: restore_os_def)
  have "\<exists>x e. restore_spec every_opts [(3, 6) \<mapsto> [0, 0, 0]] (rand_st restore_os) [1, 2, 3, 4, 5, 6, 7, 8] =
      Inr (x, e, [1, 2, 3, 0, 0, 0, 7, 8], 3, 1)"
    by (simp add: restore_spec_def every_chunks restore_step_def Let_def region_clip_def chunk_start_def write_at_def drand48_le_one)
  with restore_refines_store [OF every_opts_ok(1-3) restore_os_ok] show ?thesis
    unfolding every_chunks st pr by auto
qed

end
