(* ===== verification/CF_Roundtrip.thy ===== *)
theory CF_Roundtrip
  imports CF_Store
begin

text \<open>
  Snapshots and restores together.  The round trip is proved on the specifications of \<open>CF_Store\<close>:
  restoring from a store into which every chunk was put brings every byte of the region back.

  The second part shows where the restore mode looks: \<open>miss_mode\<close>, an interpretation of
  \<open>chunk_mode\<close>, follows the restore loop when it finds nothing, because the names it looks for
  are not those that were stored.
\<close>

section \<open>What a snapshot puts into the store\<close>

lemma fold_snap_step:
  assumes "opts_ok opts"
  shows "fst (fold (snap_step opts bs) cs (st, b, k)) (chunk_start opts d, chunk_limit opts d) =
    (if d \<in> set cs then Some (piece opts bs d) else st (chunk_start opts d, chunk_limit opts d))"
proof (induction cs arbitrary: st b k)
  case (Cons c cs)
  have "chunk_start opts d = chunk_start opts c \<longleftrightarrow> d = c"
    using opts_okD(4) [OF assms] by (simp add: chunk_start_def)
  moreover have "snap_step opts bs c (st, b, k) = (st((chunk_start opts c, chunk_limit opts c) \<mapsto> piece opts bs c),
      b + int (length (piece opts bs c)), k + 1)" by (simp add: snap_step_def)
  ultimately show ?case by (auto simp: Cons.IH)
qed simp

lemma snapshot_spec_store:
  assumes "opts_ok opts" and "snapshot_spec opts bs st0 = (st, b, k)" and "selected opts d" "d < n_chunks opts (int (length bs))"
  shows "st (chunk_start opts d, chunk_limit opts d) = Some (piece opts bs d)"
proof -
  have "0 \<le> d" using assms(3) by (auto simp: selected_def intro: order_trans [OF uint_ge_0])
  then have "d \<in> set (chunks_from opts (int (length bs)) 0)" using assms(3,4) by (simp add: chunks_from_def)
  then show ?thesis
    using fold_snap_step [OF assms(1), of bs "chunks_from opts (int (length bs)) 0" st0 0 0 d] assms(2)
    by (simp add: snapshot_spec_def)
qed

section \<open>What the restore brings back\<close>

text \<open>The options for which the mode finds its snapshots: every chunk, from the start of the file.\<close>

definition every_chunk :: "opts_t \<Rightarrow> path \<Rightarrow> bool" where
  "every_chunk opts p \<longleftrightarrow> o_start opts = 0 \<and> o_index opts = 0 \<and> o_mod opts = 1 \<and>
     o_probability opts = Fin 1 \<and> o_file opts = Str (path_string p)"

lemma every_chunk_selected: "every_chunk opts p \<Longrightarrow> 0 \<le> c \<Longrightarrow> selected opts c"
  by (simp add: every_chunk_def selected_def)

text \<open>Below position \<open>c\<close> and inside the region the new bytes, above it the old ones.\<close>

definition mixed :: "opts_t \<Rightarrow> int \<Rightarrow> byte list \<Rightarrow> byte list \<Rightarrow> byte list \<Rightarrow> bool" where
  "mixed opts x new old bs \<longleftrightarrow> length bs = length old \<and>
     (\<forall>k < length old. bs ! k = (if int k < x \<and> int k < o_end opts then new ! k else old ! k))"

lemma mixed_write:
  assumes ok: "opts_ok opts" "offs_ok fs" and sel: "selected opts c" "c < n_chunks opts fs" and start: "o_start opts = 0"
    and mix: "mixed opts (c * o_chunk_size opts) bs old cur" and len: "int (length bs) = fs" "int (length old) = fs"
  shows "mixed opts ((c + 1) * o_chunk_size opts) bs old (write_at cur (nat (chunk_start opts c)) (piece opts bs c))"
proof -
  note cf = chunk_facts [OF ok sel] and cl = chunk_limit_facts [OF ok sel]
  let ?s = "chunk_start opts c" and ?ys = "piece opts bs c"
  have s: "?s = c * o_chunk_size opts" by (simp add: chunk_start_def start)
  have lens: "length cur = length old" "int (length ?ys) = chunk_end opts fs c - ?s"
    using mix len cl cf by (auto simp: mixed_def piece_def)
  then have in1: "nat ?s + length ?ys \<le> length cur" using len cl cf by auto
  have "write_at cur (nat ?s) ?ys ! k = (if int k < (c + 1) * o_chunk_size opts \<and> int k < o_end opts then bs ! k else old ! k)"
    if k: "k < length old" for k
  proof (cases "nat ?s \<le> k \<and> k < nat ?s + length ?ys")
    case True
    have "length ?ys \<le> nat (chunk_limit opts c - ?s)" by (simp add: piece_def)
    then have "k - nat ?s < nat (chunk_limit opts c - ?s)" "nat ?s + (k - nat ?s) < length bs" "nat ?s + (k - nat ?s) = k"
      using True len k by linarith+
    then have "?ys ! (k - nat ?s) = bs ! k" unfolding piece_def by (simp only: nth_read_at)
    moreover have "int k < (c + 1) * o_chunk_size opts" "int k < o_end opts"
      using True lens(2) cl s by (auto simp: chunk_end_def region_end_def distrib_right)
    ultimately show ?thesis using True in1 k lens by (simp add: nth_write_at)
  next
    case False
    then have "write_at cur (nat ?s) ?ys ! k = cur ! k" using in1 k lens by (auto simp: nth_write_at)
    moreover have "(int k < (c + 1) * o_chunk_size opts \<and> int k < o_end opts) = (int k < c * o_chunk_size opts \<and> int k < o_end opts)"
      using False lens len k cl(4) s by (auto simp: chunk_end_def region_end_def distrib_right)
    ultimately show ?thesis using mix k by (simp add: mixed_def)
  qed
  with in1 lens show ?thesis by (simp add: mixed_def)
qed

lemma mixed_all:
  assumes "mixed opts x new old bs" and "min (o_end opts) fs \<le> x" and "0 \<le> o_end opts"
    and "int (length old) = fs" and "int (length new) = fs"
  shows "bs = take (nat (o_end opts)) new @ drop (nat (o_end opts)) old"
proof (rule nth_equalityI)
  show "length bs = length (take (nat (o_end opts)) new @ drop (nat (o_end opts)) old)"
    using assms by (auto simp: mixed_def)
  fix k assume "k < length bs"
  then show "bs ! k = (take (nat (o_end opts)) new @ drop (nat (o_end opts)) old) ! k"
    using assms by (auto simp: mixed_def nth_append)
qed

text \<open>One chunk: the draw takes it, the end is its limit, and its piece is in the store.\<close>

lemma restore_step_every:
  assumes ok: "opts_ok opts" "offs_ok fs" and sel: "selected opts c" "c < n_chunks opts fs" and every: "every_chunk opts p"
    and st: "st (chunk_start opts c, chunk_limit opts c) = Some (piece opts bs c)"
  shows "\<exists>b' k'. restore_step opts st c (x, region_clip opts (c * o_chunk_size opts), cur, b, k) =
    Some (lcg_step x, region_clip opts ((c + 1) * o_chunk_size opts), write_at cur (nat (chunk_start opts c)) (piece opts bs c), b', k')"
proof -
  note cf = chunk_facts [OF ok sel] and cl = chunk_limit_facts [OF ok sel]
  have o: "o_start opts = 0" "o_probability opts = Fin 1" using every by (simp_all add: every_chunk_def)
  have "c * o_chunk_size opts < o_end opts" using cf(3) o(1) by (simp add: region_end_def chunk_start_def)
  then have e: "region_clip opts (region_clip opts (c * o_chunk_size opts) + o_chunk_size opts) = chunk_limit opts c"
    "region_clip opts ((c + 1) * o_chunk_size opts) = chunk_limit opts c"
    using o(1) by (simp_all add: region_clip_def chunk_limit_def chunk_start_def distrib_right)
  have "take (nat (chunk_limit opts c - chunk_start opts c)) (piece opts bs c) = piece opts bs c"
    by (rule take_all) (simp add: piece_def)
  then show ?thesis
    using st cl(5) by (simp add: restore_step_def Let_def o(2) e drand48_le_one)
qed

lemma restore_fold_every:
  assumes ok: "opts_ok opts" "offs_ok fs" and every: "every_chunk opts p"
    and st: "\<And>d. selected opts d \<Longrightarrow> d < n_chunks opts fs \<Longrightarrow> st (chunk_start opts d, chunk_limit opts d) = Some (piece opts bs d)"
    and len: "int (length bs) = fs" "int (length old) = fs"
  shows "0 \<le> c \<Longrightarrow> mixed opts (c * o_chunk_size opts) bs old cur \<Longrightarrow>
    \<exists>x' e' b' k'. restore_fold opts st (chunks_from opts fs c) (x, region_clip opts (c * o_chunk_size opts), cur, b, k) =
      Inr (x', e', take (nat (o_end opts)) bs @ drop (nat (o_end opts)) old, b', k')"
proof (induction "nat (n_chunks opts fs - c)" arbitrary: c x cur b k rule: less_induct)
  case less
  have o: "o_start opts = 0" "o_mod opts = 1" using every by (simp_all add: every_chunk_def)
  have sel: "selected opts c" using every less.prems(1) by (rule every_chunk_selected)
  show ?case
  proof (cases "c < n_chunks opts fs")
    case True
    obtain b' k' where step: "restore_step opts st c (x, region_clip opts (c * o_chunk_size opts), cur, b, k) =
        Some (lcg_step x, region_clip opts ((c + 1) * o_chunk_size opts), write_at cur (nat (chunk_start opts c)) (piece opts bs c), b', k')"
      using restore_step_every [OF ok sel True every, of st bs] st [OF sel True] by blast
    have "mixed opts ((c + 1) * o_chunk_size opts) bs old (write_at cur (nat (chunk_start opts c)) (piece opts bs c))"
      by (rule mixed_write [OF ok sel True o(1) less.prems(2) len])
    moreover have "nat (n_chunks opts fs - (c + 1)) < nat (n_chunks opts fs - c)" using True by simp
    ultimately show ?thesis
      using less.hyps [of "c + 1"] less.prems(1) by (simp add: chunks_from_step [OF ok(1) sel True] o(2) step)
  next
    case False
    then have "min (o_end opts) fs \<le> c * o_chunk_size opts"
      using less_n_chunks_iff [OF ok(1), of c fs] less.prems(1) o(1) by (auto simp: chunk_start_def region_end_def)
    then have "cur = take (nat (o_end opts)) bs @ drop (nat (o_end opts)) old"
      using less.prems(2) len opts_okD [OF ok(1)] by (intro mixed_all) auto
    with False show ?thesis by (simp add: not_less)
  qed
qed

text \<open>The round trip of the specifications.\<close>

lemma restore_spec_every:
  assumes ok: "opts_ok opts" "offs_ok (int (length bs))" and every: "every_chunk opts p"
    and snap: "snapshot_spec opts bs st0 = (st, b, k)" and len: "length old = length bs"
  shows "\<exists>x' e' b' k'. restore_spec opts st x old = Inr (x', e', take (nat (o_end opts)) bs @ drop (nat (o_end opts)) old, b', k')"
proof -
  have "region_clip opts 0 = 0" using opts_okD(1,2) [OF ok(1)] by (simp add: region_clip_def)
  moreover have "mixed opts 0 bs old old" by (simp add: mixed_def)
  ultimately show ?thesis
    using restore_fold_every [OF ok every snapshot_spec_store [OF ok(1) snap], of old 0 old x 0 0] len
    by (simp add: restore_spec_def)
qed

section \<open>Where the restore mode looks\<close>

text \<open>
  The end of a chunk is accumulated from zero, not computed from its start.  With a region or
  an index that does not begin at zero, the mode therefore looks for names that the snapshot
  mode does not use.
\<close>

definition misses :: "opts_t \<Rightarrow> string \<Rightarrow> int \<Rightarrow> os \<Rightarrow> bool" where
  "misses opts f fs w \<longleftrightarrow> (\<forall>c e. 0 \<le> c \<and> c < n_chunks opts fs \<and> 0 \<le> e \<and> e \<le> (c - uint (o_index opts)) * o_chunk_size opts \<longrightarrow>
     nodes w (resolve (cwd w) (snapshot_path f (chunk_start opts c) (region_clip opts (e + o_chunk_size opts)))) = None)"

lemma misses_off_zero:
  assumes ok: "opts_ok opts" "offs_ok fs" "roomy opts fs"
    and off: "o_end opts = OFF_MAX" "0 < o_start opts \<or> o_index opts \<noteq> 0"
    and only: "\<And>a b. in_s64 a \<Longrightarrow> in_s64 b \<Longrightarrow> nodes w (resolve (cwd w) (snapshot_path f a b)) \<noteq> None \<Longrightarrow> b = a + o_chunk_size opts"
  shows "misses opts f fs w"
  unfolding misses_def
proof (intro allI impI)
  let ?k = "o_chunk_size opts" and ?i = "uint (o_index opts)"
  fix c e assume a: "0 \<le> c \<and> c < n_chunks opts fs \<and> 0 \<le> e \<and> e \<le> (c - ?i) * ?k"
  note o = opts_okD [OF ok(1)]
  have s: "chunk_start opts c < fs" "0 \<le> chunk_start opts c"
    using less_n_chunks_iff [OF ok(1), of c fs] a o by (auto simp: region_end_def chunk_start_def)
  have i0: "0 \<le> ?i * ?k" "o_index opts \<noteq> 0 \<Longrightarrow> 0 < ?i * ?k" using o(4) by (simp_all add: word_neq_0_conv [symmetric] uint_0_iff less_le)
  have less: "e + ?k < chunk_start opts c + ?k"
    using a off(2) i0 o(1) by (auto simp: chunk_start_def left_diff_distrib)
  then have fit: "in_s64 (e + ?k)" "in_s64 (chunk_start opts c)" "region_clip opts (e + ?k) = e + ?k"
    using ok(3) s a o(4) off(1) by (auto simp: roomy_def in_s64_def region_clip_def OFF_MAX_def)
  then show "nodes w (resolve (cwd w) (snapshot_path f (chunk_start opts c) (region_clip opts (e + ?k)))) = None"
    using only [of "chunk_start opts c" "e + ?k"] less by (cases "nodes w (resolve (cwd w) (snapshot_path f (chunk_start opts c) (e + ?k)))") auto
qed

definition miss_inv :: "opts_t \<Rightarrow> string \<Rightarrow> int \<Rightarrow> os \<Rightarrow> int \<Rightarrow> int \<times> int \<times> int \<Rightarrow> os \<Rightarrow> bool" where
  "miss_inv opts f fs wi c = (\<lambda>(e, b, n) w.
     opts_ok opts \<and> offs_ok fs \<and> roomy opts fs \<and> o_file opts = Str f \<and> misses opts f fs wi \<and>
     0 \<le> e \<and> e \<le> (c - uint (o_index opts)) * o_chunk_size opts \<and> b = 0 \<and> n = 0 \<and> fds w = fds wi \<and>
     nodes w = nodes wi \<and> cwd w = cwd wi \<and> inodes w = inodes wi \<and> printed w = printed wi)"

definition miss_bail :: "os \<Rightarrow> int \<Rightarrow> os \<Rightarrow> bool" where
  "miss_bail wi v w \<longleftrightarrow> v = EXIT_IO \<and> fds w = fds wi \<and> nodes w = nodes wi \<and> inodes w = inodes wi"

lemma miss_body:
  assumes inv: "miss_inv opts f fs wi c s w" and sel: "selected opts c" "c < n_chunks opts fs"
  shows "wp False (restore_body opts fd c s) (miss_inv opts f fs wi (c + uint (o_mod opts))) (miss_bail wi) (\<lambda>_ _. False) w"
proof -
  obtain e b k where s: "s = (e, b, k)" by (cases s)
  let ?k = "o_chunk_size opts" and ?i = "uint (o_index opts)" and ?s = "chunk_start opts c"
  have ok: "opts_ok opts" "offs_ok fs" and room: "roomy opts fs" and ff: "o_file opts = Str f" and miss: "misses opts f fs wi"
    and e: "0 \<le> e" "e \<le> (c - ?i) * ?k" and bk: "b = 0" "k = 0" and same: "nodes w = nodes wi" "cwd w = cwd wi"
    using inv by (simp_all add: miss_inv_def s)
  note cf = chunk_facts [OF ok sel] and o = opts_okD [OF ok(1)]
  have "0 \<le> ?i * ?k" using o(4) by simp
  then have ek: "e \<le> c * ?k" using e(2) by (simp add: left_diff_distrib)
  note re = restore_end [OF ok sel e(1) ek]
  let ?e = "region_clip opts (e + ?k)"
  let ?p = "snapshot_path f ?s ?e" and ?w = "w\<lparr>rand_st := lcg_step (rand_st w)\<rparr>"
  have none: "nodes w (resolve (cwd w) ?p) = None" using miss e sel(2) cf(1) same by (simp add: misses_def)
  have m: "0 < uint (o_mod opts)" using o(6) by (auto intro: le_less_trans [OF uint_ge_0])
  have "(c + 1 - ?i) * ?k \<le> (c + uint (o_mod opts) - ?i) * ?k" using m o(4) by (intro mult_right_mono) auto
  then have step: "miss_inv opts f fs wi (c + uint (o_mod opts)) (e', 0, 0) w'"
    if "0 \<le> e'" "e' \<le> e + ?k" "nodes w' = nodes w" "cwd w' = cwd w" "inodes w' = inodes w" "printed w' = printed w" "fds w' = fds w" for e' w'
    using inv e that by (auto simp: miss_inv_def s distrib_right left_diff_distrib)
  obtain er where op: "sys_open ?p O_RDONLY ?w = (-1, (pop_fault ?w)\<lparr>errno_of := er\<rparr>)"
    by (rule sys_open_rdonly [of ?p ?w]) (use none in auto)
  have "miss_bail wi EXIT_IO ((pop_fault ?w)\<lparr>errno_of := er\<rparr>)" using inv by (simp add: miss_bail_def miss_inv_def s)
  moreover have "?e \<le> e + ?k" by (simp add: region_clip_def)
  ultimately show ?thesis
    using step [of e ?w] step [of ?e "(pop_fault ?w)\<lparr>errno_of := er\<rparr>"] re(1,5,7) room e(1) o(4)
    unfolding s restore_body_def bk
    by (auto simp: lib_drand48_def c_str_def ff Let_def wp_lib op wp_chunk_offset [OF ok(1) cf(1) sel(2) ok(2)])
qed

interpretation miss_mode: chunk_mode False opts "n_chunks opts fs" "restore_body opts fd"
    "miss_inv opts f fs wi" "miss_bail wi" for opts f fd fs wi
proof unfold_locales
  fix c s w assume "miss_inv opts f fs wi c s w"
  then have "opts_ok opts" and "offs_ok fs" and "roomy opts fs" by (auto simp: miss_inv_def)
  then show "opts_ok opts \<and> (False \<or> n_chunks opts fs + 2 ^ 32 \<le> LLONG_MAX)"
    using n_chunks_bound [of opts fs] by (auto simp: roomy_def offs_ok_def)
qed (rule miss_body)

lemma wp_restore_misses:
  assumes "opts_ok opts" and "offs_ok fs" and "roomy opts fs" and "o_file opts = Str f" and "misses opts f fs w"
  shows "wp False (corrupt_restore opts fd fs (n_chunks opts fs))
    (\<lambda>v w'. inodes w' = inodes w \<and> nodes w' = nodes w \<and> fds w' = fds w \<and>
      (v = EXIT_OK \<and> printed w' = printed w @ [''Restored 0 chunks (0 bytes)''] \<or> v = EXIT_IO)) R (\<lambda>_ _. False) w"
    (is "wp False _ ?Q _ _ _")
proof -
  have init: "miss_inv opts f fs w (uint (o_index opts)) (0, 0, 0) w"
    using assms by (simp add: miss_inv_def)
  have zero: "show_int 0 = ''0''" by code_simp
  have "wp False (for_chunks opts (n_chunks opts fs) (restore_body opts fd) (0, 0, 0))
      (\<lambda>(_, b, n). wp False (c_bind (c_modify (lib_puts (''Restored '' @ show_int n @ '' chunks ('' @
             show_int b @ '' bytes)''))) (\<lambda>_. c_val EXIT_OK)) ?Q ?Q (\<lambda>_ _. False)) (miss_bail w) (\<lambda>_ _. False) w"
    by (rule miss_mode.wp_loop [OF init]) (auto simp: miss_inv_def lib_puts_def zero split: prod.split)
  then show ?thesis
    unfolding corrupt_restore_def by (auto simp: split_def miss_bail_def elim!: wp_mono)
qed

section \<open>Properties\<close>

text \<open>C3: Round trip.  On a system where no call fails and nothing is in the way of the snapshot
  directory, for the options that take every chunk from the start of the file with probability one:
  the snapshot mode succeeds and keeps the file; and after any change of the file's contents that
  keeps its length, through any descriptor and from any state of the random number generator, the
  restore mode succeeds and brings every byte of the region back to what it was at the snapshot,
  leaving the bytes past the region and all other files alone.\<close>

theorem snapshot_restore_roundtrip:
  assumes "opts_ok opts" "roomy opts fs" "every_chunk opts p" and "snap_room p w" "store_ok p i w"
    and "fd_reg w fd i True True pos" "fs = int (length (inodes w i))"
  shows "\<exists>w1. corrupt_snapshot opts fd fs (n_chunks opts fs) w = Val EXIT_OK w1 \<and>
    inodes w1 i = inodes w i \<and> fd_get (fds w1) = fd_get (fds w) \<and> faults w1 = [] \<and>
    (\<forall>w2 fd2 pos2. touches i w1 w2 \<and> faults w2 = [] \<and> length (inodes w2 i) = length (inodes w i) \<and>
       fd_reg w2 fd2 i True True pos2 \<longrightarrow>
       (\<exists>w3. corrupt_restore opts fd2 fs (n_chunks opts fs) w2 = Val EXIT_OK w3 \<and> touches i w2 w3 \<and>
          inodes w3 i = take (nat (o_end opts)) (inodes w i) @ drop (nat (o_end opts)) (inodes w2 i)))"
proof -
  have ok: "offs_ok fs" using assms(2,7) opts_okD(4) [OF assms(1)] by (simp add: offs_ok_def roomy_def)
  have ff: "o_file opts = Str (path_string p)" using assms(3) by (simp add: every_chunk_def)
  have "wp False (corrupt_snapshot opts fd fs (n_chunks opts fs)) (snapx_post opts p i w) (\<lambda>_ _. False) (\<lambda>_ _. False) w"
    using assms ok ff by (intro wp_snapshot_quiet) auto
  then obtain w1 where w1: "corrupt_snapshot opts fd fs (n_chunks opts fs) w = Val EXIT_OK w1" and post: "snapx_post opts p i w EXIT_OK w1"
    by (rule wp_totalD) (auto simp: snapx_post_def)
  have "\<exists>w3. corrupt_restore opts fd2 fs (n_chunks opts fs) w2 = Val EXIT_OK w3 \<and> touches i w2 w3 \<and>
      inodes w3 i = take (nat (o_end opts)) (inodes w i) @ drop (nat (o_end opts)) (inodes w2 i)"
    if w2: "touches i w1 w2" "faults w2 = []" "length (inodes w2 i) = length (inodes w i)" "fd_reg w2 fd2 i True True pos2" for w2 fd2 pos2
  proof -
    have "wp False (corrupt_restore opts fd2 fs (n_chunks opts fs)) (restx_post opts p i w2) (\<lambda>_ _. False) (\<lambda>_ _. False) w2"
    proof (rule wp_restore_quiet [OF assms(1) ok assms(2) ff _ _ w2(4)])
      show "snap_room p w2" "store_ok p i w2"
        using post w2(1,2) snap_ready_room touches_store(2) [OF w2(1)] by (auto simp: snapx_post_def snap_ready_def touches_def)
    qed (use w2(3) assms(7) in simp)
    moreover obtain b k where "snapshot_spec opts (inodes w i) (store_of p w) = (store_of p w2, b, k)"
      using post touches_store(1) [OF w2(1)] by (auto simp: snapx_post_def)
    then obtain x e b' k' where "restore_spec opts (store_of p w2) (rand_st w2) (inodes w2 i) =
        Inr (x, e, take (nat (o_end opts)) (inodes w i) @ drop (nat (o_end opts)) (inodes w2 i), b', k')"
      using restore_spec_every [OF assms(1) _ assms(3)] ok assms(7) w2(3) by blast
    ultimately show ?thesis by (auto simp: restx_post_def elim: wp_totalD)
  qed
  with w1 post assms(5) show ?thesis by (auto simp: snapx_post_def snap_ready_def store_ok_def)
qed

lemma every_opts_every: "every_chunk every_opts [''f'']"
  by (simp add: every_chunk_def path_string_def)

theorem snapshot_restore_roundtrip_witness:
  "\<exists>w1 w3. corrupt_snapshot every_opts 0 8 (n_chunks every_opts 8)
       (sample_os [1, 2, 3, 4, 5, 6, 7, 8] [Some (new_ofd (Reg 0) O_RDWR)]) = Val EXIT_OK w1 \<and>
     corrupt_restore every_opts 0 8 (n_chunks every_opts 8) (w1\<lparr>inodes := (inodes w1)(0 := replicate 8 0)\<rparr>) = Val EXIT_OK w3 \<and>
     inodes w3 0 = [1, 2, 3, 4, 5, 6, 7, 8]"
proof -
  let ?w = "sample_os [1, 2, 3, 4, 5, 6, 7, 8] [Some (new_ofd (Reg 0) O_RDWR)]"
  have len: "8 = int (length (inodes ?w 0))" by simp
  obtain w1 where w1: "corrupt_snapshot every_opts 0 8 (n_chunks every_opts 8) ?w = Val EXIT_OK w1"
      "fd_get (fds w1) = fd_get (fds ?w)" "faults w1 = []"
    and rest: "\<And>w2 fd2 pos2. touches 0 w1 w2 \<and> faults w2 = [] \<and> length (inodes w2 0) = length (inodes ?w 0) \<and>
       fd_reg w2 fd2 0 True True pos2 \<Longrightarrow>
       \<exists>w3. corrupt_restore every_opts fd2 8 (n_chunks every_opts 8) w2 = Val EXIT_OK w3 \<and> touches 0 w2 w3 \<and>
          inodes w3 0 = take (nat (o_end every_opts)) (inodes ?w 0) @ drop (nat (o_end every_opts)) (inodes w2 0)"
    using snapshot_restore_roundtrip [OF every_opts_ok(1,2) every_opts_every sample_snap_room sample_fd_reg len] by blast
  have "fd_reg (w1\<lparr>inodes := (inodes w1)(0 := replicate 8 0)\<rparr>) 0 0 True True 0"
    using w1(2) sample_fd_reg [of "[1, 2, 3, 4, 5, 6, 7, 8]"] by (simp add: fd_reg_def)
  with rest [of "w1\<lparr>inodes := (inodes w1)(0 := replicate 8 0)\<rparr>" 0 0] w1 show ?thesis
    by (auto simp: every_opts_ok)
qed

text \<open>C20: With the end of the region left at its default, the largest offset, and a region that does not start at
  zero or a first chunk that is not chunk zero, the restore mode does not find the snapshots of whole chunks: for every
  fault plan and generator state, if every existing snapshot of the file ends one chunk size after it
  starts, as those do that the snapshot mode takes under these options, then the file is not changed, and a
  successful run reports that zero chunks were restored.  (An end that cuts off the first chunk makes both modes
  choose the same name; such a region is not one of these.)\<close>

theorem restore_misses_snapshots:
  assumes "opts_ok opts" and "roomy opts fs" and "o_file opts = Str f" and "0 \<le> fs"
    and "o_end opts = OFF_MAX" and "0 < o_start opts \<or> o_index opts \<noteq> 0"
    and "\<forall>a b. in_s64 a \<and> in_s64 b \<and> nodes w (resolve (cwd w) (snapshot_path f a b)) \<noteq> None \<longrightarrow> b = a + o_chunk_size opts"
  shows "\<exists>v w'. corrupt_restore opts fd fs (n_chunks opts fs) w = Val v w' \<and>
    inodes w' = inodes w \<and> nodes w' = nodes w \<and> fds w' = fds w \<and>
    (v = EXIT_OK \<and> printed w' = printed w @ [''Restored 0 chunks (0 bytes)''] \<or> v = EXIT_IO)"
proof -
  have fs: "offs_ok fs" using assms(2,4) opts_okD(4) [OF assms(1)] by (simp add: offs_ok_def roomy_def)
  moreover have "misses opts f fs w" using misses_off_zero [OF assms(1) fs assms(2,5,6)] assms(7) by blast
  ultimately show ?thesis
    using wp_restore_misses [OF assms(1) _ assms(2,3), of w fd "\<lambda>_ _. False"] by (auto elim: wp_totalD)
qed

theorem restore_misses_snapshots_witness:
  "\<exists>v w'. corrupt_restore (every_opts\<lparr>o_start := 2\<rparr>) 0 8 (n_chunks (every_opts\<lparr>o_start := 2\<rparr>) 8)
       ((sample_os [1, 2, 3, 4, 5, 6, 7, 8] [])\<lparr>nodes := [[''f''] \<mapsto> Reg 0, snapshot_at [''f''] 2 5 \<mapsto> Reg 1]\<rparr>) = Val v w' \<and>
     inodes w' 0 = [1, 2, 3, 4, 5, 6, 7, 8]"
proof -
  let ?o = "every_opts\<lparr>o_start := 2\<rparr>"
  let ?w = "(sample_os [1, 2, 3, 4, 5, 6, 7, 8] [])\<lparr>nodes := [[''f''] \<mapsto> Reg 0, snapshot_at [''f''] 2 5 \<mapsto> Reg 1]\<rparr>"
  have o: "opts_ok ?o" "roomy ?o 8" "o_file ?o = Str ''/f''" "o_end ?o = OFF_MAX" "0 < o_start ?o \<or> o_index ?o \<noteq> 0"
    by (simp_all add: every_opts_def default_opts_def opts_ok_def roomy_def OFF_MAX_def)
  have "resolve (cwd ?w) (snapshot_path ''/f'' a b) = snapshot_at [''f''] a b" if "in_s64 a" "in_s64 b" for a b
    using snapshot_path_plain [of "[''f'']" a b] that by (simp add: resolve_plain canonical_def plain_def path_string_def)
  then have "\<forall>a b. in_s64 a \<and> in_s64 b \<and> nodes ?w (resolve (cwd ?w) (snapshot_path ''/f'' a b)) \<noteq> None \<longrightarrow>
      b = a + o_chunk_size ?o"
    using snapshot_at_inject [of "[''f'']" _ _ 2 5]
    by (auto simp: every_opts_def split: if_splits) (auto simp: snapshot_at_def comps_def split_SNAPSHOT_DIR)
  from restore_misses_snapshots [OF o(1-3) _ o(4,5) this, of 0] obtain v w' where
    "corrupt_restore ?o 0 8 (n_chunks ?o 8) ?w = Val v w'" "inodes w' = inodes ?w" by auto
  then show ?thesis by auto
qed

end
