(* ===== verification/CF_Bitflip.thy ===== *)
theory CF_Bitflip
  imports CF_Copy
begin

unbundle bit_operations_syntax

text \<open>
  The bitflip mode of \<open>corrupt-file.c\<close>: it walks through the bits of the selected chunks
  in steps drawn from an exponential distribution and flips the bit it lands on.

  \<open>flip_walk\<close> is the reference: a walk with these steps through the bits of the selected chunks, put
  one after the other.  The lemmas show, for every fault plan, that the mode ends (or meets undefined
  behaviour in a conversion or a sum) and flips the bits of the walk, that the reported number of flips
  is the number of bits that differ afterwards, and that all other bits are kept.
  The lemmas about the loops hold with undefined behaviour admitted and, under \<open>flip_safe\<close>, without it.
\<close>

section \<open>The mode\<close>

definition flip_mask :: "int \<Rightarrow> (os, byte) prog" where
  "flip_mask target =
     (let target_bit = word_of_int target :: 8 word in
      if 32 \<le> unat target_bit then c_undef ShiftRange else c_val (push_bit (unat target_bit) 1))"

definition flip_body :: "(dbl \<Rightarrow> dbl) \<Rightarrow> opts_t \<Rightarrow> int \<Rightarrow> int
    \<Rightarrow> int \<times> int \<times> byte \<times> int \<Rightarrow> (os, int \<times> int \<times> byte \<times> int) prog" where
  "flip_body clog opts fd start = (\<lambda>(bit_offset, byte_offset, buf, bits_flipped).
     c_bind (s64_mod bit_offset 8) (\<lambda>target_bit.
     c_bind (flip_mask target_bit) (\<lambda>mask.
     c_bind (s64 (start + byte_offset)) (\<lambda>off.
     c_bind (c_lib (sys_pread fd 1 off)) (\<lambda>(ret_size, bs).
     if ret_size < 0 then c_return EXIT_IO
     else
       let buf' = (case bs of [] \<Rightarrow> buf | b # _ \<Rightarrow> b) XOR mask in
       c_bind (c_lib (sys_pwrite fd [buf'] off)) (\<lambda>ret_size.
       if ret_size < 0 then c_return EXIT_IO
       else
         c_bind (s64 (bits_flipped + 1)) (\<lambda>flipped.
         c_bind (rand_exp_int clog (o_probability opts)) (\<lambda>delta.
         c_bind (s64 (bit_offset + (if delta = 0 then 1 else delta))) (\<lambda>bit_offset'.
         c_bind (s64_div bit_offset' 8) (\<lambda>byte_offset'.
         c_val (bit_offset', byte_offset', buf', flipped)))))))))))"

definition flip_chunk :: "(dbl \<Rightarrow> dbl) \<Rightarrow> opts_t \<Rightarrow> int \<Rightarrow> int
    \<Rightarrow> int \<times> int \<times> int \<times> byte \<times> int \<times> int \<Rightarrow> (os, int \<times> int \<times> int \<times> byte \<times> int \<times> int) prog" where
  "flip_chunk clog opts fd file_size = (\<lambda>(chunk, bit_offset, byte_offset, buf, chunks_processed, bits_flipped).
     c_bind (chunk_offset opts chunk) (\<lambda>start.
     c_bind (s64 (start + o_chunk_size opts)) (\<lambda>end0.
     c_bind (s64 (clip_end opts file_size end0 - start)) (\<lambda>chunk_size.
     c_bind (c_while (\<lambda>(_, byte_offset, _). byte_offset < chunk_size) (flip_body clog opts fd start)
         (bit_offset, byte_offset, buf, bits_flipped))
       (\<lambda>(bit_offset, byte_offset, buf, bits_flipped).
     c_bind (s64 (chunks_processed + 1)) (\<lambda>processed.
     c_bind (s64 (chunk_size * 8)) (\<lambda>bits.
     c_bind (s64 (bit_offset - bits)) (\<lambda>bit_offset'.
     c_bind (s64 (byte_offset - chunk_size)) (\<lambda>byte_offset'.
     c_bind (s64 (chunk + uint (o_mod opts))) (\<lambda>chunk'.
     c_val (chunk', bit_offset', byte_offset', buf, processed, bits_flipped)))))))))))"

definition flip_report :: "int \<Rightarrow> int \<Rightarrow> string" where
  "flip_report chunks_processed bits_flipped =
     ''Processed '' @ show_int chunks_processed @ '' chunks ('' @ show_int bits_flipped @ '' bitflips)''"

definition corrupt_bitflip :: "(dbl \<Rightarrow> dbl) \<Rightarrow> opts_t \<Rightarrow> int \<Rightarrow> int \<Rightarrow> int \<Rightarrow> (os, int) prog" where
  "corrupt_bitflip clog opts fd file_size count =
     c_call
       (c_bind (rand_exp_int clog (o_probability opts)) (\<lambda>bit_offset.
        c_bind (s64_div bit_offset 8) (\<lambda>byte_offset.
        c_bind (c_while (\<lambda>(chunk, _). chunk < count) (flip_chunk clog opts fd file_size)
            (uint (o_index opts), bit_offset, byte_offset, 0, 0, 0))
          (\<lambda>(_, _, _, _, chunks_processed, bits_flipped).
        c_bind (c_modify (lib_puts (flip_report chunks_processed bits_flipped))) (\<lambda>_.
        c_val EXIT_OK)))))"

section \<open>Bits of a file\<close>

definition bit_at :: "byte list \<Rightarrow> nat \<Rightarrow> bool" where
  "bit_at bs k = bit (bs ! (k div 8)) (k mod 8)"

definition flip_at :: "byte list \<Rightarrow> nat \<Rightarrow> byte list" where
  "flip_at bs k = bs[k div 8 := (bs ! (k div 8)) XOR push_bit (k mod 8) 1]"

lemma length_flip_at [simp]: "length (flip_at bs k) = length bs"
  by (simp add: flip_at_def)

lemma bit_at_flip_at:
  assumes "k div 8 < length bs"
  shows "bit_at (flip_at bs k) j = (bit_at bs j \<noteq> (j = k))"
proof (cases "j div 8 = k div 8")
  case True
  have "j mod 8 < 8" by simp
  moreover have "j mod 8 = k mod 8 \<longleftrightarrow> j = k"
    using True by (metis div_mult_mod_eq)
  ultimately show ?thesis
    using True assms
    by (auto simp: bit_at_def flip_at_def bit_simps possible_bit_def)
next
  case False
  then have "j \<noteq> k" by auto
  with False show ?thesis by (simp add: bit_at_def flip_at_def)
qed

text \<open>\<open>bs'\<close> is \<open>bs\<close> with exactly the bits of \<open>ps\<close> flipped.\<close>

definition flipped :: "nat list \<Rightarrow> byte list \<Rightarrow> byte list \<Rightarrow> bool" where
  "flipped ps bs bs' \<longleftrightarrow>
     length bs' = length bs \<and> distinct ps \<and> (\<forall>k. bit_at bs' k = (bit_at bs k \<noteq> (k \<in> set ps)))"

lemma flipped_Nil [simp]: "flipped [] bs bs"
  by (simp add: flipped_def)

lemma flipped_step:
  assumes "flipped ps bs bs'" and "k \<notin> set ps" and "k div 8 < length bs"
  shows "flipped (k # ps) bs (flip_at bs' k)"
  using assms by (auto simp: flipped_def bit_at_flip_at)

section \<open>The walk\<close>

text \<open>
  What the mode means to do.  Put the bits of the selected chunks one after the other: this is the
  stream.  Start at a position drawn from the exponential distribution, flip the bit there, move on
  by the next draw (at least one), and so on to the end of the stream.
\<close>

definition exp_draw :: "(dbl \<Rightarrow> dbl) \<Rightarrow> dbl \<Rightarrow> rng \<Rightarrow> int" where
  "exp_draw clog p x = (case d_mul (d_div (Fin (-1)) p) (clog (Fin (of_int x / 2 ^ 48))) of Fin r \<Rightarrow> d_trunc r | _ \<Rightarrow> 0)"

function exp_walk :: "(dbl \<Rightarrow> dbl) \<Rightarrow> dbl \<Rightarrow> nat \<Rightarrow> rng \<Rightarrow> nat \<Rightarrow> nat list" where
  "exp_walk clog p n x s =
     (if s < n then s # exp_walk clog p n (lcg_step x) (s + nat (max 1 (exp_draw clog p (lcg_step x)))) else [])"
  by auto
termination by (relation "measure (\<lambda>(_, _, n, _, s). n - s)") auto

declare exp_walk.simps [simp del]

definition chunk_bits :: "opts_t \<Rightarrow> int \<Rightarrow> int \<Rightarrow> nat list" where
  "chunk_bits opts fs c = [8 * nat (chunk_start opts c) ..< 8 * nat (chunk_end opts fs c)]"

definition bit_stream :: "opts_t \<Rightarrow> int \<Rightarrow> int list \<Rightarrow> nat list" where
  "bit_stream opts fs cs = concat (map (chunk_bits opts fs) cs)"

definition flip_walk :: "(dbl \<Rightarrow> dbl) \<Rightarrow> opts_t \<Rightarrow> int \<Rightarrow> rng \<Rightarrow> nat list" where
  "flip_walk clog opts fs x =
     (let bits = bit_stream opts fs (chunks_from opts fs 0); p = o_probability opts
      in map (\<lambda>s. bits ! s) (exp_walk clog p (length bits) (lcg_step x) (nat (exp_draw clog p (lcg_step x)))))"

text \<open>The same walk chunk by chunk, with the position counted from the start of the current chunk.\<close>

function walk_chunks :: "(dbl \<Rightarrow> dbl) \<Rightarrow> opts_t \<Rightarrow> int \<Rightarrow> int list \<Rightarrow> rng \<Rightarrow> int \<Rightarrow> nat list" where
  "walk_chunks clog opts fs [] x bo = []"
| "walk_chunks clog opts fs (c # cs) x bo =
     (if bo < 8 * (chunk_end opts fs c - chunk_start opts c)
      then nat (8 * chunk_start opts c + bo) #
        walk_chunks clog opts fs (c # cs) (lcg_step x) (bo + max 1 (exp_draw clog (o_probability opts) (lcg_step x)))
      else walk_chunks clog opts fs cs x (bo - 8 * (chunk_end opts fs c - chunk_start opts c)))"
  by pat_completeness auto
termination
  by (relation "measures [\<lambda>(_, _, _, cs, _, _). length cs,
      \<lambda>(_, opts, fs, cs, _, bo). case cs of [] \<Rightarrow> 0 | c # _ \<Rightarrow> nat (8 * (chunk_end opts fs c - chunk_start opts c) - bo)]") auto

declare walk_chunks.simps(2) [simp del]

lemma exp_walk_shift: "exp_walk clog p (a + n) x (a + s) = map ((+) a) (exp_walk clog p n x s)"
proof (induction clog p n x s rule: exp_walk.induct)
  case (1 clog p n x s)
  then show ?case
    unfolding exp_walk.simps [of clog p "a + n" x "a + s"] exp_walk.simps [of clog p n x s]
    by (simp add: add.assoc)
qed

lemma exp_walk_bounds: "k \<in> set (exp_walk clog p n x s) \<Longrightarrow> s \<le> k \<and> k < n"
proof (induction clog p n x s rule: exp_walk.induct)
  case (1 clog p n x s)
  then show ?case
    unfolding exp_walk.simps [of clog p n x s] by (force split: if_splits)
qed

lemma walk_chunks_stream:
  assumes "\<forall>c \<in> set cs. 0 \<le> chunk_start opts c \<and> chunk_start opts c \<le> chunk_end opts fs c" and "0 \<le> bo"
  shows "walk_chunks clog opts fs cs x bo =
    map (\<lambda>s. bit_stream opts fs cs ! s) (exp_walk clog (o_probability opts) (length (bit_stream opts fs cs)) x (nat bo))"
  using assms
proof (induction clog opts fs cs x bo rule: walk_chunks.induct)
  case (1 clog opts fs x bo)
  show ?case by (simp add: bit_stream_def exp_walk.simps)
next
  case (2 clog opts fs c cs x bo)
  let ?size = "8 * (chunk_end opts fs c - chunk_start opts c)" and ?bits = "chunk_bits opts fs c"
  have len: "length ?bits = nat ?size" using "2.prems" by (auto simp: chunk_bits_def)
  have split: "bit_stream opts fs (c # cs) = ?bits @ bit_stream opts fs cs" by (simp add: bit_stream_def)
  show ?case
  proof (cases "bo < ?size")
    case True
    have "8 * nat (chunk_start opts c) + nat bo < 8 * nat (chunk_end opts fs c)"
      "8 * nat (chunk_start opts c) + nat bo = nat (8 * chunk_start opts c + bo)" using True "2.prems" by auto
    then have "?bits ! nat bo = nat (8 * chunk_start opts c + bo)" by (simp add: chunk_bits_def)
    moreover have "nat bo < length (?bits @ bit_stream opts fs cs)" "nat bo < length ?bits" using True "2.prems"(2) len by simp_all
    ultimately show ?thesis
      using "2.IH"(1) [OF True "2.prems"(1)] "2.prems"(2) True
      by (simp add: walk_chunks.simps(2) [of clog opts fs c cs x bo] split nth_append nat_add_distrib
          exp_walk.simps [of clog "o_probability opts" "length ?bits + length (bit_stream opts fs cs)" x "nat bo"])
  next
    case False
    have bo: "nat bo = length ?bits + nat (bo - ?size)" using False "2.prems" len by (simp add: nat_diff_distrib)
    show ?thesis
      using False "2.IH"(2) [OF False] "2.prems"
      by (simp add: walk_chunks.simps(2) [of clog opts fs c cs x bo] split bo exp_walk_shift comp_def)
  qed
qed

section \<open>The exponential steps are not negative\<close>

text \<open>
  What the code relies on of the library's logarithm: minus infinity at zero, and a
  finite value that is not positive between zero and one.
\<close>

definition log_ok :: "(dbl \<Rightarrow> dbl) \<Rightarrow> bool" where
  "log_ok clog \<longleftrightarrow> clog (Fin 0) = NInf \<and> (\<forall>x. 0 < x \<and> x < 1 \<longrightarrow> (\<exists>r \<le> 0. clog (Fin x) = Fin r))"

lemma rnd_nonpos:
  assumes "x \<le> 0"
  shows "rnd x = NInf \<or> (\<exists>r \<le> 0. rnd x = Fin r)"
proof (cases "x = 0")
  case False
  define u where "u = max (expo \<bar>x\<bar> - 52) (- 1074)"
  have "0 \<le> rne (\<bar>x\<bar> / pow2 u)"
    by (rule rne_nonneg) (simp add: less_imp_le)
  then have "0 \<le> pow2 u * of_int (rne (\<bar>x\<bar> / pow2 u))"
    by (simp add: less_imp_le)
  with False assms show ?thesis
    unfolding rnd_def Let_def u_def [symmetric] by simp
qed (simp add: rnd_def)

lemma d_mul_nonneg:
  assumes "a = NInf \<or> (\<exists>r \<le> 0. a = Fin r)" and "b = NInf \<or> (\<exists>r \<le> 0. b = Fin r)"
  shows "d_mul a b = NaN \<or> d_mul a b = PInf \<or> (\<exists>r \<ge> 0. d_mul a b = Fin r)"
  using assms by auto (use rnd_nonneg [OF mult_nonpos_nonpos] in blast)

lemma d_div_minus_one:
  assumes "\<not> d_less p (Fin 0)"
  shows "d_div (Fin (-1)) p = NaN \<or> d_div (Fin (-1)) p = NInf \<or> (\<exists>r \<le> 0. d_div (Fin (-1)) p = Fin r)"
  using assms rnd_nonpos by (cases p) (auto simp: divide_nonpos_pos)

text \<open>No draw but zero gives a step above \<open>G\<close>.\<close>

definition exp_le :: "(dbl \<Rightarrow> dbl) \<Rightarrow> dbl \<Rightarrow> int \<Rightarrow> bool" where
  "exp_le clog p G \<longleftrightarrow> (\<forall>x::int. 0 < x \<and> x < 2 ^ 48 \<longrightarrow>
     (\<exists>r \<le> of_int G. d_mul (d_div (Fin (-1)) p) (clog (Fin (of_int x / 2 ^ 48))) = Fin r))"

lemma exp_leD:
  "exp_le clog p G \<Longrightarrow> 0 < x \<Longrightarrow> x < 2 ^ 48 \<Longrightarrow>
    \<exists>r. d_mul (d_div (Fin (-1)) p) (clog (Fin (of_int x / 2 ^ 48))) = Fin r \<and> r \<le> of_int G"
  unfolding exp_le_def by blast

lemma exp_leI:
  assumes "1 / 2 ^ 20 \<le> q" and log: "\<And>x. 1 / 2 ^ 48 \<le> x \<Longrightarrow> x < 1 \<Longrightarrow> \<exists>r. - 34 \<le> r \<and> r \<le> 0 \<and> clog (Fin x) = Fin r"
  shows "exp_le clog (Fin q) (2 ^ 28)"
  unfolding exp_le_def
proof (intro allI impI)
  fix x :: int assume x: "0 < x \<and> x < 2 ^ 48"
  have "0 < (1 / 2 ^ 20 :: rat)" by simp
  then have q: "0 < q" using assms(1) by linarith
  then have b: "\<bar>- 1 / q\<bar> \<le> 2 ^ 20" using assms(1) by (simp add: field_simps)
  then have "\<bar>- 1 / q\<bar> \<le> 2 ^ 60" by (rule order_trans) simp
  then obtain a where a: "rnd (- 1 / q) = Fin a" "\<bar>a\<bar> \<le> 2 * \<bar>- 1 / q\<bar> + 1" by (rule rnd_bound)
  with b have a2: "\<bar>a\<bar> \<le> 2 ^ 21 + 1" by simp
  have "1 \<le> x" "x < 2 ^ 48" using x by simp_all
  then have "(1::rat) \<le> of_int x" "(of_int x :: rat) < of_int (2 ^ 48)" by (simp_all only: of_int_1_le_iff of_int_less_iff)
  then obtain r where r: "- 34 \<le> r" "r \<le> 0" "clog (Fin (of_int x / 2 ^ 48)) = Fin r"
    using log [of "of_int x / 2 ^ 48"] by (auto simp: divide_right_mono)
  have m: "\<bar>a * r\<bar> \<le> (2 ^ 21 + 1) * 34"
    unfolding abs_mult using a2 r(1,2) by (intro mult_mono) auto
  then have "\<bar>a * r\<bar> \<le> 2 ^ 60" by (rule order_trans) simp
  then obtain s where s: "rnd (a * r) = Fin s" "\<bar>s\<bar> \<le> 2 * \<bar>a * r\<bar> + 1" by (rule rnd_bound)
  then have "s \<le> of_int (2 ^ 28)" using m by simp
  with s show "\<exists>r \<le> of_int (2 ^ 28). d_mul (d_div (Fin (-1)) (Fin q)) (clog (Fin (of_int x / 2 ^ 48))) = Fin r"
    using q a(1) r(3) by auto
qed

lemma wp_rand_exp_int:
  assumes "log_ok clog" and "\<not> d_less p (Fin 0)"
    and safe: "u \<or> lcg_step (rand_st w) \<noteq> 0 \<and> exp_le clog p (2 ^ 28)"
    and post: "\<And>d. 0 \<le> d \<Longrightarrow> in_s64 d \<Longrightarrow> u \<or> d \<le> 2 ^ 28 \<Longrightarrow>
      d = exp_draw clog p (lcg_step (rand_st w)) \<Longrightarrow> Q d (w\<lparr>rand_st := lcg_step (rand_st w)\<rparr>)"
  shows "wp u (rand_exp_int clog p) Q R X w"
proof -
  let ?x = "lcg_step (rand_st w)"
  let ?u = "of_int ?x / 2 ^ 48 :: rat" and ?d = "d_mul (d_div (Fin (-1)) p) (clog (Fin (of_int ?x / 2 ^ 48)))"
  have "rng_ok ?x" by simp
  then have x: "0 \<le> ?x" "?x < 2 ^ 48" by (simp_all add: rng_ok_def)
  then have "0 \<le> ?u" and "of_int ?x < (of_int (2 ^ 48) :: rat)"
    by (simp_all only: of_int_less_iff) simp
  then have "?u < 1" by simp
  with \<open>0 \<le> ?u\<close> assms(1) have "clog (Fin ?u) = NInf \<or> (\<exists>r \<le> 0. clog (Fin ?u) = Fin r)"
    unfolding log_ok_def by (cases "?u = 0") (auto simp: less_le)
  then have d: "?d = NaN \<or> ?d = PInf \<or> (\<exists>r \<ge> 0. ?d = Fin r)"
    using d_div_minus_one [OF assms(2)] d_mul_nonneg by auto
  have "u \<or> (\<exists>r. ?d = Fin r \<and> r \<le> of_int (2 ^ 28))"
  proof (cases u)
    case False
    with safe x show ?thesis by (intro disjI2 exp_leD) auto
  qed simp
  moreover have "in_s64 (d_trunc r) \<and> d_trunc r \<le> 2 ^ 28" if "0 \<le> r" "r \<le> of_int (2 ^ 28)" for r
    using that floor_mono [OF that(2)] by (auto simp: d_trunc_def in_s64_def)
  ultimately show ?thesis
    using d post d_trunc_nonneg
    by (auto simp: rand_exp_int_def wp_lib lib_drand48_def Let_def wp_d_to_s64 exp_draw_def)
qed

section \<open>Reading and writing one byte\<close>

lemma sys_pread_byte:
  assumes "fd_reg w fd i True True pos" and "0 \<le> off" and "nat off < length (inodes w i)"
  obtains (failed) e where "sys_pread fd 1 off w = ((-1, []), (pop_fault w)\<lparr>errno_of := e\<rparr>)"
  | (got) "sys_pread fd 1 off w = ((1, [inodes w i ! nat off]), pop_fault w)"
proof (cases "\<exists>e. next_fault w = Fail e")
  case True
  then show ?thesis using failed by (auto simp: sys_pread_def syscall_def fail_def)
next
  case False
  have "read_at (inodes w i) (nat off) 1 = [inodes w i ! nat off]"
    using assms(3) by (simp add: read_at_def take_Suc_conv_app_nth [of 0] hd_drop_conv_nth take_Suc)
  with False assms show ?thesis
    by (intro got) (cases "next_fault w"; auto simp: sys_pread_def syscall_def do_pread_def fd_reg_def Let_def)
qed

lemma sys_pwrite_byte:
  assumes "fd_reg w fd i True True pos" and "0 \<le> off" and "nat off < length (inodes w i)"
  obtains (failed) e where "sys_pwrite fd [b] off w = (-1, (pop_fault w)\<lparr>errno_of := e\<rparr>)"
  | (put) "sys_pwrite fd [b] off w =
      (1, (pop_fault w)\<lparr>inodes := (inodes w)(i := (inodes w i)[nat off := b])\<rparr>)"
proof (cases "\<exists>e. next_fault w = Fail e")
  case True
  then show ?thesis using failed by (auto simp: sys_pwrite_def syscall_def fail_def)
next
  case False
  have "write_at (inodes w i) (nat off) [b] = (inodes w i)[nat off := b]"
    using assms(3) by (simp add: write_at_def upd_conv_take_nth_drop)
  with False assms show ?thesis
    by (intro put) (cases "next_fault w"; auto simp: sys_pwrite_def syscall_def do_pwrite_def fd_reg_def)
qed

section \<open>The loops\<close>

text \<open>
  The file holds the original with \<open>bf\<close> distinct bits flipped, all in selected chunks and
  all before the bit position \<open>lm\<close>; they are the walk's positions up to now, and \<open>rest\<close> is what
  the walk has left.
\<close>

definition walk_from :: "(dbl \<Rightarrow> dbl) \<Rightarrow> opts_t \<Rightarrow> int \<Rightarrow> rng \<Rightarrow> nat list" where
  "walk_from clog opts fs x =
     walk_chunks clog opts fs (chunks_from opts fs 0) (lcg_step x) (exp_draw clog (o_probability opts) (lcg_step x))"

definition flip_state :: "(dbl \<Rightarrow> dbl) \<Rightarrow> opts_t \<Rightarrow> int \<Rightarrow> nat \<Rightarrow> os \<Rightarrow> int \<Rightarrow> nat list \<Rightarrow> int \<Rightarrow> os \<Rightarrow> bool" where
  "flip_state clog opts fs i wi lm rest bf w \<longleftrightarrow>
     touches i wi w \<and> fds w = fds wi \<and> printed w = printed wi \<and>
     (\<exists>ps. flipped ps (inodes wi i) (inodes w i) \<and> int (length ps) = bf \<and>
       (\<forall>k \<in> set ps. k div 8 \<in> selected_bytes opts fs \<and> int k < lm) \<and>
       walk_from clog opts fs (rand_st wi) = rev ps @ rest)"

text \<open>
  When nothing is undefined: the sums fit, the steps are bounded, and the generator does not
  come by zero in as many draws as the file has bits, and one.
\<close>

definition flip_safe :: "(dbl \<Rightarrow> dbl) \<Rightarrow> opts_t \<Rightarrow> int \<Rightarrow> os \<Rightarrow> bool" where
  "flip_safe clog opts fs wi \<longleftrightarrow> roomy opts fs \<and> fs \<le> 2 ^ 58 \<and> exp_le clog (o_probability opts) (2 ^ 28) \<and>
     (\<forall>n. int n \<le> 8 * fs \<longrightarrow> (lcg_step ^^ Suc n) (rand_st wi) \<noteq> 0)"

definition flip_env :: "bool \<Rightarrow> (dbl \<Rightarrow> dbl) \<Rightarrow> opts_t \<Rightarrow> int \<Rightarrow> int \<Rightarrow> nat \<Rightarrow> os \<Rightarrow> bool" where
  "flip_env u clog opts fd fs i wi \<longleftrightarrow>
     log_ok clog \<and> opts_ok opts \<and> offs_ok fs \<and> \<not> d_less (o_probability opts) (Fin 0) \<and>
     (\<exists>pos. fd_reg wi fd i True True pos) \<and> int (length (inodes wi i)) = fs \<and> (u \<or> flip_safe clog opts fs wi)"

text \<open>The cursor is at bit \<open>bo\<close>, after \<open>bf\<close> flips and one draw more.\<close>

definition flip_cursor :: "bool \<Rightarrow> int \<Rightarrow> os \<Rightarrow> int \<Rightarrow> int \<Rightarrow> os \<Rightarrow> bool" where
  "flip_cursor u fs wi bo bf w \<longleftrightarrow> 0 \<le> bo \<and> in_s64 bo \<and>
     (u \<or> bo \<le> 8 * fs + 2 ^ 28 \<and> rand_st w = (lcg_step ^^ Suc (nat bf)) (rand_st wi))"

definition flip_bail :: "(dbl \<Rightarrow> dbl) \<Rightarrow> opts_t \<Rightarrow> int \<Rightarrow> nat \<Rightarrow> os \<Rightarrow> int \<Rightarrow> os \<Rightarrow> bool" where
  "flip_bail clog opts fs i wi v w \<longleftrightarrow> v = EXIT_IO \<and> (\<exists>lm rest bf. flip_state clog opts fs i wi lm rest bf w)"

lemma flip_safeD:
  "flip_safe clog opts fs wi \<Longrightarrow> 0 \<le> n \<Longrightarrow> n \<le> 8 * fs \<Longrightarrow> lcg_step ((lcg_step ^^ nat n) (rand_st wi)) \<noteq> 0"
  unfolding flip_safe_def by (metis comp_apply funpow.simps(2) int_nat_eq)

lemma flip_stateI:
  assumes "touches i wi w" and "fds w = fds wi" and "printed w = printed wi"
    and "flipped ps (inodes wi i) (inodes w i)" and "int (length ps) = bf"
    and "\<And>k. k \<in> set ps \<Longrightarrow> k div 8 \<in> selected_bytes opts fs \<and> int k < lm"
    and "walk_from clog opts fs (rand_st wi) = rev ps @ rest"
  shows "flip_state clog opts fs i wi lm rest bf w"
  using assms unfolding flip_state_def by blast

lemma flip_stateE:
  assumes "flip_state clog opts fs i wi lm rest bf w"
  obtains ps where "touches i wi w" and "fds w = fds wi" and "printed w = printed wi"
    and "flipped ps (inodes wi i) (inodes w i)" and "int (length ps) = bf"
    and "\<And>k. k \<in> set ps \<Longrightarrow> k div 8 \<in> selected_bytes opts fs \<and> int k < lm"
    and "walk_from clog opts fs (rand_st wi) = rev ps @ rest"
  using assms unfolding flip_state_def by blast

lemma flip_state_mono:
  "flip_state clog opts fs i wi lm rest bf w \<Longrightarrow> lm \<le> lm2 \<Longrightarrow> flip_state clog opts fs i wi lm2 rest bf w"
  by (erule flip_stateE) (rule flip_stateI, auto dest: less_le_trans)

lemma flip_state_count:
  assumes "flip_state clog opts fs i wi lm rest bf w" and "opts_ok opts" "offs_ok fs"
  shows "0 \<le> bf" "bf \<le> 8 * fs"
proof -
  obtain ps where ps: "distinct ps" "int (length ps) = bf" "\<And>k. k \<in> set ps \<Longrightarrow> k div 8 \<in> selected_bytes opts fs"
    using assms(1) by (auto simp: flipped_def elim!: flip_stateE)
  show "0 \<le> bf" using ps(2) by simp
  have "int (k div 8) < fs" if "k \<in> set ps" for k
    using ps(3) [OF that] chunk_facts [OF assms(2,3)] by (force simp: selected_bytes_def chunk_bytes_def)
  then have "set ps \<subseteq> {..< nat (8 * fs)}" by force
  from card_mono [OF _ this] ps(1,2) assms(3) show "bf \<le> 8 * fs" by (auto simp: distinct_card offs_ok_def le_nat_iff)
qed

lemma flip_state_updates [simp]:
  "flip_state clog opts fs i wi lm rest bf (pop_fault w) = flip_state clog opts fs i wi lm rest bf w"
  "flip_state clog opts fs i wi lm rest bf (w\<lparr>errno_of := e\<rparr>) = flip_state clog opts fs i wi lm rest bf w"
  "flip_state clog opts fs i wi lm rest bf (w\<lparr>rand_st := x\<rparr>) = flip_state clog opts fs i wi lm rest bf w"
  by (simp_all add: flip_state_def)

lemma flip_state_step:
  assumes st: "flip_state clog opts fs i wi (int k) (k # rest) bf w"
    and k: "k div 8 < length (inodes wi i)" "k div 8 \<in> selected_bytes opts fs"
    and w': "touches i w w'" "fds w' = fds w" "printed w' = printed w" "inodes w' i = flip_at (inodes w i) k"
  shows "flip_state clog opts fs i wi (int k + 1) rest (bf + 1) w'"
proof -
  obtain ps where t: "touches i wi w" "fds w = fds wi" "printed w = printed wi"
    and ps: "flipped ps (inodes wi i) (inodes w i)" "int (length ps) = bf"
    "\<And>j. j \<in> set ps \<Longrightarrow> j div 8 \<in> selected_bytes opts fs \<and> int j < int k"
    "walk_from clog opts fs (rand_st wi) = rev ps @ k # rest"
    using st by (rule flip_stateE) blast
  show ?thesis
  proof (rule flip_stateI [where ps = "k # ps"])
    show "touches i wi w'" using touches_trans [OF t(1) w'(1)] .
    have "k \<notin> set ps" using ps(3) by blast
    then show "flipped (k # ps) (inodes wi i) (inodes w' i)"
      unfolding w'(4) using ps(1) k(1) by (intro flipped_step)
    fix j assume "j \<in> set (k # ps)"
    then show "j div 8 \<in> selected_bytes opts fs \<and> int j < int k + 1"
      using ps(3) [of j] k(2) by auto
  qed (use t w' ps in simp_all)
qed

lemma flip_mask_wp:
  assumes "0 \<le> t" and "t < 8"
  shows "wp u (flip_mask t) Q R X w = Q (push_bit (nat t) 1) w"
proof -
  have "t = 0 \<or> t = 1 \<or> t = 2 \<or> t = 3 \<or> t = 4 \<or> t = 5 \<or> t = 6 \<or> t = 7"
    using assms by linarith
  then have "unat (word_of_int t :: byte) = nat t" by (elim disjE) simp_all
  moreover have "\<not> 32 \<le> nat t" using assms by simp
  ultimately show ?thesis by (simp only: flip_mask_def Let_def if_False wp_val)
qed

text \<open>The bit at \<open>bit_offset\<close> from the chunk's start.\<close>

lemma flip_pos:
  assumes "0 \<le> start" and "0 \<le> bo"
  defines "k \<equiv> nat (8 * start + bo)"
  shows "k div 8 = nat (start + bo div 8)" "k mod 8 = nat (bo mod 8)" "int k = 8 * start + bo"
proof -
  show k: "int k = 8 * start + bo" using assms by simp
  have "int (k div 8) = start + bo div 8" and "int (k mod 8) = bo mod 8"
    unfolding zdiv_int zmod_int k by simp_all
  then show "k div 8 = nat (start + bo div 8)" "k mod 8 = nat (bo mod 8)" by simp_all
qed

text \<open>What the walk has left when the cursor is at bit \<open>bo\<close> of chunk \<open>c\<close>.\<close>

abbreviation walk_rest :: "(dbl \<Rightarrow> dbl) \<Rightarrow> opts_t \<Rightarrow> int \<Rightarrow> int \<Rightarrow> os \<Rightarrow> int \<Rightarrow> nat list" where
  "walk_rest clog opts fs c w bo \<equiv> walk_chunks clog opts fs (chunks_from opts fs c) (rand_st w) bo"

abbreviation flip_at_cursor :: "(dbl \<Rightarrow> dbl) \<Rightarrow> opts_t \<Rightarrow> int \<Rightarrow> nat \<Rightarrow> os \<Rightarrow> int \<Rightarrow> int \<Rightarrow> int \<Rightarrow> os \<Rightarrow> bool" where
  "flip_at_cursor clog opts fs i wi c bo bf w \<equiv>
     flip_state clog opts fs i wi (8 * chunk_start opts c + bo) (walk_rest clog opts fs c w bo) bf w"

lemma walk_rest_flip:
  assumes "opts_ok opts" and "selected opts c" "c < n_chunks opts fs" and "bo div 8 < chunk_end opts fs c - chunk_start opts c"
  shows "walk_rest clog opts fs c w bo = nat (8 * chunk_start opts c + bo) #
    walk_chunks clog opts fs (chunks_from opts fs c) (lcg_step (rand_st w)) (bo + max 1 (exp_draw clog (o_probability opts) (lcg_step (rand_st w))))"
  using assms(4)
  by (simp add: chunks_from_step [OF assms(1-3)] walk_chunks.simps(2) [where x = "rand_st w" and bo = bo] div_less_iff_less_mult)

lemma walk_rest_next:
  assumes "opts_ok opts" and "selected opts c" "c < n_chunks opts fs" and "chunk_end opts fs c - chunk_start opts c \<le> bo div 8"
  shows "walk_rest clog opts fs c w bo =
    walk_rest clog opts fs (c + uint (o_mod opts)) w (bo - (chunk_end opts fs c - chunk_start opts c) * 8)"
  using assms(4)
  by (simp add: chunks_from_step [OF assms(1-3)] walk_chunks.simps(2) [where x = "rand_st w" and bo = bo] le_zdiv_iff mult.commute
      del: left_diff_distrib_numeral right_diff_distrib_numeral)

text \<open>Counting the flip and moving on, after the bit was written.\<close>

lemma flip_advance_wp:
  assumes env: "flip_env u clog opts fd fs i wi" and sel: "selected opts c" "c < n_chunks opts fs"
    and cur: "flip_cursor u fs wi bo bf w" and inside: "bo div 8 < chunk_end opts fs c - chunk_start opts c"
    and st: "flip_at_cursor clog opts fs i wi c bo bf w"
    and st2: "flip_state clog opts fs i wi (8 * chunk_start opts c + bo + 1) (tl (walk_rest clog opts fs c w bo)) (bf + 1) w2"
    and rand: "rand_st w2 = rand_st w"
    and post: "\<And>bo' w' b. bo < bo' \<Longrightarrow> flip_cursor u fs wi bo' (bf + 1) w' \<Longrightarrow>
      flip_at_cursor clog opts fs i wi c bo' (bf + 1) w' \<Longrightarrow> Q (bo', bo' div 8, b, bf + 1) w'"
  shows "wp u (c_bind (s64 (bf + 1)) (\<lambda>flipped.
         c_bind (rand_exp_int clog (o_probability opts)) (\<lambda>delta.
         c_bind (s64 (bo + (if delta = 0 then 1 else delta))) (\<lambda>bit_offset'.
         c_bind (s64_div bit_offset' 8) (\<lambda>byte_offset'.
         c_val (bit_offset', byte_offset', b, flipped)))))) Q R X w2"
proof -
  have ok: "opts_ok opts" "offs_ok fs"
    and lg: "log_ok clog" "\<not> d_less (o_probability opts) (Fin 0)" and safe: "u \<or> flip_safe clog opts fs wi"
    using env by (simp_all add: flip_env_def)
  have bo: "0 \<le> bo" "in_s64 bo" using cur by (simp_all add: flip_cursor_def)
  note cnt = flip_state_count [OF st ok] flip_state_count [OF st2 ok]
  have draw: "u \<or> rand_st w2 = (lcg_step ^^ Suc (nat bf)) (rand_st wi) \<and> lcg_step (rand_st w2) \<noteq> 0"
    using cur rand safe cnt flip_safeD [of clog opts fs wi "bf + 1"] by (auto simp: flip_cursor_def nat_add_distrib)
  have in_file: "bo < 8 * fs" using inside chunk_facts [OF ok sel] by (simp add: div_less_iff_less_mult)
  then have fits: "u \<or> in_s64 (bf + 1) \<and> (\<forall>d. 0 \<le> d \<and> d \<le> 2 ^ 28 \<longrightarrow> in_s64 (bo + d))"
    using safe cnt bo(1) by (auto simp: flip_safe_def in_s64_def)
  have "Q (bo + d, (bo + d) div 8, b, bf + 1) (w2\<lparr>rand_st := lcg_step (rand_st w2)\<rparr>)"
    if "1 \<le> d" "in_s64 (bo + d)" "u \<or> d \<le> 2 ^ 28" "d = max 1 (exp_draw clog (o_probability opts) (lcg_step (rand_st w2)))" for d
  proof (rule post)
    show "flip_at_cursor clog opts fs i wi c (bo + d) (bf + 1) (w2\<lparr>rand_st := lcg_step (rand_st w2)\<rparr>)"
      using st2 that(1) unfolding walk_rest_flip [OF ok(1) sel inside] that(4) rand [symmetric]
      by (auto intro: flip_state_mono)
    show "flip_cursor u fs wi (bo + d) (bf + 1) (w2\<lparr>rand_st := lcg_step (rand_st w2)\<rparr>)"
      using that(1-3) draw cnt in_file bo(1) by (auto simp: flip_cursor_def nat_add_distrib)
  qed (use that in simp)
  moreover have "(if d = 0 then 1 else d) = max 1 d" if "0 \<le> d" for d :: int using that by auto
  ultimately show ?thesis
    using bo fits draw safe by (auto intro!: wp_rand_exp_int [OF lg] simp: wp_s64_div_nonneg flip_safe_def)
qed

text \<open>The byte the cursor is on, and the state after it was written.\<close>

lemma flip_target:
  assumes env: "flip_env u clog opts fd fs i wi" and sel: "selected opts c" "c < n_chunks opts fs"
    and cur: "flip_cursor u fs wi bo bf w" and inside: "bo div 8 < chunk_end opts fs c - chunk_start opts c"
    and st: "flip_at_cursor clog opts fs i wi c bo bf w"
  defines "off \<equiv> chunk_start opts c + bo div 8"
  shows "0 \<le> off" "nat off < length (inodes w i)" "in_s64 off" "\<exists>pos. fd_reg w fd i True True pos"
    "flip_state clog opts fs i wi (8 * chunk_start opts c + bo + 1) (tl (walk_rest clog opts fs c w bo)) (bf + 1)
      ((pop_fault (pop_fault w))\<lparr>inodes := (inodes w)(i := (inodes w i)[nat off := inodes w i ! nat off XOR push_bit (nat (bo mod 8)) 1])\<rparr>)"
proof -
  have ok: "opts_ok opts" "offs_ok fs" and len: "int (length (inodes wi i)) = fs"
    using env by (simp_all add: flip_env_def)
  have bo: "0 \<le> bo" using cur by (simp add: flip_cursor_def)
  note f = chunk_facts [OF ok sel]
  let ?k = "nat (8 * chunk_start opts c + bo)"
  note k = flip_pos [OF f(2) bo]
  obtain ps where t: "fds w = fds wi" and ps: "flipped ps (inodes wi i) (inodes w i)" using st by (rule flip_stateE) blast
  have len': "length (inodes w i) = length (inodes wi i)" using ps by (simp add: flipped_def)
  show "\<exists>pos. fd_reg w fd i True True pos" using env t by (auto simp: flip_env_def fd_reg_def)
  show off: "0 \<le> off" "nat off < length (inodes w i)" "in_s64 off"
    using f bo inside len len' ok(2) by (auto simp: off_def in_s64_def offs_ok_def)
  have inch: "?k div 8 \<in> selected_bytes opts fs"
    using f(2) bo inside sel unfolding k(1)
    by (auto simp: selected_bytes_def chunk_bytes_def intro!: exI [of _ c])
  have cursor: "flip_state clog opts fs i wi (int ?k) (?k # tl (walk_rest clog opts fs c w bo)) bf w"
    using st k(3) by (simp add: walk_rest_flip [OF ok(1) sel inside])
  have "flip_state clog opts fs i wi (int ?k + 1) (tl (walk_rest clog opts fs c w bo)) (bf + 1)
      ((pop_fault (pop_fault w))\<lparr>inodes := (inodes w)(i := (inodes w i)[nat off := inodes w i ! nat off XOR push_bit (nat (bo mod 8)) 1])\<rparr>)"
    by (rule flip_state_step [OF cursor]) (use inch off(2) len' k in \<open>simp_all add: touches_def off_def flip_at_def\<close>)
  then show "flip_state clog opts fs i wi (8 * chunk_start opts c + bo + 1) (tl (walk_rest clog opts fs c w bo)) (bf + 1)
      ((pop_fault (pop_fault w))\<lparr>inodes := (inodes w)(i := (inodes w i)[nat off := inodes w i ! nat off XOR push_bit (nat (bo mod 8)) 1])\<rparr>)"
    by (simp only: k(3))
qed

lemma flip_body_wp:
  assumes env: "flip_env u clog opts fd fs i wi" and sel: "selected opts c" "c < n_chunks opts fs"
    and cur: "flip_cursor u fs wi bo bf w" and inside: "bo div 8 < chunk_end opts fs c - chunk_start opts c"
    and st: "flip_at_cursor clog opts fs i wi c bo bf w"
    and post: "\<And>bo' w' b. bo < bo' \<Longrightarrow> flip_cursor u fs wi bo' (bf + 1) w' \<Longrightarrow>
      flip_at_cursor clog opts fs i wi c bo' (bf + 1) w' \<Longrightarrow> Q (bo', bo' div 8, b, bf + 1) w'"
  shows "wp u (flip_body clog opts fd (chunk_start opts c) (bo, bo div 8, buf, bf)) Q
    (flip_bail clog opts fs i wi) (\<lambda>_ _. False) w"
proof -
  have bo: "0 \<le> bo" "in_s64 bo" using cur by (simp_all add: flip_cursor_def)
  let ?off = "chunk_start opts c + bo div 8"
  note t = flip_target [OF env sel cur inside st]
  obtain pos where fd: "fd_reg w fd i True True pos" using t(4) ..
  let ?b = "inodes w i ! nat ?off XOR push_bit (nat (bo mod 8)) 1"
  have bail: "flip_bail clog opts fs i wi EXIT_IO (pop_fault w)"
    using st by (auto simp: flip_bail_def)
  let ?w2 = "(pop_fault (pop_fault w))\<lparr>inodes := (inodes w)(i := (inodes w i)[nat ?off := ?b])\<rparr>"
  have rest: "wp u (c_bind (s64 (bf + 1)) (\<lambda>flipped.
         c_bind (rand_exp_int clog (o_probability opts)) (\<lambda>delta.
         c_bind (s64 (bo + (if delta = 0 then 1 else delta))) (\<lambda>bit_offset'.
         c_bind (s64_div bit_offset' 8) (\<lambda>byte_offset'.
         c_val (bit_offset', byte_offset', ?b, flipped)))))) Q (flip_bail clog opts fs i wi) (\<lambda>_ _. False) ?w2"
    by (rule flip_advance_wp [OF env sel cur inside st t(5)]) (use post in simp_all)
  show ?thesis
  proof (rule sys_pread_byte [OF fd t(1,2)])
    fix e assume "sys_pread fd 1 ?off w = ((-1, []), (pop_fault w)\<lparr>errno_of := e\<rparr>)"
    with bail show ?thesis
      using bo t(3) by (simp add: flip_body_def wp_s64_mod_nonneg flip_mask_wp wp_lib flip_bail_def)
  next
    assume rd: "sys_pread fd 1 ?off w = ((1, [inodes w i ! nat ?off]), pop_fault w)"
    have fd': "fd_reg (pop_fault w) fd i True True pos" using fd by (simp add: fd_reg_def)
    show ?thesis
    proof (rule sys_pwrite_byte [OF fd' t(1), where b = ?b])
      show "nat ?off < length (inodes (pop_fault w) i)" using t(2) by simp
    next
      fix e assume "sys_pwrite fd [?b] ?off (pop_fault w) = (-1, (pop_fault (pop_fault w))\<lparr>errno_of := e\<rparr>)"
      with bail rd show ?thesis
        using bo t(3) by (simp add: flip_body_def wp_s64_mod_nonneg flip_mask_wp wp_lib flip_bail_def Let_def)
    next
      assume "sys_pwrite fd [?b] ?off (pop_fault w) = (1, (pop_fault (pop_fault w))
          \<lparr>inodes := (inodes (pop_fault w))(i := (inodes (pop_fault w) i)[nat ?off := ?b])\<rparr>)"
      with rest rd show ?thesis
        using bo t(3) by (simp add: flip_body_def wp_s64_mod_nonneg flip_mask_wp wp_lib Let_def)
    qed
  qed
qed

text \<open>The loop over the bits of one chunk: it ends past the chunk.\<close>

lemma flip_loop_wp:
  assumes env: "flip_env u clog opts fd fs i wi" and sel: "selected opts c" "c < n_chunks opts fs"
    and cur: "flip_cursor u fs wi bo bf w" and st: "flip_at_cursor clog opts fs i wi c bo bf w"
    and post: "\<And>bo' w' b bf'. flip_cursor u fs wi bo' bf' w' \<Longrightarrow> chunk_end opts fs c - chunk_start opts c \<le> bo' div 8 \<Longrightarrow>
      flip_at_cursor clog opts fs i wi c bo' bf' w' \<Longrightarrow> Q (bo', bo' div 8, b, bf') w'"
  shows "wp u (c_while (\<lambda>(_, byte_offset, _). byte_offset < chunk_end opts fs c - chunk_start opts c)
      (flip_body clog opts fd (chunk_start opts c)) (bo, bo div 8, buf, bf)) Q
    (flip_bail clog opts fs i wi) (\<lambda>_ _. False) w"
proof (rule wp_while [where I = "\<lambda>(bo, byo, b, bf) w. flip_cursor u fs wi bo bf w \<and> byo = bo div 8 \<and>
        flip_at_cursor clog opts fs i wi c bo bf w" and
      m = "\<lambda>(bo, _) w. nat (8 * (chunk_end opts fs c - chunk_start opts c) - bo)"])
  let ?size = "chunk_end opts fs c - chunk_start opts c"
  fix s :: "int \<times> int \<times> byte \<times> int" and w'
  assume "(case s of (bo, byo, b, bf) \<Rightarrow> \<lambda>w. flip_cursor u fs wi bo bf w \<and> byo = bo div 8 \<and>
      flip_at_cursor clog opts fs i wi c bo bf w) w'"
    and "case s of (_, byte_offset, _) \<Rightarrow> byte_offset < ?size"
  then obtain bo b bf where s: "s = (bo, bo div 8, b, bf)" and cur: "flip_cursor u fs wi bo bf w'" and bo: "bo div 8 < ?size"
    and st: "flip_at_cursor clog opts fs i wi c bo bf w'"
    by auto
  have "bo < 8 * ?size" using bo by (simp add: div_less_iff_less_mult mult.commute)
  then show "wp u (flip_body clog opts fd (chunk_start opts c) s)
      (\<lambda>s' w''. (case s' of (bo, byo, b, bf) \<Rightarrow> \<lambda>w. flip_cursor u fs wi bo bf w \<and> byo = bo div 8 \<and>
         flip_at_cursor clog opts fs i wi c bo bf w) w'' \<and>
       (case s' of (bo, _) \<Rightarrow> \<lambda>w. nat (8 * ?size - bo)) w'' <
       (case s of (bo, _) \<Rightarrow> \<lambda>w. nat (8 * ?size - bo)) w')
      (flip_bail clog opts fs i wi) (\<lambda>_ _. False) w'"
    unfolding s by (intro flip_body_wp [OF env sel cur bo st]) auto
qed (use cur st post in \<open>auto simp: not_less\<close>)

definition flip_inv :: "bool \<Rightarrow> (dbl \<Rightarrow> dbl) \<Rightarrow> opts_t \<Rightarrow> int \<Rightarrow> nat \<Rightarrow> os
    \<Rightarrow> int \<times> int \<times> int \<times> byte \<times> int \<times> int \<Rightarrow> os \<Rightarrow> bool" where
  "flip_inv u clog opts fs i wi = (\<lambda>(c, bo, byo, b, n, bf) w. selected opts c \<and> flip_cursor u fs wi bo bf w \<and>
     byo = bo div 8 \<and> 0 \<le> n \<and> n \<le> c \<and> n + int (length (chunks_from opts fs c)) = int (length (chunks_from opts fs 0)) \<and>
     flip_at_cursor clog opts fs i wi c bo bf w)"

lemma flip_chunk_wp:
  assumes env: "flip_env u clog opts fd fs i wi" and inv: "flip_inv u clog opts fs i wi s w"
    and less: "fst s < n_chunks opts fs"
  shows "wp u (flip_chunk clog opts fd fs s)
    (\<lambda>s' w'. flip_inv u clog opts fs i wi s' w' \<and> nat (n_chunks opts fs - fst s') < nat (n_chunks opts fs - fst s))
    (flip_bail clog opts fs i wi) (\<lambda>_ _. False) w"
proof -
  obtain c bo b n bf where s: "s = (c, bo, bo div 8, b, n, bf)" and sel: "selected opts c" and n: "0 \<le> n" "n \<le> c"
    and left: "n + int (length (chunks_from opts fs c)) = int (length (chunks_from opts fs 0))"
    and cur: "flip_cursor u fs wi bo bf w" and st: "flip_at_cursor clog opts fs i wi c bo bf w"
    using inv by (auto simp: flip_inv_def)
  have c: "c < n_chunks opts fs" using less s by simp
  have ok: "opts_ok opts" "offs_ok fs" and safe: "u \<or> flip_safe clog opts fs wi" using env by (simp_all add: flip_env_def)
  note f = chunk_facts [OF ok sel c]
  let ?size = "chunk_end opts fs c - chunk_start opts c" and ?c' = "c + uint (o_mod opts)"
  have m: "0 < uint (o_mod opts)" "uint (o_mod opts) < 2 ^ 32"
    using opts_okD(6) [OF ok(1)] uint_lt2p [of "o_mod opts"] by (auto intro: le_less_trans [OF uint_ge_0])
  have nxt: "flip_inv u clog opts fs i wi (?c', bo' - ?size * 8, bo' div 8 - ?size, b', n + 1, bf') w'"
    if "?size \<le> bo' div 8" "flip_cursor u fs wi bo' bf' w'" "flip_at_cursor clog opts fs i wi c bo' bf' w'" for bo' b' bf' w'
  proof -
    have "flip_at_cursor clog opts fs i wi ?c' (bo' - ?size * 8) bf' w'"
      using that(3) unfolding walk_rest_next [OF ok(1) sel c that(1)]
      by (rule flip_state_mono) (use chunk_start_strict_mono [OF ok(1), of c ?c'] m f(7) in simp)
    moreover have "bo' div 8 - ?size = (bo' - ?size * 8) div 8" by simp
    moreover have "flip_cursor u fs wi (bo' - ?size * 8) bf' w'"
      using that(1,2) f(4) by (auto simp: flip_cursor_def in_s64_def)
    ultimately show ?thesis
      using selected_step [OF sel] m n left chunks_from_step [OF ok(1) sel c] by (simp only: flip_inv_def) simp
  qed
  have sz: "in_s64 ?size"
    using f ok(2) by (simp add: in_s64_def offs_ok_def)
  have "c < fs" using n_chunks_bound [OF ok(1), of fs] c ok(2) by (simp add: offs_ok_def)
  then have fits: "u" if "\<not> (in_s64 (chunk_start opts c + o_chunk_size opts) \<and> in_s64 (n + 1) \<and> in_s64 (?size * 8) \<and> in_s64 ?c')"
    using that safe f m n opts_okD(4) [OF ok(1)] by (auto simp: flip_safe_def roomy_def in_s64_def)
  have sub: "in_s64 (bo' - ?size * 8)" "in_s64 (bo' div 8 - ?size)"
    if "?size \<le> bo' div 8" "flip_cursor u fs wi bo' bf' w'" for bo' bf' w'
    using that f(4) by (auto simp: in_s64_def flip_cursor_def)
  show ?thesis
    unfolding s flip_chunk_def
    using m c sz
    by (auto simp: wp_chunk_offset [OF ok(1) f(1) c ok(2)] simp del: left_diff_distrib_numeral
        intro!: flip_loop_wp [OF env sel c cur st] nxt fits dest: sub)
qed

section \<open>The whole mode\<close>

text \<open>The walk, chunk by chunk, is the walk over the stream.\<close>

lemma walk_from_stream:
  assumes "opts_ok opts" "offs_ok fs" and "0 \<le> exp_draw clog (o_probability opts) (lcg_step x)"
  shows "walk_from clog opts fs x = flip_walk clog opts fs x"
proof -
  have "0 \<le> chunk_start opts c \<and> chunk_start opts c \<le> chunk_end opts fs c" if "c \<in> set (chunks_from opts fs 0)" for c
    using that chunk_facts [OF assms(1,2), of c] by (auto simp: chunks_from_def)
  then show ?thesis
    using walk_chunks_stream [OF _ assms(3)] by (simp add: walk_from_def flip_walk_def Let_def)
qed

definition flip_post :: "(dbl \<Rightarrow> dbl) \<Rightarrow> opts_t \<Rightarrow> int \<Rightarrow> nat \<Rightarrow> os \<Rightarrow> int \<Rightarrow> os \<Rightarrow> bool" where
  "flip_post clog opts fs i wi v w \<longleftrightarrow>
     touches i wi w \<and> fds w = fds wi \<and>
     (\<exists>ps rest. flipped ps (inodes wi i) (inodes w i) \<and> (\<forall>k \<in> set ps. k div 8 \<in> selected_bytes opts fs) \<and>
        flip_walk clog opts fs (rand_st wi) = ps @ rest \<and>
        (v = EXIT_IO \<and> printed w = printed wi \<or>
         v = EXIT_OK \<and> rest = [] \<and>
         printed w = printed wi @ [flip_report (int (length (chunks_from opts fs 0))) (int (length ps))]))"

lemma flipped_rev [simp]: "flipped (rev ps) = flipped ps"
  by (simp add: flipped_def fun_eq_iff)

lemma flip_post_state:
  assumes "flip_state clog opts fs i wi lm rest bf w" and "walk_from clog opts fs (rand_st wi) = flip_walk clog opts fs (rand_st wi)"
  shows "flip_post clog opts fs i wi EXIT_IO w"
    "rest = [] \<Longrightarrow> n = int (length (chunks_from opts fs 0)) \<Longrightarrow> flip_post clog opts fs i wi EXIT_OK (lib_puts (flip_report n bf) w)"
proof -
  obtain ps where ps: "touches i wi w" "fds w = fds wi" "printed w = printed wi" "flipped (rev ps) (inodes wi i) (inodes w i)"
    "int (length (rev ps)) = bf" "\<forall>k \<in> set (rev ps). k div 8 \<in> selected_bytes opts fs"
    "flip_walk clog opts fs (rand_st wi) = rev ps @ rest"
    using assms by (auto elim!: flip_stateE)
  then show "flip_post clog opts fs i wi EXIT_IO w" unfolding flip_post_def by blast
  show "flip_post clog opts fs i wi EXIT_OK (lib_puts (flip_report n bf) w)"
    if "rest = []" "n = int (length (chunks_from opts fs 0))"
    using ps that unfolding flip_post_def lib_puts_def by auto
qed

lemma wp_corrupt_bitflip:
  assumes env: "flip_env u clog opts fd fs i w"
  shows "wp u (corrupt_bitflip clog opts fd fs (n_chunks opts fs)) (flip_post clog opts fs i w) R (\<lambda>_ _. False) w"
proof -
  have ok: "opts_ok opts" "offs_ok fs" and lg: "log_ok clog" "\<not> d_less (o_probability opts) (Fin 0)"
    and safe: "u \<or> flip_safe clog opts fs w"
    using env by (simp_all add: flip_env_def)
  let ?loop = "c_while (\<lambda>(chunk, _). chunk < n_chunks opts fs) (flip_chunk clog opts fd fs)"
  have loop: "wp u (?loop (uint (o_index opts), bo, bo div 8, 0, 0, 0))
      (\<lambda>(c, bo, byo, b, n, bf) w'. flip_post clog opts fs i w EXIT_OK (lib_puts (flip_report n bf) w')) (flip_post clog opts fs i w) (\<lambda>_ _. False) w1"
    if cur: "flip_cursor u fs w bo 0 w1" and w1: "w1 = w\<lparr>rand_st := lcg_step (rand_st w)\<rparr>"
      and bo: "0 \<le> bo" "bo = exp_draw clog (o_probability opts) (lcg_step (rand_st w))" for bo w1
  proof (rule wp_while [where I = "flip_inv u clog opts fs i w" and m = "\<lambda>s w. nat (n_chunks opts fs - fst s)"])
    have "flip_at_cursor clog opts fs i w (uint (o_index opts)) bo 0 w1"
      using w1 bo by (intro flip_stateI [where ps = "[]"]) (simp_all add: walk_from_def chunks_from_init)
    then show "flip_inv u clog opts fs i w (uint (o_index opts), bo, bo div 8, 0, 0, 0) w1"
      using cur by (simp add: flip_inv_def selected_def chunks_from_init)
    have walk: "walk_from clog opts fs (rand_st w) = flip_walk clog opts fs (rand_st w)"
      using bo by (intro walk_from_stream ok) simp
    have bail: "flip_post clog opts fs i w v w'" if "flip_bail clog opts fs i w v w'" for v w'
      using that flip_post_state(1) [OF _ walk] by (auto simp: flip_bail_def)
    show "wp u (flip_chunk clog opts fd fs s) (\<lambda>s' w'. flip_inv u clog opts fs i w s' w' \<and>
        nat (n_chunks opts fs - fst s') < nat (n_chunks opts fs - fst s)) (flip_post clog opts fs i w) (\<lambda>_ _. False) w'"
      if "flip_inv u clog opts fs i w s w'" and "case s of (c, _) \<Rightarrow> c < n_chunks opts fs" for s w'
      by (rule wp_mono [OF flip_chunk_wp [OF env that(1)]]) (use that(2) bail in auto)
    fix s w' assume "flip_inv u clog opts fs i w s w'" and "\<not> (case s of (c, _) \<Rightarrow> c < n_chunks opts fs)"
    then obtain c bo byo b n bf where s: "s = (c, bo, byo, b, n, bf)" and c: "n_chunks opts fs \<le> c"
      and n: "n = int (length (chunks_from opts fs 0))" and st: "flip_at_cursor clog opts fs i w c bo bf w'"
      by (cases s) (auto simp: flip_inv_def not_less)
    show "(case s of (c, bo, byo, b, n, bf) \<Rightarrow> \<lambda>w'. flip_post clog opts fs i w EXIT_OK (lib_puts (flip_report n bf) w')) w'"
      using flip_post_state(2) [OF st walk _ n] c by (simp add: s)
  qed
  have "u \<or> lcg_step (rand_st w) \<noteq> 0 \<and> exp_le clog (o_probability opts) (2 ^ 28)"
    using safe ok(2) flip_safeD [of clog opts fs w 0] by (auto simp: flip_safe_def offs_ok_def)
  then show ?thesis
    unfolding corrupt_bitflip_def
    using loop safe ok(2)
    by (auto simp: wp_s64_div_nonneg split_def flip_cursor_def flip_safe_def offs_ok_def intro!: wp_rand_exp_int [OF lg])
qed

section \<open>Properties\<close>

text \<open>C4: The bitflip mode on an open file of the given size, with validated options, for every fault plan and
  every state of the generator: unless an arithmetic result or a conversion from floating point is
  undefined, it ends, and the file differs from the original in exactly a first part of the bits of the
  reference walk through the bits of the selected chunks: all of them and without repetition on success,
  when it reports the number of selected chunks and of bits; those flipped so far on an I/O error.
  The descriptors and all other files are kept.\<close>

theorem corrupt_bitflip_correct:
  assumes "log_ok clog" and "opts_ok opts" and "\<not> d_less (o_probability opts) (Fin 0)"
    and "fd_reg w fd i True True pos" and "fs = int (length (inodes w i))" and "fs \<le> LLONG_MAX"
  shows "(\<exists>r. corrupt_bitflip clog opts fd fs (n_chunks opts fs) w = Undef r) \<or>
    (\<exists>v w' ps rest. corrupt_bitflip clog opts fd fs (n_chunks opts fs) w = Val v w' \<and>
       touches i w w' \<and> fds w' = fds w \<and> flip_walk clog opts fs (rand_st w) = ps @ rest \<and>
       flipped ps (inodes w i) (inodes w' i) \<and> (\<forall>k \<in> set ps. k div 8 \<in> selected_bytes opts fs) \<and>
       (v = EXIT_IO \<and> printed w' = printed w \<or>
        v = EXIT_OK \<and> rest = [] \<and>
          printed w' = printed w @ [flip_report (int (length (chunks_from opts fs 0))) (int (length ps))]))"
proof -
  have "flip_env True clog opts fd fs i w"
    using assms by (auto simp: flip_env_def offs_ok_def)
  from wp_corrupt_bitflip [OF this, where R = "\<lambda>_ _. False"] show ?thesis
    by (cases "corrupt_bitflip clog opts fd fs (n_chunks opts fs) w") (auto simp: wp_def flip_post_def)
qed

text \<open>A logarithm that draws a step of eight bits at probability one eighth.\<close>

definition sample_log :: "dbl \<Rightarrow> dbl" where
  "sample_log x = (case x of Fin r \<Rightarrow> if r = 0 then NInf else Fin (- 1) | _ \<Rightarrow> NaN)"

lemma sample_log_ok [simp]: "log_ok sample_log"
  by (auto simp: log_ok_def sample_log_def)

lemma sample_exp_step:
  assumes "lcg_step (rand_st w) \<noteq> 0"
  shows "rand_exp_int sample_log (Fin (1 / 8)) w = Val 8 (w\<lparr>rand_st := lcg_step (rand_st w)\<rparr>)"
  using assms rnd_of_int [of "-8"] rnd_of_int [of 8]
  by (simp add: rand_exp_int_def c_run lib_drand48_def Let_def sample_log_def
      d_to_s64_def d_trunc_def in_s64_def)

abbreviation flip_opts :: opts_t where
  "flip_opts \<equiv> sample_opts\<lparr>o_probability := Fin (1 / 8)\<rparr>"

abbreviation flip_os :: os where
  "flip_os \<equiv> sample_os [1, 2, 3, 4, 5, 6, 7, 8] [Some (new_ofd (Reg 0) O_RDWR)]"

lemmas flip_run_simps =
  flip_chunk_def [THEN fun_cong, of _ _ _ _ "(c, bo, byo, b, n, bf)" for c bo byo b n bf]
  flip_body_def [THEN fun_cong, of _ _ _ _ "(bo, byo, b, bf)" for bo byo b bf]
  c_while_unfold [where c = "flip_chunk a b c d" for a b c d]
  c_while_unfold [where c = "flip_body a b c d" for a b c d]

lemma sample_flip_run: "\<exists>w'. corrupt_bitflip sample_log flip_opts 0 8 4 flip_os = Val EXIT_OK w'"
  by (simp add: corrupt_bitflip_def c_run sample_opts_def default_opts_def sample_os_def
      sample_exp_step lcg_step_def s64_div_def s64_mod_def s64_def
      in_s64_def sdiv_nonneg_int smod_nonneg_int OFF_MAX_def flip_run_simps
      chunk_offset_def clip_end_def Let_def flip_mask_def sys_pread_def sys_pwrite_def syscall_def
      do_pread_def do_pwrite_def next_fault_def pop_fault_def fd_get_def new_ofd_def read_at_def
      write_at_def lib_puts_def)

lemma sample_draw: "x \<noteq> 0 \<Longrightarrow> exp_draw sample_log (Fin (1 / 8)) x = 8"
  using rnd_of_int [of "-8"] rnd_of_int [of 8] by (simp add: exp_draw_def sample_log_def d_trunc_def)

text \<open>Of four chunks of two bytes the first and the third are selected; every draw is a step of eight bits.\<close>

lemma sample_walk: "chunks_from flip_opts 8 0 = [0, 2]" "flip_walk sample_log flip_opts 8 (rand_st flip_os) = [8, 32, 40]"
proof -
  have f: "o_start flip_opts = 0" "o_end flip_opts = LLONG_MAX" "o_chunk_size flip_opts = 2" "o_index flip_opts = 0"
    "o_mod flip_opts = 2" "o_probability flip_opts = Fin (1 / 8)"
    by (simp_all add: sample_opts_def default_opts_def OFF_MAX_def)
  have "n_chunks flip_opts 8 = 4" by (simp add: n_chunks_def region_end_def f)
  then show cs: "chunks_from flip_opts 8 0 = [0, 2]" by (simp add: chunks_from_def selected_def f upto_rec1)
  have "bit_stream flip_opts 8 [0, 2] = [0..<16] @ [32..<48]"
    by (simp add: bit_stream_def chunk_bits_def chunk_end_def chunk_start_def region_end_def f)
  moreover have "exp_walk sample_log (Fin (1 / 8)) 32 11 8 = [8, 16, 24]"
    by (simp add: exp_walk.simps sample_draw lcg_step_def)
  ultimately show "flip_walk sample_log flip_opts 8 (rand_st flip_os) = [8, 32, 40]"
    by (simp add: flip_walk_def cs f sample_os_def lcg_step_def sample_draw nth_append)
qed

theorem corrupt_bitflip_correct_witness:
  "\<exists>w'. corrupt_bitflip sample_log flip_opts 0 8 4 flip_os = Val EXIT_OK w' \<and>
     flipped [8, 32, 40] [1, 2, 3, 4, 5, 6, 7, 8] (inodes w' 0) \<and> printed w' = printed flip_os @ [flip_report 2 3]"
proof -
  have pre: "\<not> d_less (o_probability flip_opts) (Fin 0)" "8 = int (length (inodes flip_os 0))"
    "8 \<le> LLONG_MAX" "opts_ok flip_opts" "n_chunks flip_opts 8 = 4"
    by (simp_all add: sample_opts_def default_opts_def opts_ok_def OFF_MAX_def n_chunks_def region_end_def)
  have ne: "EXIT_OK \<noteq> EXIT_IO" by (simp add: exit_code_defs)
  from corrupt_bitflip_correct [OF sample_log_ok pre(4,1) sample_fd_reg pre(2,3)] sample_flip_run
  show ?thesis unfolding pre(5) sample_os_simps sample_walk using ne by auto
qed

text \<open>The bitflip mode is defined, and ends with one of its two statuses, when the probability is at least
  one in a million (two to the minus twentieth), the file has at most two to the fifty-eighth bytes and
  leaves room for a chunk, the logarithm of no draw but zero is below minus thirty-four, and the
  generator does not draw zero in the run.  The file then differs in exactly the bits it reports.\<close>

theorem corrupt_bitflip_defined:
  assumes "log_ok clog" and log: "\<forall>x. 1 / 2 ^ 48 \<le> x \<and> x < 1 \<longrightarrow> (\<exists>r. - 34 \<le> r \<and> r \<le> 0 \<and> clog (Fin x) = Fin r)"
    and "opts_ok opts" and p: "o_probability opts = Fin q" "1 / 2 ^ 20 \<le> q" and "roomy opts fs"
    and "fd_reg w fd i True True pos" and "fs = int (length (inodes w i))" and "fs \<le> 2 ^ 58"
    and "\<forall>n. int n \<le> 8 * fs \<longrightarrow> (lcg_step ^^ Suc n) (rand_st w) \<noteq> 0"
  shows "\<exists>v w' ps. corrupt_bitflip clog opts fd fs (n_chunks opts fs) w = Val v w' \<and>
    flipped ps (inodes w i) (inodes w' i) \<and> (\<forall>k \<in> set ps. k div 8 \<in> selected_bytes opts fs) \<and>
    (v = EXIT_IO \<or> v = EXIT_OK \<and> (\<exists>n. printed w' = printed w @ [flip_report n (int (length ps))]))"
proof -
  have "exp_le clog (o_probability opts) (2 ^ 28)"
    unfolding p(1) using p(2) log by (intro exp_leI) blast+
  moreover have "0 < (1 / 2 ^ 20 :: rat)" by simp
  then have "\<not> d_less (o_probability opts) (Fin 0)" using p by simp
  ultimately have "flip_env False clog opts fd fs i w"
    using assms by (auto simp: flip_env_def offs_ok_def flip_safe_def)
  from wp_corrupt_bitflip [OF this] show ?thesis
    unfolding flip_post_def by (rule wp_totalD) blast
qed

lemma sample_draws: "n \<le> 64 \<Longrightarrow> (lcg_step ^^ Suc n) (rand_st flip_os) \<noteq> 0"
proof -
  assume "n \<le> 64"
  then have "Suc n \<in> set (map Suc [0..<65])" by (simp add: less_Suc_eq_le)
  moreover have "list_all (\<lambda>x. x \<noteq> 0) (map (\<lambda>n. (lcg_step ^^ n) 0) (map Suc [0..<65]))" by code_simp
  ultimately show ?thesis by (simp add: list_all_iff sample_os_def)
qed

theorem corrupt_bitflip_defined_witness:
  "\<exists>v w' ps. corrupt_bitflip sample_log flip_opts 0 8 4 flip_os = Val v w' \<and>
    flipped ps [1, 2, 3, 4, 5, 6, 7, 8] (inodes w' 0) \<and> (\<forall>k \<in> set ps. k div 8 \<in> selected_bytes flip_opts 8) \<and>
    (v = EXIT_IO \<or> v = EXIT_OK \<and> (\<exists>n. printed w' = [flip_report n (int (length ps))]))"
proof -
  have pre: "8 = int (length (inodes flip_os 0))" "opts_ok flip_opts" "n_chunks flip_opts 8 = 4" "roomy flip_opts 8"
    "o_probability flip_opts = Fin (1 / 8)" "1 / 2 ^ 20 \<le> (1 / 8 :: rat)" "8 \<le> (2 ^ 58 :: int)"
    by (simp_all add: sample_opts_def default_opts_def opts_ok_def OFF_MAX_def n_chunks_def region_end_def roomy_def)
  have log: "\<forall>x. 1 / 2 ^ 48 \<le> x \<and> x < 1 \<longrightarrow> (\<exists>r. - 34 \<le> r \<and> r \<le> 0 \<and> sample_log (Fin x) = Fin r)"
    by (auto simp: sample_log_def)
  have "\<forall>n. int n \<le> 8 * 8 \<longrightarrow> (lcg_step ^^ Suc n) (rand_st flip_os) \<noteq> 0"
    using sample_draws by (simp del: funpow.simps)
  from corrupt_bitflip_defined [OF sample_log_ok log pre(2,5,6,4) sample_fd_reg pre(1,7) this] show ?thesis
    unfolding pre(3) by (simp add: sample_os_def)
qed

text \<open>C36: Options with a probability of zero that are otherwise well-formed pass validation.  But the bitflip mode
  then divides by the probability and converts the result, which is infinite or not a number, to an integer: its
  behaviour is undefined for every file, every state of the random number generator and every logarithm.\<close>

theorem bitflip_zero_probability_undefined:
  assumes "opts_ok opts" and "o_probability opts = Fin 0"
  shows "validate_opts opts = EXIT_OK \<and> corrupt_bitflip clog opts fd fs count w = Undef FloatCast"
proof
  show "validate_opts opts = EXIT_OK"
    using assms by (auto simp: validate_opts_def opts_ok_def word_le_def)
  have "d_to_s64 (d_mul (d_div (Fin (-1)) (Fin 0)) x) w = Undef FloatCast" for x and w :: os
    by (cases x) (simp_all add: d_to_s64_def c_undef_def)
  then show "corrupt_bitflip clog opts fd fs count w = Undef FloatCast"
    by (simp add: corrupt_bitflip_def rand_exp_int_def assms(2) c_run split: prod.split)
qed

theorem bitflip_zero_probability_undefined_witness:
  "validate_opts (sample_opts\<lparr>o_probability := Fin 0\<rparr>) = EXIT_OK \<and>
   corrupt_bitflip sample_log (sample_opts\<lparr>o_probability := Fin 0\<rparr>) 0 8 4 flip_os = Undef FloatCast"
proof (rule bitflip_zero_probability_undefined)
  show "opts_ok (sample_opts\<lparr>o_probability := Fin 0\<rparr>)"
    using sample_opts_ok(1) by (simp add: opts_ok_def)
qed simp

end
