(* ===== verification/CF_Main.thy ===== *)
theory CF_Main
  imports CF_Roundtrip CF_Bitflip
begin

text \<open>
  The entry points of \<open>corrupt-file.c\<close>: \<open>corrupt\<close> opens the file, counts its chunks and
  runs the chosen mode, \<open>clear_snapshots\<close> hands a command to the shell, and \<open>main\<close> parses
  and validates the options, seeds the random number generator and calls both.

  The shell behind \<open>system\<close> and the logarithm are parameters.  The lemmas show what a run of
  any mode can change, whatever the system calls return, and which status the program ends with.
\<close>

section \<open>The program\<close>

text \<open>A null pointer makes \<open>open\<close> fail; reading the pointer before it was assigned is undefined.\<close>

definition open_file :: "cptr \<Rightarrow> (os, int) prog" where
  "open_file p = (case p of
     Uninit \<Rightarrow> c_undef UninitRead
   | Null \<Rightarrow> c_lib (\<lambda>w. case syscall () (fail EFAULT ()) w of ((r, _), w') \<Rightarrow> (r, w'))
   | Str s \<Rightarrow> c_lib (sys_open s O_RDWR))"

definition c_free :: "cptr \<Rightarrow> ('w, unit) prog" where
  "c_free p = (case p of Uninit \<Rightarrow> c_undef UninitRead | _ \<Rightarrow> c_val ())"

definition run_mode :: "(dbl \<Rightarrow> dbl) \<Rightarrow> opts_t \<Rightarrow> int \<Rightarrow> int \<Rightarrow> int \<Rightarrow> (os, int) prog" where
  "run_mode clog opts fd file_size count = (case o_mode opts of
     MODE_COPY \<Rightarrow> corrupt_copy opts fd file_size count
   | MODE_SNAPSHOT \<Rightarrow> corrupt_snapshot opts fd file_size count
   | MODE_RESTORE \<Rightarrow> corrupt_restore opts fd file_size count
   | MODE_BITFLIP \<Rightarrow> corrupt_bitflip clog opts fd file_size count
   | MODE_NONE \<Rightarrow> c_undef UninitRead)"

definition corrupt_opened :: "(dbl \<Rightarrow> dbl) \<Rightarrow> opts_t \<Rightarrow> int \<Rightarrow> (os, int) prog" where
  "corrupt_opened clog opts fd =
     c_bind (c_lib (sys_fstat fd)) (\<lambda>(r, file_size).
     if r \<noteq> 0 then c_bind (c_lib (sys_close fd)) (\<lambda>_. c_return EXIT_IO)
     else
       c_bind (chunk_count opts file_size) (\<lambda>count.
       c_bind (run_mode clog opts fd file_size count) (\<lambda>ret.
       c_bind (c_lib (sys_close fd)) (\<lambda>_. c_val ret))))"

definition corrupt :: "(dbl \<Rightarrow> dbl) \<Rightarrow> opts_t \<Rightarrow> (os, int) prog" where
  "corrupt clog opts =
     c_call
      (if o_mode opts = MODE_NONE then c_return EXIT_OK
       else
         c_bind (open_file (o_file opts)) (\<lambda>fd.
         if fd = -1 then c_return EXIT_IO else corrupt_opened clog opts fd))"

definition CLEAR_COMMAND :: string where
  "CLEAR_COMMAND = ''rm -rf '' @ [CHR 39] @ SNAPSHOT_DIR @ [CHR 39]"

text \<open>The buffer has room for ten characters more than the directory and its terminator.\<close>

definition clear_snapshots :: "(string \<Rightarrow> os \<Rightarrow> int \<times> os) \<Rightarrow> (os, int) prog" where
  "clear_snapshots shell =
     (let cmd = snprintf_s (length SNAPSHOT_DIR + 1 + 10) CLEAR_COMMAND;
          written = int (length CLEAR_COMMAND)
      in if written < 0 then c_val EXIT_INT else c_lib (shell cmd))"

definition main_run :: "(dbl \<Rightarrow> dbl) \<Rightarrow> opts_t \<Rightarrow> (os, int) prog" where
  "main_run clog opts =
     c_bind (corrupt clog opts) (\<lambda>result.
     c_bind (c_free (o_file opts)) (\<lambda>_. c_val result))"

definition main :: "(string \<Rightarrow> os \<Rightarrow> int \<times> os) \<Rightarrow> (dbl \<Rightarrow> dbl) \<Rightarrow> argp_event list \<Rightarrow> (os, int) prog" where
  "main shell clog es =
     c_call
      (c_bind (argp_parse es 0 default_opts) (\<lambda>(err, opts).
       if err \<noteq> 0 then c_bind (c_free (o_file opts)) (\<lambda>_. c_return EXIT_ARGS)
       else if validate_opts opts \<noteq> EXIT_OK then
         c_bind (c_free (o_file opts)) (\<lambda>_. c_return (validate_opts opts))
       else
         c_bind (c_gets now) (\<lambda>t.
         c_bind (c_modify (lib_srand48 t)) (\<lambda>_.
         c_bind (if o_clear_snapshots opts then clear_snapshots shell else c_val EXIT_OK) (\<lambda>ex.
         if o_clear_snapshots opts \<and> ex \<noteq> EXIT_OK then
           c_bind (c_free (o_file opts)) (\<lambda>_. c_return EXIT_IO)
         else main_run clog opts)))))"

section \<open>Opening the file\<close>

lemma sys_open_rdwr:
  fixes s w
  defines "p \<equiv> resolve (cwd w) s"
  obtains (failed) e where "sys_open s O_RDWR w = (-1, (pop_fault w)\<lparr>errno_of := e\<rparr>)"
  | (opened) n t i where "sys_open s O_RDWR w = (int n, (pop_fault w)\<lparr>fds := t\<rparr>)"
      "nodes w p = Some (Reg i)" "fd_alloc (fds w) (new_ofd (Reg i) O_RDWR) = (n, t)"
proof (cases "\<exists>e. next_fault w = Fail e")
  case True
  then show ?thesis using failed by (auto simp: sys_open_def syscall_def fail_def)
next
  case False
  then have run: "sys_open s O_RDWR w = (case do_open s O_RDWR (pop_fault w) of ((r, _), w') \<Rightarrow> (r, w'))"
    by (cases "next_fault w") (auto simp: sys_open_def syscall_def)
  consider "s = []" | "s \<noteq> []" "nodes w p = Some Dir" | i where "s \<noteq> []" "nodes w p = Some (Reg i)"
    | "s \<noteq> []" "nodes w p = None"
    by (metis node.exhaust option.exhaust)
  then show ?thesis
  proof cases
    case (3 i)
    obtain n t where "fd_alloc (fds w) (new_ofd (Reg i) O_RDWR) = (n, t)" by force
    with run 3 opened show ?thesis by (simp add: do_open_def p_def open_node_def)
  qed (use run failed in \<open>auto simp: do_open_def p_def Let_def fail_def\<close>)
qed

lemma sys_fstat_cases:
  assumes "fd_get (fds w) fd = Some f" and "of_node f = Reg i"
  obtains (failed) e where "sys_fstat fd w = ((-1, 0), (pop_fault w)\<lparr>errno_of := e\<rparr>)"
  | (sized) "sys_fstat fd w = ((0, int (length (inodes w i))), pop_fault w)"
proof (cases "\<exists>e. next_fault w = Fail e")
  case True
  then show ?thesis using failed by (auto simp: sys_fstat_def syscall_def fail_def)
next
  case False
  then show ?thesis
    using sized assms by (cases "next_fault w") (auto simp: sys_fstat_def syscall_def do_fstat_def)
qed

section \<open>What a mode can change\<close>

lemma flipped_agree:
  assumes "flipped ps bs bs'" and "\<And>k. k \<in> set ps \<Longrightarrow> k div 8 \<in> S"
  shows "agree_off S bs bs'"
  unfolding agree_off_def
proof (intro conjI allI impI)
  show "length bs = length bs'" using assms(1) by (simp add: flipped_def)
  fix k assume "k \<notin> S"
  show "bs ! k = bs' ! k"
  proof (rule bit_eqI)
    fix n assume "possible_bit TYPE(byte) n"
    then have n: "n < 8" by (simp add: possible_bit_def)
    then have "(8 * k + n) div 8 = k" "(8 * k + n) mod 8 = n" by simp_all
    moreover from this have "8 * k + n \<notin> set ps" using assms(2) \<open>k \<notin> S\<close> by metis
    ultimately show "bit (bs ! k) n = bit (bs' ! k) n"
      using assms(1) by (auto simp: flipped_def bit_at_def dest: spec [where x = "8 * k + n"])
  qed
qed

definition mode_effect :: "opts_t \<Rightarrow> nat \<Rightarrow> os \<Rightarrow> os \<Rightarrow> bool" where
  "mode_effect opts i w w' = (let S = selected_bytes opts (int (length (inodes w i))) in
     case o_mode opts of
       MODE_NONE \<Rightarrow> w' = w
     | MODE_SNAPSHOT \<Rightarrow> inodes w' i = inodes w i \<and> cwd w' = cwd w \<and> (\<forall>f. o_file opts = Str f \<longrightarrow> snap_effect f w w')
     | MODE_RESTORE \<Rightarrow> touches i w w' \<and> grown_off S (inodes w i) (inodes w' i) \<and>
         int (length (inodes w' i)) \<le> restore_limit opts (int (length (inodes w i)))
     | _ \<Rightarrow> touches i w w' \<and> agree_off S (inodes w i) (inodes w' i))"

text \<open>What a run needs of the file \<open>f\<close> with inode \<open>i\<close>; a snapshot must not overwrite it.\<close>

definition run_env :: "bool \<Rightarrow> (dbl \<Rightarrow> dbl) \<Rightarrow> opts_t \<Rightarrow> string \<Rightarrow> nat \<Rightarrow> os \<Rightarrow> bool" where
  "run_env u clog opts f i w \<longleftrightarrow>
     opts_ok opts \<and> log_ok clog \<and> \<not> d_less (o_probability opts) (Fin 0) \<and> o_file opts = Str f \<and>
     int (length (inodes w i)) \<le> LLONG_MAX \<and>
     (u \<or> roomy opts (int (length (inodes w i))) \<and>
       (o_mode opts = MODE_BITFLIP \<longrightarrow> flip_safe clog opts (int (length (inodes w i))) w)) \<and>
     (o_mode opts = MODE_SNAPSHOT \<longrightarrow> snap_env f i w)"

lemma snap_env_updates [simp]:
  "snap_env f i (w\<lparr>fds := t\<rparr>) = snap_env f i w" "snap_env f i (w\<lparr>errno_of := e\<rparr>) = snap_env f i w"
  "snap_env f i (w\<lparr>rand_st := x\<rparr>) = snap_env f i w" "snap_env f i (pop_fault w) = snap_env f i w"
  by (simp_all add: snap_env_def)

lemma run_env_updates [simp]:
  "run_env u clog opts f i (w\<lparr>fds := t\<rparr>) = run_env u clog opts f i w"
  "run_env u clog opts f i (w\<lparr>errno_of := e\<rparr>) = run_env u clog opts f i w"
  "run_env u clog opts f i (pop_fault w) = run_env u clog opts f i w"
  by (simp_all add: run_env_def flip_safe_def)

lemma wp_run_mode:
  assumes env: "run_env u clog opts f i w" and mode: "o_mode opts \<noteq> MODE_NONE"
    and fd: "fd_reg w fd i True True pos" and fs: "fs = int (length (inodes w i))"
  shows "wp u (run_mode clog opts fd fs (n_chunks opts fs))
    (\<lambda>v w'. v \<in> {EXIT_OK, EXIT_IO} \<and> mode_effect opts i w w' \<and>
      (fd_get (fds w') = fd_get (fds w) \<or> fd_get (fds w') = (fd_get (fds w))(fd := None))) R (\<lambda>_ _. False) w"
proof -
  have ok: "opts_ok opts" "offs_ok fs" and ff: "o_file opts = Str f" and len: "int (length (inodes w i)) = fs"
    and room: "u \<or> roomy opts fs"
    using env fs by (auto simp: run_env_def offs_ok_def)
  show ?thesis
  proof (cases "o_mode opts")
    case MODE_COPY
    show ?thesis
      unfolding run_mode_def MODE_COPY modes.case
    proof (rule wp_mono [OF wp_corrupt_copy [OF ok room fd len, where R = R]])
      fix v w' assume post: "copy_post opts fd fs i w v w'"
      with copy_post_agree [OF ok len post] show "v \<in> {EXIT_OK, EXIT_IO} \<and> mode_effect opts i w w' \<and>
          (fd_get (fds w') = fd_get (fds w) \<or> fd_get (fds w') = (fd_get (fds w))(fd := None))"
        by (auto simp: copy_post_def mode_effect_def MODE_COPY fs)
    qed
  next
    case MODE_SNAPSHOT
    with env have "snap_env f i w" by (simp add: run_env_def)
    then show ?thesis
      unfolding run_mode_def MODE_SNAPSHOT modes.case
      by (intro wp_mono [OF wp_corrupt_snapshot [OF ok room ff fd len]])
        (use \<open>snap_env f i w\<close> ff in \<open>auto simp: snap_post_def snap_effect_def mode_effect_def MODE_SNAPSHOT\<close>)
  next
    case MODE_RESTORE
    show ?thesis
      unfolding run_mode_def MODE_RESTORE modes.case
      by (rule wp_mono [OF wp_corrupt_restore [OF ok room ff fd len]])
        (auto simp: restore_post_def mode_effect_def MODE_RESTORE fs)
  next
    case MODE_BITFLIP
    then have "flip_env u clog opts fd fs i w" using env fd ok len by (auto simp: flip_env_def run_env_def)
    then show ?thesis
      unfolding run_mode_def MODE_BITFLIP modes.case
      by (rule wp_mono [OF wp_corrupt_bitflip])
        (auto simp: flip_post_def mode_effect_def MODE_BITFLIP fs intro!: flipped_agree)
  qed (use mode in simp)
qed

section \<open>A run of \<open>corrupt\<close>\<close>

text \<open>Two states with the same files and names.\<close>

definition same_files :: "os \<Rightarrow> os \<Rightarrow> bool" where
  "same_files w w' \<longleftrightarrow> nodes w' = nodes w \<and> inodes w' = inodes w \<and> next_ino w' = next_ino w \<and> cwd w' = cwd w"

lemma same_files_refl [simp, intro]: "same_files w w"
  by (simp add: same_files_def)

lemma same_files_updates [simp]:
  "same_files w (w'\<lparr>fds := t\<rparr>) = same_files w w'" "same_files w (w'\<lparr>errno_of := e\<rparr>) = same_files w w'"
  "same_files w (w'\<lparr>rand_st := x\<rparr>) = same_files w w'" "same_files w (w'\<lparr>printed := p\<rparr>) = same_files w w'"
  "same_files w (pop_fault w') = same_files w w'"
  by (simp_all add: same_files_def)

lemma same_files_close: "sys_close fd w = (r, w') \<Longrightarrow> same_files w w'"
  by (auto simp: sys_close_def Let_def split: option.splits fault.splits)

lemma printed_close: "sys_close fd w = (r, w') \<Longrightarrow> printed w' = printed w"
  by (auto simp: sys_close_def Let_def split: option.splits fault.splits)

lemma mode_effect_cong:
  assumes "same_files w w1" and "same_files w2 w'" and "o_mode opts \<noteq> MODE_NONE" and "mode_effect opts i w1 w2"
  shows "mode_effect opts i w w'"
  using assms by (auto simp: mode_effect_def same_files_def touches_def snap_effect_def snap_env_def snap_name_def Let_def split: modes.splits)

definition corrupt_post :: "opts_t \<Rightarrow> os \<Rightarrow> int \<Rightarrow> os \<Rightarrow> bool" where
  "corrupt_post opts w v w' \<longleftrightarrow> fd_get (fds w') = fd_get (fds w) \<and>
     (if o_mode opts = MODE_NONE then v = EXIT_OK \<and> w' = w
      else v = EXIT_IO \<and> same_files w w' \<or>
        v \<in> {EXIT_OK, EXIT_IO} \<and> (\<exists>f i. o_file opts = Str f \<and> nodes w (resolve (cwd w) f) = Some (Reg i) \<and> mode_effect opts i w w'))"

text \<open>
  Opening the file, asking for its size and closing it are the same around every mode: what is
  left to show is what the mode does between them.
\<close>

lemma wp_corrupt_mode:
  assumes ok: "opts_ok opts" and mode: "o_mode opts \<noteq> MODE_NONE" and init: "u \<or> o_file opts \<noteq> Uninit"
    and failed: "\<And>w'. same_files w w' \<Longrightarrow> fd_get (fds w') = fd_get (fds w) \<Longrightarrow> printed w' = printed w \<Longrightarrow> Q EXIT_IO w'"
    and size: "\<And>f i. o_file opts = Str f \<Longrightarrow> nodes w (resolve (cwd w) f) = Some (Reg i) \<Longrightarrow> int (length (inodes w i)) \<le> LLONG_MAX"
    and run: "\<And>f i n t. o_file opts = Str f \<Longrightarrow> nodes w (resolve (cwd w) f) = Some (Reg i) \<Longrightarrow>
      fd_alloc (fds w) (new_ofd (Reg i) O_RDWR) = (n, t) \<Longrightarrow>
      wp u (run_mode clog opts (int n) (int (length (inodes w i))) (n_chunks opts (int (length (inodes w i)))))
        (\<lambda>v w'. \<forall>r w''. sys_close (int n) w' = (r, w'') \<longrightarrow> Q v w'') Q (\<lambda>_ _. False)
        (pop_fault ((pop_fault w)\<lparr>fds := t\<rparr>))"
  shows "wp u (corrupt clog opts) Q R (\<lambda>_ _. False) w"
proof (cases "o_file opts")
  case Uninit
  with init mode show ?thesis by (simp add: corrupt_def open_file_def)
next
  case Null
  with mode failed [of "(pop_fault w)\<lparr>errno_of := e\<rparr>" for e] show ?thesis
    by (auto simp: corrupt_def open_file_def wp_lib syscall_def fail_def split: fault.split)
next
  case (Str f)
  have "wp u (c_bind (c_lib (sys_open f O_RDWR)) (\<lambda>fd. if fd = -1 then c_return EXIT_IO else corrupt_opened clog opts fd))
      Q Q (\<lambda>_ _. False) w"
  proof (rule sys_open_rdwr [of f w])
    fix e assume "sys_open f O_RDWR w = (-1, (pop_fault w)\<lparr>errno_of := e\<rparr>)"
    with failed [of "(pop_fault w)\<lparr>errno_of := e\<rparr>"] show ?thesis by (simp add: wp_lib)
  next
    fix n t i assume op: "sys_open f O_RDWR w = (int n, (pop_fault w)\<lparr>fds := t\<rparr>)"
      and i: "nodes w (resolve (cwd w) f) = Some (Reg i)" and a: "fd_alloc (fds w) (new_ofd (Reg i) O_RDWR) = (n, t)"
    let ?w = "(pop_fault w)\<lparr>fds := t\<rparr>" and ?fs = "int (length (inodes w i))"
    note new = fdt.alloc_fresh [OF a] fdt.get_alloc [OF a]
    have fd: "fd_get (fds ?w) (int n) = Some (new_ofd (Reg i) O_RDWR)" using new by simp
    have "wp u (corrupt_opened clog opts (int n)) Q Q (\<lambda>_ _. False) ?w"
    proof (rule sys_fstat_cases [OF fd, of i])
      fix e assume st: "sys_fstat (int n) ?w = ((-1, 0), (pop_fault ?w)\<lparr>errno_of := e\<rparr>)"
      have "Q EXIT_IO w3" if "sys_close (int n) ((pop_fault ?w)\<lparr>errno_of := e\<rparr>) = (r, w3)" for r w3
      proof (rule failed)
        show "same_files w w3" using same_files_close [OF that] by (simp add: same_files_def)
        show "fd_get (fds w3) = fd_get (fds w)" using fd_get_close [OF that] new by (auto simp: fun_eq_iff)
        show "printed w3 = printed w" using printed_close [OF that] by simp
      qed
      then show ?thesis unfolding corrupt_opened_def by (simp add: wp_lib st split: prod.split)
    next
      assume st: "sys_fstat (int n) ?w = ((0, int (length (inodes ?w i))), pop_fault ?w)"
      have "offs_ok ?fs" using size [OF Str i] by (simp add: offs_ok_def)
      then show ?thesis
        unfolding corrupt_opened_def
        by (simp add: wp_lib st wp_chunk_count [OF ok]) (rule wp_mono_val [OF run [OF Str i a]], simp add: wp_lib split: prod.split)
    qed (simp add: new_ofd_def)
    then show ?thesis by (simp add: wp_lib op)
  qed
  with mode Str show ?thesis unfolding corrupt_def open_file_def by simp
qed

lemma wp_corrupt:
  assumes ok: "opts_ok opts" and init: "u \<or> o_mode opts = MODE_NONE \<or> o_file opts \<noteq> Uninit"
    and env: "\<And>f i. o_file opts = Str f \<Longrightarrow> nodes w (resolve (cwd w) f) = Some (Reg i) \<Longrightarrow> run_env u clog opts f i w"
  shows "wp u (corrupt clog opts) (corrupt_post opts w) R (\<lambda>_ _. False) w"
proof (cases "o_mode opts = MODE_NONE")
  case True
  then show ?thesis by (simp add: corrupt_def corrupt_post_def)
next
  case mode: False
  show ?thesis
  proof (rule wp_corrupt_mode [OF ok mode])
    fix f i n t
    assume f: "o_file opts = Str f" and i: "nodes w (resolve (cwd w) f) = Some (Reg i)"
      and a: "fd_alloc (fds w) (new_ofd (Reg i) O_RDWR) = (n, t)"
    let ?w = "pop_fault ((pop_fault w)\<lparr>fds := t\<rparr>)" and ?fs = "int (length (inodes w i))"
    note new = fdt.alloc_fresh [OF a] fdt.get_alloc [OF a]
    show "wp u (run_mode clog opts (int n) ?fs (n_chunks opts ?fs))
        (\<lambda>v w'. \<forall>r w''. sys_close (int n) w' = (r, w'') \<longrightarrow> corrupt_post opts w v w'') (corrupt_post opts w) (\<lambda>_ _. False) ?w"
    proof (rule wp_mono_val [OF wp_run_mode [OF _ mode, where pos = 0 and w = ?w and i = i]])
      fix v w'
      assume v: "v \<in> {EXIT_OK, EXIT_IO} \<and> mode_effect opts i ?w w' \<and>
          (fd_get (fds w') = fd_get (fds ?w) \<or> fd_get (fds w') = (fd_get (fds ?w))(int n := None))"
      have "corrupt_post opts w v w''" if c: "sys_close (int n) w' = (r, w'')" for r w''
      proof -
        have "fd_get (fds w'') = fd_get (fds w)" using fd_get_close [OF c] v new by (auto simp: fun_eq_iff)
        with v mode f i mode_effect_cong [of w ?w w' w'' opts i] same_files_close [OF c] show ?thesis
          by (auto simp: corrupt_post_def)
      qed
      then show "\<forall>r w''. sys_close (int n) w' = (r, w'') \<longrightarrow> corrupt_post opts w v w''" by blast
    qed (use env [OF f i] new in \<open>auto simp: fd_reg_def new_ofd_def\<close>)
  qed (use init mode env in \<open>auto simp: corrupt_post_def run_env_def\<close>)
qed

section \<open>The command line\<close>

text \<open>
  What the file system promises: names are made of plain components and fit the path buffer of
  a snapshot, the root is a directory, inode numbers in use were allocated, there are no hard
  links, and no file comes near the largest offset.
\<close>

definition os_sane :: "os \<Rightarrow> bool" where
  "os_sane w \<longleftrightarrow> nodes w [] = Some Dir \<and>
     (\<forall>p. nodes w p \<noteq> None \<longrightarrow> (\<forall>c \<in> set p. plain c) \<and> length (path_string p) \<le> 4017) \<and>
     (\<forall>p i. nodes w p = Some (Reg i) \<longrightarrow> i < next_ino w) \<and>
     (\<forall>p q i. nodes w p = Some (Reg i) \<and> nodes w q = Some (Reg i) \<longrightarrow> p = q) \<and>
     (\<forall>i. int (length (inodes w i)) \<le> 2 ^ 61)"

lemma os_sane_cong: "same_files w w' \<Longrightarrow> os_sane w' = os_sane w"
  by (simp add: os_sane_def same_files_def)

text \<open>The file pointer: not assigned, null, or the absolute name that \<open>realpath\<close> returned.\<close>

definition file_ok :: "cptr \<Rightarrow> bool" where
  "file_ok p = (case p of Str f \<Rightarrow> f = ''/'' \<or> (\<exists>q. canonical q \<and> length (path_string q) \<le> 4017 \<and> f = path_string q) | _ \<Rightarrow> True)"

lemma realpath_file_ok:
  assumes "os_sane w" and "sys_realpath s w = (r, w')"
  shows "same_files w w'" "file_ok (case r of None \<Rightarrow> Null | Some f \<Rightarrow> Str f)"
proof -
  show "same_files w w'" using assms(2) by (auto simp: sys_realpath_def Let_def split: fault.splits if_splits)
  show "file_ok (case r of None \<Rightarrow> Null | Some f \<Rightarrow> Str f)"
  proof (cases r)
    case (Some f)
    let ?p = "resolve (cwd w) s"
    have f: "f = path_string ?p" "nodes w ?p \<noteq> None"
      using assms(2) Some by (auto simp: sys_realpath_def Let_def split: fault.splits if_splits)
    with assms(1) have p: "\<forall>c \<in> set ?p. plain c" "length (path_string ?p) \<le> 4017" by (auto simp: os_sane_def)
    show ?thesis
    proof (cases "?p = []")
      case True
      then show ?thesis using Some f by (simp add: file_ok_def path_string_def)
    next
      case False
      then have "canonical ?p" using p by (simp add: canonical_def)
      then show ?thesis using Some f p by (auto simp: file_ok_def)
    qed
  qed (simp add: file_ok_def)
qed

lemma resolve_path_string:
  assumes "canonical p"
  shows "resolve d (path_string p) = p"
proof -
  have p: "\<forall>c \<in> set p. plain c" "p \<noteq> []" using assms by (simp_all add: canonical_def)
  have "take 1 (path_string p) = ''/''" using p(2) by (cases p) (simp_all add: path_string_def)
  moreover have "comps (path_string p) = p" "''..'' \<notin> set p"
    using p by (auto simp: comps_def split_path_string plain_def intro!: filter_True)
  ultimately show ?thesis by (simp add: resolve_def walk_plain)
qed

text \<open>On such a file system no file is one of its own snapshots.\<close>

lemma os_sane_snap_env:
  assumes sane: "os_sane w" and f: "file_ok (Str f)" and i: "nodes w (resolve (cwd w) f) = Some (Reg i)"
  shows "snap_env f i w"
proof -
  have "f \<noteq> ''/''"
  proof
    assume "f = ''/''"
    then have "resolve (cwd w) f = []" by (simp add: resolve_def comps_def)
    with i sane show False by (simp add: os_sane_def)
  qed
  then obtain p where p: "canonical p" "length (path_string p) \<le> 4017" "f = path_string p" using f by (auto simp: file_ok_def)
  have ip: "nodes w p = Some (Reg i)" using i p by (simp add: resolve_path_string)
  have "nodes w (resolve (cwd w) (snapshot_path f a b)) \<noteq> Some (Reg i)" if "in_s64 a" "in_s64 b" for a b
  proof
    assume a: "nodes w (resolve (cwd w) (snapshot_path f a b)) = Some (Reg i)"
    then have "nodes w (snapshot_at p a b) = Some (Reg i)"
      using p snapshot_path_plain [OF p(1,2) that] by (simp add: resolve_plain)
    with ip sane have "snapshot_at p a b = p" unfolding os_sane_def by blast
    then have "length (snapshot_at p a b) = length p" by simp
    then show False using p(1) by (simp add: snapshot_at_def canonical_def comps_def split_SNAPSHOT_DIR)
  qed
  with ip sane show ?thesis by (auto simp: snap_env_def snap_name_def os_sane_def)
qed

text \<open>A command line for which every operation of the program is defined.\<close>

definition defined_args :: "argp_event list \<Rightarrow> bool" where
  "defined_args es \<longleftrightarrow> (\<exists>a. Arg a \<in> set es) \<and> (\<forall>a. Opt KEY_other a \<notin> set es) \<and>
     Opt KEY_m ''bitflip'' \<notin> set es \<and> (\<forall>a. Opt KEY_c a \<in> set es \<longrightarrow> strtoll a \<le> 2 ^ 61)"

definition args_inv :: "argp_event list \<Rightarrow> argp_event list \<Rightarrow> opts_t \<Rightarrow> bool" where
  "args_inv all es opts \<longleftrightarrow> opts_typed opts \<and> file_ok (o_file opts) \<and>
     (o_file opts = Uninit \<longrightarrow> (\<forall>a. Arg a \<in> set all \<longrightarrow> Arg a \<in> set es)) \<and>
     (o_mode opts = MODE_BITFLIP \<longrightarrow> Opt KEY_m ''bitflip'' \<in> set all) \<and>
     (o_chunk_size opts \<le> 2 ^ 61 \<or> (\<exists>a. Opt KEY_c a \<in> set all \<and> o_chunk_size opts = strtoll a))"

definition step_post :: "argp_event list \<Rightarrow> argp_event list \<Rightarrow> os \<Rightarrow> int \<times> opts_t \<Rightarrow> os \<Rightarrow> bool" where
  "step_post all es w = (\<lambda>(e, opts) w'. args_inv all es opts \<and> same_files w w' \<and> (e \<noteq> 0 \<longrightarrow> \<not> defined_args all))"

definition parsed :: "argp_event list \<Rightarrow> os \<Rightarrow> int \<times> opts_t \<Rightarrow> os \<Rightarrow> bool" where
  "parsed all w = (\<lambda>(e, opts) w'. same_files w w' \<and> opts_typed opts \<and> file_ok (o_file opts) \<and>
     (defined_args all \<longrightarrow> e = 0 \<and> o_file opts \<noteq> Uninit \<and> o_mode opts \<noteq> MODE_BITFLIP \<and> o_chunk_size opts \<le> 2 ^ 61))"

lemma parse_opt_step:
  assumes "args_inv all (Opt k a # es) opts" and "Opt k a \<in> set all" and "os_sane w"
  shows "wp u (parse_opt k a n opts) (step_post all es w) R (\<lambda>v _. v = EX_USAGE) w"
  using assms by (cases k)
    (auto simp: step_post_def parse_opt_def args_inv_def opts_typed_def defined_args_def strtoll_in_s64 wp_lib
      dest: realpath_file_ok split: prod.splits option.splits)

lemma parse_arg_step:
  assumes "args_inv all (Arg a # es) opts" and "os_sane w"
  shows "wp u (parse_opt ARGP_KEY_ARG a n opts) (step_post all es w) R (\<lambda>v _. v = EX_USAGE) w"
  using assms by (auto simp: step_post_def parse_opt_def args_inv_def opts_typed_def wp_lib
      dest: realpath_file_ok split: prod.splits option.splits)

lemma parse_rest:
  assumes "step_post all es w r w'" and "os_sane w"
    and IH: "\<And>opts. args_inv all es opts \<Longrightarrow> os_sane w' \<Longrightarrow> wp u (f opts) (parsed all w') R X w'"
  shows "wp u (case r of (e, opts) \<Rightarrow> if e \<noteq> 0 then c_val (e, opts) else f opts) (parsed all w) R X w'"
proof -
  obtain e opts where r: "r = (e, opts)" by force
  have st: "args_inv all es opts" "same_files w w'" "e \<noteq> 0 \<longrightarrow> \<not> defined_args all" "os_sane w'"
    using assms(1,2) os_sane_cong [of w w'] by (auto simp: step_post_def r)
  have "parsed all w x w2" if "parsed all w' x w2" for x w2
    using that st(2) by (auto simp: parsed_def same_files_def)
  then have "wp u (f opts) (parsed all w) R X w'" using wp_mono_val [OF IH [OF st(1,4)]] by blast
  moreover have "parsed all w (e, opts) w'" if "e \<noteq> 0" using that st by (simp add: parsed_def args_inv_def)
  ultimately show ?thesis by (simp add: r)
qed

lemma wp_argp_parse:
  assumes "args_inv all es opts" and "set es \<subseteq> set all" and "os_sane w"
  shows "wp u (argp_parse es n opts) (parsed all w) R (\<lambda>v _. v = EX_USAGE) w"
  using assms
proof (induction es n opts arbitrary: w rule: argp_parse.induct)
  case (1 n opts)
  then show ?case by (auto simp: parse_opt_def args_inv_def defined_args_def parsed_def)
next
  case (2 k a es n opts)
  have k: "Opt k a \<in> set all" "set es \<subseteq> set all" using "2.prems"(2) by simp_all
  show ?case
    unfolding argp_parse.simps wp_bind
    by (rule wp_mono_val [OF parse_opt_step [OF "2.prems"(1) k(1) "2.prems"(3)]])
      (rule parse_rest [OF _ "2.prems"(3)], assumption, rule "2.IH" [where x = 0, OF _ _ k(2)], auto)
next
  case (3 a es n opts)
  have k: "set es \<subseteq> set all" using "3.prems"(2) by simp
  show ?case
    unfolding argp_parse.simps wp_bind
    by (rule wp_mono_val [OF parse_arg_step [OF "3.prems"(1,3)]])
      (rule parse_rest [OF _ "3.prems"(3)], assumption, rule "3.IH" [where x = 0, OF _ _ k], auto)
qed

section \<open>A run of \<open>main\<close>\<close>

text \<open>The shell leaves a file system that is still a file system.\<close>

definition shell_ok :: "(string \<Rightarrow> os \<Rightarrow> int \<times> os) \<Rightarrow> bool" where
  "shell_ok shell \<longleftrightarrow> (\<forall>w. os_sane w \<longrightarrow> os_sane (snd (shell CLEAR_COMMAND w)))"

lemma wp_clear_snapshots:
  "wp u (clear_snapshots shell) Q R X w = (case shell CLEAR_COMMAND w of (r, w') \<Rightarrow> Q r w')"
  by (simp add: clear_snapshots_def snprintf_s_def CLEAR_COMMAND_def wp_lib)

lemma wp_free: "wp u (c_free p) Q R X w = (if p = Uninit then u else Q () w)"
  by (simp add: c_free_def split: cptr.split)

lemma validate_cases: "validate_opts opts = EXIT_OK \<or> validate_opts opts = EXIT_ARGS"
  by (simp add: validate_opts_def)

lemma args_inv_init: "args_inv es es default_opts"
  using default_opts_ok by (auto simp: args_inv_def file_ok_def) (simp_all add: default_opts_def)

lemma wp_main_run:
  assumes p: "parsed es w (0, opts) w1" and val: "validate_opts opts = EXIT_OK" and lg: "log_ok clog" and sane: "os_sane w2"
  shows "wp (\<not> defined_args es) (main_run clog opts) (corrupt_post opts w2) R (\<lambda>_ _. False) w2"
proof -
  let ?u = "\<not> defined_args es"
  have ok: "opts_ok opts" "\<not> d_less (o_probability opts) (Fin 0)"
    using p val validate_opts_iff by (auto simp: parsed_def)
  have env: "run_env ?u clog opts f i w2" if "o_file opts = Str f" "nodes w2 (resolve (cwd w2) f) = Some (Reg i)" for f i
  proof -
    have "int (length (inodes w2 i)) \<le> 2 ^ 61" using sane by (simp add: os_sane_def)
    moreover have "snap_env f i w2" using os_sane_snap_env [OF sane _ that(2)] p that(1) by (simp add: parsed_def)
    ultimately show ?thesis using p ok lg that(1) by (auto simp: run_env_def roomy_def parsed_def)
  qed
  have "?u \<or> o_file opts \<noteq> Uninit" using p by (auto simp: parsed_def)
  then have "wp ?u (corrupt clog opts) (corrupt_post opts w2) (\<lambda>_ _. False) (\<lambda>_ _. False) w2" using ok(1) env by (intro wp_corrupt) auto
  then show ?thesis
    unfolding wp_bind main_run_def
    by (rule wp_mono) (use \<open>?u \<or> o_file opts \<noteq> Uninit\<close> in \<open>auto simp: wp_free\<close>)
qed

lemma corrupt_post_status: "corrupt_post opts w v w' \<Longrightarrow> v \<in> {EXIT_OK, EXIT_IO}"
  by (auto simp: corrupt_post_def split: if_splits)

text \<open>
  The ways through \<open>main\<close>: rejected arguments, a shell that fails, and a run of \<open>corrupt\<close> from the
  seeded generator, after the shell where it was asked for.  \<open>A\<close> is what parsing establishes.
\<close>

lemma wp_main_cases:
  assumes sane: "os_sane w" and lg: "log_ok clog" and sh: "shell_ok shell"
    and parse: "wp True (argp_parse es 0 default_opts) (\<lambda>(e, opts). A opts) R' X w"
    and bad: "\<And>opts w1. A opts w1 \<Longrightarrow> Q EXIT_ARGS w1"
    and fail: "\<And>opts w1 x w3. A opts w1 \<Longrightarrow> shell CLEAR_COMMAND (lib_srand48 (now w1) w1) = (x, w3) \<Longrightarrow> Q EXIT_IO w3"
    and run: "\<And>opts w1 w2 v w'. A opts w1 \<Longrightarrow> w2 \<in> {lib_srand48 (now w1) w1, snd (shell CLEAR_COMMAND (lib_srand48 (now w1) w1))} \<Longrightarrow>
      os_sane w2 \<Longrightarrow> file_ok (o_file opts) \<Longrightarrow> corrupt_post opts w2 v w' \<Longrightarrow> Q v w'"
  shows "wp (\<not> defined_args es) (main shell clog es) Q R (\<lambda>n w'. n = EX_USAGE \<and> X n w') w"
  unfolding main_def wp_call wp_bind
proof (rule wp_mono [OF wp_conj [OF wp_argp_parse [OF args_inv_init order_refl sane] parse]])
  let ?u = "\<not> defined_args es" and ?X = "\<lambda>n w'. n = EX_USAGE \<and> X n w'"
  fix r w1 assume "parsed es w r w1 \<and> (case r of (e, opts) \<Rightarrow> A opts) w1"
  then obtain e opts where r: "r = (e, opts)" and p: "parsed es w (e, opts) w1" and A: "A opts w1" by (cases r) auto
  have sane1: "os_sane w1" and uninit: "o_file opts = Uninit \<Longrightarrow> ?u" and err: "e \<noteq> 0 \<Longrightarrow> ?u" and f: "file_ok (o_file opts)"
    using p os_sane_cong [of w w1] sane by (auto simp: parsed_def)
  let ?w2 = "lib_srand48 (now w1) w1"
  have sane2: "os_sane ?w2" using sane1 os_sane_cong [of w1 ?w2] by (simp add: lib_srand48_def)
  have sane3: "os_sane (snd (shell CLEAR_COMMAND ?w2))" using sh sane2 unfolding shell_ok_def by blast
  have go: "wp ?u (main_run clog opts) Q Q ?X w2"
    if "e = 0" "validate_opts opts = EXIT_OK" "w2 \<in> {?w2, snd (shell CLEAR_COMMAND ?w2)}" for w2
  proof -
    have "parsed es w (0, opts) w1" "os_sane w2" using p that sane2 sane3 by auto
    then show ?thesis
      by (intro wp_mono [OF wp_main_run [OF _ that(2) lg, where R = "\<lambda>_ _. False"]] run [OF A that(3) _ f]) auto
  qed
  show "wp ?u (case r of (err, opts) \<Rightarrow>
       if err \<noteq> 0 then c_bind (c_free (o_file opts)) (\<lambda>_. c_return EXIT_ARGS)
       else if validate_opts opts \<noteq> EXIT_OK then c_bind (c_free (o_file opts)) (\<lambda>_. c_return (validate_opts opts))
       else c_bind (c_gets now) (\<lambda>t. c_bind (c_modify (lib_srand48 t)) (\<lambda>_.
         c_bind (if o_clear_snapshots opts then clear_snapshots shell else c_val EXIT_OK) (\<lambda>ex.
         if o_clear_snapshots opts \<and> ex \<noteq> EXIT_OK then c_bind (c_free (o_file opts)) (\<lambda>_. c_return EXIT_IO)
         else main_run clog opts))))
     Q Q ?X w1"
    unfolding r
    using uninit err validate_cases [of opts] go bad [OF A] fail [OF A]
    by (cases "e = 0"; cases "validate_opts opts = EXIT_OK"; cases "o_clear_snapshots opts")
      (auto simp: wp_free wp_clear_snapshots split: prod.split)
qed auto

lemma wp_main:
  assumes "os_sane w" and "log_ok clog" and "shell_ok shell"
  shows "wp (\<not> defined_args es) (main shell clog es) (\<lambda>v _. v \<in> {EXIT_OK, EXIT_ARGS, EXIT_IO}) R (\<lambda>v _. v = EX_USAGE) w"
proof -
  have "wp True (argp_parse es 0 default_opts) (\<lambda>(e, opts) _. True) (\<lambda>_ _. True) (\<lambda>_ _. True) w"
    by (rule wp_mono [OF wp_weaken_flag [OF wp_argp_parse [OF args_inv_init order_refl assms(1), where R = "\<lambda>_ _. True"]]]) auto
  from wp_main_cases [OF assms this, where R = R] show ?thesis
    by (rule wp_mono) (auto dest: corrupt_post_status)
qed

lemma main_after_parse:
  assumes "argp_parse es 0 default_opts w = Val (0, opts) w1" and "validate_opts opts = EXIT_OK"
  shows "main shell clog es w =
    c_call (c_bind (if o_clear_snapshots opts then clear_snapshots shell else c_val EXIT_OK) (\<lambda>ex.
      if o_clear_snapshots opts \<and> ex \<noteq> EXIT_OK then c_bind (c_free (o_file opts)) (\<lambda>_. c_return EXIT_IO)
      else main_run clog opts)) (lib_srand48 (now w1) w1)"
  using assms by (simp add: main_def c_run)

section \<open>Clearing, then restoring\<close>

text \<open>What \<open>rm -rf\<close> of the snapshot directory does when it succeeds.\<close>

definition rm_rf :: "(string \<Rightarrow> os \<Rightarrow> int \<times> os) \<Rightarrow> bool" where
  "rm_rf shell \<longleftrightarrow> (\<forall>w. shell CLEAR_COMMAND w =
     (0, w\<lparr>nodes := (\<lambda>p. if prefix (comps SNAPSHOT_DIR) p then None else nodes w p)\<rparr>))"

lemma misses_cleared:
  assumes ok: "opts_ok opts" "offs_ok fs" and f: "file_ok (Str f)" "f \<noteq> ''/''"
    and clear: "\<And>p. prefix (comps SNAPSHOT_DIR) p \<Longrightarrow> nodes w p = None"
  shows "misses opts f fs w"
  unfolding misses_def
proof (intro allI impI)
  obtain p where p: "canonical p" "length (path_string p) \<le> 4017" "f = path_string p" using f by (auto simp: file_ok_def)
  fix c e assume a: "0 \<le> c \<and> c < n_chunks opts fs \<and> 0 \<le> e \<and> e \<le> (c - uint (o_index opts)) * o_chunk_size opts"
  note o = opts_okD [OF ok(1)]
  have "chunk_start opts c < fs" "0 \<le> chunk_start opts c"
    using less_n_chunks_iff [OF ok(1), of c fs] a o by (auto simp: region_end_def chunk_start_def)
  then have r: "in_s64 (chunk_start opts c)" "in_s64 (region_clip opts (e + o_chunk_size opts))"
    using ok(2) a o by (auto simp: in_s64_def offs_ok_def region_clip_def)
  have "resolve (cwd w) (snapshot_path f (chunk_start opts c) (region_clip opts (e + o_chunk_size opts))) =
      snapshot_at p (chunk_start opts c) (region_clip opts (e + o_chunk_size opts))"
    using snapshot_path_plain [OF p(1,2) r] p(3) by (simp add: resolve_plain)
  then show "nodes w (resolve (cwd w) (snapshot_path f (chunk_start opts c) (region_clip opts (e + o_chunk_size opts)))) = None"
    using clear by (simp add: snapshot_at_def)
qed

lemma wp_restore_cleared:
  assumes ok: "opts_ok opts" "o_mode opts = MODE_RESTORE" "o_chunk_size opts \<le> 2 ^ 61" and f: "file_ok (o_file opts)" "o_file opts \<noteq> Uninit"
    and sizes: "\<And>i. int (length (inodes w i)) \<le> 2 ^ 61" and root: "\<And>i. nodes w [] \<noteq> Some (Reg i)"
    and clear: "\<And>p. prefix (comps SNAPSHOT_DIR) p \<Longrightarrow> nodes w p = None"
  shows "wp False (corrupt clog opts) (\<lambda>v w'. inodes w' = inodes w) R (\<lambda>_ _. False) w"
proof (rule wp_corrupt_mode [OF ok(1)])
  show "int (length (inodes w i)) \<le> LLONG_MAX" for i using sizes [of i] by simp
next
  fix s i n t
  assume s: "o_file opts = Str s" and i: "nodes w (resolve (cwd w) s) = Some (Reg i)"
  let ?w = "pop_fault ((pop_fault w)\<lparr>fds := t\<rparr>)" and ?fs = "int (length (inodes w i))"
  have fs: "offs_ok ?fs" "roomy opts ?fs" using sizes [of i] ok(3) by (simp_all add: offs_ok_def roomy_def)
  have "s \<noteq> ''/''" using i root by (auto simp: resolve_def comps_def)
  then have miss: "misses opts s ?fs ?w"
    using misses_cleared [OF ok(1) fs(1), of s ?w] f(1) s clear by simp
  have close: "inodes w2 = inodes w1" if "sys_close fd w1 = (r, w2)" for fd w1 r w2
    using same_files_close [OF that] by (simp add: same_files_def)
  show "wp False (run_mode clog opts (int n) ?fs (n_chunks opts ?fs))
      (\<lambda>v w'. \<forall>r w''. sys_close (int n) w' = (r, w'') \<longrightarrow> inodes w'' = inodes w) (\<lambda>v w'. inodes w' = inodes w) (\<lambda>_ _. False) ?w"
    unfolding run_mode_def ok(2) modes.case
    by (rule wp_mono_val [OF wp_restore_misses [OF ok(1) fs s miss]]) (auto dest: close)
qed (use ok(2) f(2) in \<open>simp_all add: same_files_def\<close>)

section \<open>Properties\<close>

text \<open>C11: A run of the whole tool on a file, with validated options, for every fault plan and every state of
  the random number generator: unless an operation is undefined, it ends, with status zero or with the status for I/O
  errors, and every
  descriptor it opened is closed again.  The copy and bitflip modes change only bytes of selected chunks of
  this file and keep its length; the restore mode may in addition let it grow, at most to the end of the region and by
  at most one chunk; these three
  keep every other file and every name; the snapshot mode keeps the file and every other file that is not one of its
  snapshots, and changes no names but theirs and those of missing directories.  Undefined behaviour is possible only in
  the bitflip mode, or when the file and one chunk together exceed the range of file offsets.\<close>

theorem corrupt_confined:
  assumes "opts_ok opts" and "log_ok clog" and "\<not> d_less (o_probability opts) (Fin 0)"
    and "o_file opts = Str f" and "nodes w (resolve (cwd w) f) = Some (Reg i)" and "i < next_ino w"
    and "int (length (inodes w i)) \<le> LLONG_MAX"
    and "\<forall>a b. in_s64 a \<and> in_s64 b \<longrightarrow> nodes w (resolve (cwd w) (snapshot_path f a b)) \<noteq> Some (Reg i)"
  shows "case corrupt clog opts w of
      Val v w' \<Rightarrow> v \<in> {EXIT_OK, EXIT_IO} \<and> fd_get (fds w') = fd_get (fds w) \<and> mode_effect opts i w w'
    | Undef r \<Rightarrow> o_mode opts = MODE_BITFLIP \<or> \<not> roomy opts (int (length (inodes w i)))
    | _ \<Rightarrow> False"
proof -
  let ?u = "o_mode opts = MODE_BITFLIP \<or> \<not> roomy opts (int (length (inodes w i)))"
  have "run_env ?u clog opts f i w"
    using assms by (auto simp: run_env_def snap_env_def snap_name_def)
  then have "wp ?u (corrupt clog opts) (corrupt_post opts w) (\<lambda>_ _. False) (\<lambda>_ _. False) w"
    using assms by (intro wp_corrupt) auto
  moreover have "mode_effect opts i w w'" if "corrupt_post opts w v w'" for v w'
    using that assms(4,5) mode_effect_cong [of w w w w' opts i]
    by (auto simp: corrupt_post_def mode_effect_def same_files_def touches_def snap_effect_def Let_def split: if_splits modes.splits)
  ultimately show ?thesis
    by (cases "corrupt clog opts w") (auto simp: wp_def corrupt_post_def split: if_splits)
qed

lemma sample_not_snapshot:
  assumes "in_s64 a" and "in_s64 b"
  shows "nodes (sample_os bs t) (resolve d (snapshot_path ''/f'' a b)) \<noteq> Some (Reg 0)"
proof -
  have "canonical [''f'']" "path_string [''f''] = ''/f''" by (simp_all add: canonical_def plain_def path_string_def)
  then have "resolve d (snapshot_path ''/f'' a b) = snapshot_at [''f''] a b"
    using snapshot_path_plain [of "[''f'']" a b] assms by (simp add: resolve_plain)
  then show ?thesis by (simp add: sample_os_def snapshot_at_def comps_def split_SNAPSHOT_DIR)
qed

theorem corrupt_confined_witness:
  "\<exists>v w'. corrupt sample_log (sample_opts\<lparr>o_mode := MODE_COPY\<rparr>) (sample_os [1, 2, 3, 4, 5, 6, 7, 8] []) = Val v w' \<and>
     v \<in> {EXIT_OK, EXIT_IO} \<and> fd_get (fds w') = fd_get [] \<and>
     mode_effect (sample_opts\<lparr>o_mode := MODE_COPY\<rparr>) 0 (sample_os [1, 2, 3, 4, 5, 6, 7, 8] []) w'"
proof -
  let ?o = "sample_opts\<lparr>o_mode := MODE_COPY\<rparr>" and ?w = "sample_os [1, 2, 3, 4, 5, 6, 7, 8] []"
  have o: "opts_ok ?o" "\<not> d_less (o_probability ?o) (Fin 0)" "o_file ?o = Str ''/f''" "roomy ?o (int (length (inodes ?w 0)))"
    by (simp_all add: sample_opts_def default_opts_def opts_ok_def roomy_def OFF_MAX_def)
  have w: "nodes ?w (resolve (cwd ?w) ''/f'') = Some (Reg 0)" "0 < next_ino ?w" "int (length (inodes ?w 0)) \<le> LLONG_MAX"
    by (simp_all add: resolve_def comps_def)
  have "\<forall>a b. in_s64 a \<and> in_s64 b \<longrightarrow> nodes ?w (resolve (cwd ?w) (snapshot_path ''/f'' a b)) \<noteq> Some (Reg 0)"
    using sample_not_snapshot by blast
  from corrupt_confined [OF o(1) sample_log_ok o(2,3) w this] o(4) show ?thesis
    by (cases "corrupt sample_log ?o ?w") auto
qed

text \<open>C12: The program as a whole, on any command line and any sane file system, for every fault plan: it always
  ends.  It returns the status for success, for bad arguments or for an I/O error, or leaves with the usage
  status of the argument parser.  When the command line names a file, selects another mode than bitflip and asks
  for chunks of at most two to the sixty-first bytes, no operation of the run is undefined.\<close>

theorem main_status:
  assumes "os_sane w" and "log_ok clog" and "shell_ok shell"
  shows "case main shell clog es w of
      Val v _ \<Rightarrow> v \<in> {EXIT_OK, EXIT_ARGS, EXIT_IO}
    | Exit n _ \<Rightarrow> n = EX_USAGE
    | Undef _ \<Rightarrow> \<not> defined_args es
    | _ \<Rightarrow> False"
  using wp_main [OF assms, of es "\<lambda>_ _. False"] by (cases "main shell clog es w") (simp_all add: wp_def)

lemma sample_sane: "length bs \<le> 100 \<Longrightarrow> os_sane (sample_os bs t)"
  by (auto simp: os_sane_def sample_os_def plain_def path_string_def split: if_splits)

theorem main_status_witness:
  "case main (\<lambda>_ w. (0, w)) sample_log [Opt KEY_m ''copy'', Opt KEY_c ''2'', Arg ''/f''] (sample_os [1, 2, 3, 4, 5, 6, 7, 8] []) of
      Val v _ \<Rightarrow> v \<in> {EXIT_OK, EXIT_ARGS, EXIT_IO} | Exit n _ \<Rightarrow> n = EX_USAGE | _ \<Rightarrow> False"
proof -
  have "strtoll ''2'' = 2" by code_simp
  then have "defined_args [Opt KEY_m ''copy'', Opt KEY_c ''2'', Arg ''/f'']" by (auto simp: defined_args_def)
  moreover have "shell_ok (\<lambda>_ w. (0, w))" by (simp add: shell_ok_def)
  ultimately show ?thesis
    using main_status [OF sample_sane sample_log_ok, of "[1, 2, 3, 4, 5, 6, 7, 8]" "\<lambda>_ w. (0, w)"
        "[Opt KEY_m ''copy'', Opt KEY_c ''2'', Arg ''/f'']" "[]"]
    by (auto split: out.splits)
qed

text \<open>Parsing consumes the results of calls to \<open>realpath\<close> and may set \<open>errno\<close>, nothing else.\<close>

definition only_calls :: "os \<Rightarrow> os \<Rightarrow> bool" where
  "only_calls w w' \<longleftrightarrow> (\<exists>e fs. w' = w\<lparr>errno_of := e, faults := fs\<rparr>)"

lemma only_callsI: "w' = w\<lparr>errno_of := e, faults := fs\<rparr> \<Longrightarrow> only_calls w w'"
  unfolding only_calls_def by blast

lemma only_calls_refl [simp, intro]: "only_calls w w"
  by (rule only_callsI [where e = "errno_of w" and fs = "faults w"]) simp

lemma only_calls_trans:
  assumes "only_calls w w'" and "only_calls w' w''"
  shows "only_calls w w''"
proof -
  obtain e fs e' fs' where "w' = w\<lparr>errno_of := e, faults := fs\<rparr>" "w'' = w'\<lparr>errno_of := e', faults := fs'\<rparr>"
    using assms unfolding only_calls_def by blast
  then show ?thesis by (intro only_callsI [where e = e' and fs = fs']) simp
qed

lemma realpath_only_calls:
  assumes "sys_realpath s w = (r, w')"
  shows "only_calls w w'"
proof -
  have "only_calls w (pop_fault w)" "only_calls w ((pop_fault w)\<lparr>errno_of := e\<rparr>)" for e
    by (rule only_callsI [where e = "errno_of w" and fs = "tl (faults w)"] only_callsI [where e = e and fs = "tl (faults w)"],
        simp add: pop_fault_def)+
  then show ?thesis
    using assms by (auto simp: sys_realpath_def Let_def split: fault.splits if_splits)
qed

lemma parse_opt_only_calls:
  "wp u (parse_opt k a n opts) (\<lambda>_. only_calls w) R (\<lambda>v w'. v = EX_USAGE \<and> only_calls w w') w"
  by (cases k) (auto simp: parse_opt_def wp_lib dest: realpath_only_calls split: prod.split)

lemma parse_rest_only_calls:
  assumes "only_calls w w'"
    and IH: "\<And>opts. wp u (f opts) (\<lambda>_. only_calls w') R (\<lambda>v w2. v = EX_USAGE \<and> only_calls w' w2) w'"
  shows "wp u (case r of (e, opts) \<Rightarrow> if e \<noteq> 0 then c_val (e, opts) else f opts) (\<lambda>_. only_calls w) R
    (\<lambda>v w2. v = EX_USAGE \<and> only_calls w w2) w'"
proof -
  have "wp u (f opts) (\<lambda>_. only_calls w) R (\<lambda>v w2. v = EX_USAGE \<and> only_calls w w2) w'" for opts
    by (rule wp_mono [OF IH]) (auto intro: only_calls_trans [OF assms(1)])
  with assms(1) show ?thesis by (simp add: split_def)
qed

lemma argp_parse_only_calls:
  "wp u (argp_parse es n opts) (\<lambda>_. only_calls w) R (\<lambda>v w'. v = EX_USAGE \<and> only_calls w w') w"
proof (induction es n opts arbitrary: w rule: argp_parse.induct)
  case (1 n opts)
  show ?case unfolding argp_parse.simps by (rule parse_opt_only_calls)
next
  case (2 k a es n opts)
  show ?case
    unfolding argp_parse.simps wp_bind
    by (rule wp_mono_val [OF parse_opt_only_calls])
      (rule parse_rest_only_calls, assumption, rule "2.IH" [where x = 0], auto)
next
  case (3 a es n opts)
  show ?case
    unfolding argp_parse.simps wp_bind
    by (rule wp_mono_val [OF parse_opt_only_calls])
      (rule parse_rest_only_calls, assumption, rule "3.IH" [where x = 0], auto)
qed

text \<open>C31: For any command line, on any file system: parsing always ends, and up to its end the program has changed
  nothing but \<open>errno\<close>: it has run no shell, and seeded and touched nothing.  Either the parser leaves the program
  with the usage status (an unknown mode, no file, a wrong number of arguments).  Or it returns an error or options,
  and when it returns an error or the options are not well-formed (an empty or negative region, no positive chunk size,
  an index not below the modulus, a probability below zero or above one; NaN passes), the program ends at once: it returns the
  status for bad arguments when a file was named, and otherwise frees a pointer that was never assigned.\<close>

theorem main_rejects_bad_options:
  "case argp_parse es 0 default_opts w of
      Val (e, opts) w1 \<Rightarrow> (\<exists>x y. w1 = w\<lparr>errno_of := x, faults := y\<rparr>) \<and>
        (e \<noteq> 0 \<or> \<not> opts_ok opts \<or> d_less (o_probability opts) (Fin 0) \<or> d_less (Fin 1) (o_probability opts) \<longrightarrow>
         main shell clog es w = (if o_file opts = Uninit then Undef UninitRead else Val EXIT_ARGS w1))
    | Exit n w1 \<Rightarrow> n = EX_USAGE \<and> (\<exists>x y. w1 = w\<lparr>errno_of := x, faults := y\<rparr>) \<and> main shell clog es w = Exit n w1
    | _ \<Rightarrow> False"
proof (cases "argp_parse es 0 default_opts w")
  note parse = argp_parse_only_calls [of False es 0 default_opts w "\<lambda>_ _. False"]
  {
    case (Val r w1)
    obtain e opts where r: "r = (e, opts)" by force
    have "only_calls w w1" using wp_ValD [OF parse Val] .
    moreover have typed: "opts_typed opts"
      using wp_ValD [OF argp_parse_typed [where R = "\<lambda>_ _. True"] Val] default_opts_ok r by simp
    ultimately show ?thesis
      using Val validate_cases [of opts] validate_opts_iff [OF typed]
      by (auto simp: r only_calls_def main_def c_run c_free_def split: cptr.split)
  next
    case (Exit n w1)
    then show ?thesis using wp_ExitD [OF parse Exit] by (auto simp: only_calls_def main_def c_run)
  next
    case (Return v w1)
    then show ?thesis using parse by (simp add: wp_def)
  next
    case (Undef x)
    then show ?thesis using parse by (simp add: wp_def)
  next
    case Diverge
    then show ?thesis using parse by (simp add: wp_def)
  }
qed

theorem main_rejects_bad_options_witness:
  "\<exists>w1. main (\<lambda>_ w. (0, w)) sample_log [Opt KEY_c ''0'', Opt KEY_m ''copy'', Arg ''/f''] (sample_os [1, 2] []) = Val EXIT_ARGS w1 \<and>
     inodes w1 0 = [1, 2]"
proof -
  let ?es = "[Opt KEY_c ''0'', Opt KEY_m ''copy'', Arg ''/f'']" and ?w = "sample_os [1, 2] []"
  let ?o = "default_opts\<lparr>o_chunk_size := 0, o_mode := MODE_COPY, o_file := Str ''/f''\<rparr>"
  have z: "strtoll ''0'' = 0" by code_simp
  have run: "argp_parse ?es 0 default_opts ?w = Val (0, ?o) (pop_fault ?w)"
    by (simp add: parse_opt_def c_run sys_realpath_def next_fault_def resolve_def
        comps_def path_string_def Let_def z)
  have "\<not> opts_ok ?o" by (simp add: opts_ok_def)
  with main_rejects_bad_options [where es = ?es and w = ?w and shell = "\<lambda>_ w. (0, w)" and clog = sample_log] show ?thesis
    unfolding run by simp
qed

text \<open>C21: The option that clears the snapshots is documented to work without a file.  But the pointer to the file is then
  never assigned, and the program frees it: its behaviour is undefined, whatever the shell does.\<close>

theorem clear_without_file_undefined:
  "main shell clog [Opt OPT_CLEAR_SNAPSHOTS a] w = Undef UninitRead"
proof -
  let ?o = "default_opts\<lparr>o_clear_snapshots := True\<rparr>"
  have parse: "argp_parse [Opt OPT_CLEAR_SNAPSHOTS a] 0 default_opts w = Val (0, ?o) w"
    by (simp add: parse_opt_def c_run)
  have "validate_opts ?o = EXIT_OK" by (simp add: validate_opts_def default_opts_def OFF_MAX_def exit_code_defs)
  moreover have "o_file ?o = Uninit" "o_mode ?o = MODE_NONE" by (simp_all add: default_opts_def)
  ultimately show ?thesis
    unfolding main_after_parse [OF parse \<open>validate_opts ?o = EXIT_OK\<close>]
    by (auto simp: c_call_def c_bind_def clear_snapshots_def c_lib_def
        c_free_def c_undef_def main_run_def corrupt_def c_return_def Let_def split: prod.split)
qed

text \<open>The command handed to the shell fits its buffer: it is the complete command, with the directory in quotes, and
  the function returns what the shell returns.\<close>

lemma clear_snapshots_command:
  "clear_snapshots shell w = (case shell (''rm -rf '' @ [CHR 39] @ ''/tmp/jepsen/corrupt-file/snapshots'' @ [CHR 39]) w of
     (r, w') \<Rightarrow> Val r w')"
  by (simp add: clear_snapshots_def snprintf_s_def CLEAR_COMMAND_def SNAPSHOT_DIR_def c_lib_def)

text \<open>C32: Clearing the snapshots and restoring in one run: if the shell removes the snapshot directory, then for every fault
  plan and generator state the run ends without undefined behaviour and no file's contents change.\<close>

theorem clear_then_restore_keeps_files:
  assumes "os_sane w" and "rm_rf shell"
  shows "\<exists>v w'. main shell clog [Opt OPT_CLEAR_SNAPSHOTS a, Opt KEY_m ''restore'', Arg s] w = Val v w' \<and> inodes w' = inodes w"
proof -
  obtain r w1 where rp: "sys_realpath s w = (r, w1)" by force
  let ?f = "case r of None \<Rightarrow> Null | Some f \<Rightarrow> Str f"
  let ?o = "default_opts\<lparr>o_clear_snapshots := True, o_mode := MODE_RESTORE, o_file := ?f\<rparr>"
  have parse: "argp_parse [Opt OPT_CLEAR_SNAPSHOTS a, Opt KEY_m ''restore'', Arg s] 0 default_opts w = Val (0, ?o) w1"
    by (simp add: parse_opt_def c_run rp)
  have val: "validate_opts ?o = EXIT_OK" "opts_ok ?o" by (simp_all add: validate_opts_def default_opts_def OFF_MAX_def exit_code_defs opts_ok_def)
  note rp' = realpath_file_ok [OF assms(1) rp]
  let ?w2 = "lib_srand48 (now w1) w1"
  let ?w3 = "?w2\<lparr>nodes := (\<lambda>p. if prefix (comps SNAPSHOT_DIR) p then None else nodes ?w2 p)\<rparr>"
  have same: "inodes ?w3 = inodes w" "nodes ?w2 = nodes w" using rp'(1) by (simp_all add: lib_srand48_def same_files_def)
  have "wp False (corrupt clog ?o) (\<lambda>v w'. inodes w' = inodes ?w3) (\<lambda>_ _. False) (\<lambda>_ _. False) ?w3"
    using assms(1) rp'(2) val(2) same
    by (intro wp_restore_cleared) (auto simp: os_sane_def default_opts_def split: option.splits)
  then obtain v w4 where run: "corrupt clog ?o ?w3 = Val v w4" "inodes w4 = inodes w"
    using same(1) by (auto elim: wp_totalD)
  have "clear_snapshots shell ?w2 = Val 0 ?w3"
    using assms(2) by (simp add: clear_snapshots_def rm_rf_def snprintf_s_def CLEAR_COMMAND_def c_lib_def)
  moreover have "c_free ?f w4 = Val () w4" by (simp add: c_free_def c_val_def split: option.split)
  ultimately show ?thesis
    unfolding main_after_parse [OF parse val(1)]
    using run by (simp add: c_run main_run_def EXIT_OK_def)
qed

theorem clear_then_restore_keeps_files_witness:
  "\<exists>v w'. main (\<lambda>_ w. (0, w\<lparr>nodes := (\<lambda>p. if prefix (comps SNAPSHOT_DIR) p then None else nodes w p)\<rparr>)) sample_log
     [Opt OPT_CLEAR_SNAPSHOTS [], Opt KEY_m ''restore'', Arg ''/f''] (sample_os [1, 2] []) = Val v w' \<and> inodes w' 0 = [1, 2]"
proof -
  let ?sh = "\<lambda>_ w. (0, w\<lparr>nodes := (\<lambda>p. if prefix (comps SNAPSHOT_DIR) p then None else nodes w p)\<rparr>)"
  have "rm_rf ?sh" by (simp add: rm_rf_def)
  from clear_then_restore_keeps_files [OF _ this, of "sample_os [1, 2] []" sample_log "[]" "''/f''"]
  show ?thesis by (auto simp: sample_sane)
qed

end
