(* ===== verification/CF_Copy_Spec.thy ===== *)
theory CF_Copy_Spec
  imports CF_Copy
begin

text \<open>
  The copy mode as a function.  \<open>copy_spec\<close> takes the state of the generator, the fault plan and
  the bytes of the file and computes what a run leaves of them: for each selected chunk it draws
  whether to copy, redraws for a source chunk (\<open>source_draw\<close>) and overwrites as much of the chunk
  as the call moves; a call that fails ends it.  It knows no descriptors and no file system.

  \<open>copy_body_computes\<close> runs one iteration of the program's loop, the interpretation \<open>copyx_mode\<close>
  of \<open>chunk_mode\<close> carries it through the loop, and \<open>corrupt_copy_computes\<close> states the final
  state of the whole mode, for every fault plan, as an equation.
\<close>

section \<open>The reference\<close>

text \<open>
  The state: the generator, the fault plan, the bytes of the file, and the bytes and chunks
  copied so far.  A failure keeps the first three and the error.
\<close>

type_synonym copy_state = "rng \<times> fault list \<times> byte list \<times> int \<times> int"
type_synonym copy_result = "(rng \<times> fault list \<times> byte list \<times> errno) + copy_state"

definition copy_pick :: "opts_t \<Rightarrow> int \<Rightarrow> int \<Rightarrow> copy_state \<Rightarrow> copy_result" where
  "copy_pick opts fs c = (\<lambda>(x, fl, bs, b, n).
     let x1 = lcg_step x
     in if d_less (o_probability opts) (Fin (of_int x1 / 2 ^ 48)) then Inr (x1, fl, bs, b, n)
        else case source_draw opts fs (chunk_start opts c) x1 of
          (x2, None) \<Rightarrow> Inr (x2, fl, bs, b, n)
        | (x2, Some e) \<Rightarrow>
            let k = min (nat (chunk_end opts fs c - chunk_start opts c)) (length bs - nat (chunk_start opts e));
                put = (\<lambda>m. Inr (x2, tl fl, copy_over opts c e m bs, b + int m, n + 1))
            in case fl of
                 Fail er # _ \<Rightarrow> Inl (x2, tl fl, bs, er)
               | Short j # _ \<Rightarrow> put (short_count (Short j) k)
               | _ \<Rightarrow> put k)"

primrec copy_fold :: "opts_t \<Rightarrow> int \<Rightarrow> int list \<Rightarrow> copy_state \<Rightarrow> copy_result" where
  "copy_fold opts fs [] s = Inr s"
| "copy_fold opts fs (c # cs) s = (case copy_pick opts fs c s of
     Inl r \<Rightarrow> Inl r
   | Inr s' \<Rightarrow> copy_fold opts fs cs s')"

definition copy_spec :: "opts_t \<Rightarrow> rng \<Rightarrow> fault list \<Rightarrow> byte list \<Rightarrow> copy_result" where
  "copy_spec opts x fl bs =
     copy_fold opts (int (length bs)) (chunks_from opts (int (length bs)) 0) (x, fl, bs, 0, 0)"

section \<open>One iteration\<close>

text \<open>A copy inside one file, between ranges that do not overlap, as an equation.\<close>

lemma sys_cfr_computes:
  assumes fd: "fd_reg w fd i True True pos" and len: "0 \<le> len" "a + len \<le> LLONG_MAX" "b + len \<le> LLONG_MAX"
    and ab: "0 \<le> a" "0 \<le> b" and apart: "\<not> overlaps (nat a) (nat b) (cfr_count w i (nat a) len)"
  shows "sys_cfr fd (Some a) fd (Some b) len w =
    (case next_fault w of
       Fail e \<Rightarrow> (-1, (pop_fault w)\<lparr>errno_of := e\<rparr>)
     | flt \<Rightarrow> let m = short_count flt (cfr_count w i (nat a) len)
              in (int m, cfr_transfer i (nat a) i (nat b) m (pop_fault w)))"
proof -
  obtain f where f: "fd_get (fds w) fd = Some f" "of_node f = Reg i" "of_rd f" "of_wr f"
    using fd by (auto simp: fd_reg_def)
  have m: "len mod 2 ^ 64 = len" using len ab by (intro mod_pos_pos_trivial) simp_all
  have "do_cfr flt fd (Some a) fd (Some b) len (pop_fault w) =
      (let m = short_count flt (cfr_count w i (nat a) len) in ((int m, ()), cfr_transfer i (nat a) i (nat b) m (pop_fault w)))" for flt
    using f len ab apart unfolding do_cfr_def m by (simp add: advance_def Let_def cfr_transfer_def)
  then show ?thesis
    by (simp add: sys_cfr_def syscall_def fail_def Let_def split: fault.split)
qed

text \<open>The world with the three components of the reference put in.\<close>

definition copied_os :: "nat \<Rightarrow> os \<Rightarrow> rng \<Rightarrow> fault list \<Rightarrow> byte list \<Rightarrow> os" where
  "copied_os i w x fl bs = w\<lparr>rand_st := x, faults := fl, inodes := (inodes w)(i := bs)\<rparr>"

lemma copied_os_simps [simp]:
  "rand_st (copied_os i w x fl bs) = x" "faults (copied_os i w x fl bs) = fl" "inodes (copied_os i w x fl bs) = (inodes w)(i := bs)"
  "nodes (copied_os i w x fl bs) = nodes w" "fds (copied_os i w x fl bs) = fds w" "printed (copied_os i w x fl bs) = printed w"
  "cwd (copied_os i w x fl bs) = cwd w" "next_ino (copied_os i w x fl bs) = next_ino w"
  "copied_os i (copied_os i w x fl bs) x' fl' bs' = copied_os i w x' fl' bs'"
  by (simp_all add: copied_os_def)

lemma copied_os_same: "copied_os i w (rand_st w) (faults w) (inodes w i) = w"
  by (simp add: copied_os_def)

lemma copied_os_redrawn: "w\<lparr>rand_st := x\<rparr> = copied_os i w x (faults w) (inodes w i)"
  by (simp add: copied_os_def)

lemma copied_os_transfer:
  "cfr_transfer i (nat (chunk_start opts e)) i (nat (chunk_start opts c)) m (pop_fault w) =
     copied_os i w (rand_st w) (tl (faults w)) (copy_over opts c e m (inodes w i))"
  by (simp add: copied_os_def cfr_transfer_def pop_fault_def copy_over_def)

definition pick_ok :: "nat \<Rightarrow> os \<Rightarrow> copy_result \<Rightarrow> int \<times> int \<Rightarrow> os \<Rightarrow> bool" where
  "pick_ok i w r s w' \<longleftrightarrow> (\<exists>x fl bs. r = Inr (x, fl, bs, s) \<and> w' = copied_os i w x fl bs)"

definition pick_bail :: "int \<Rightarrow> nat \<Rightarrow> os \<Rightarrow> copy_result \<Rightarrow> int \<Rightarrow> os \<Rightarrow> bool" where
  "pick_bail fd i w r v w' \<longleftrightarrow> v = EXIT_IO \<and>
     (\<exists>x fl bs e. r = Inl (x, fl, bs, e) \<and> w' = snd (sys_close fd ((copied_os i w x fl bs)\<lparr>errno_of := e\<rparr>)))"

text \<open>The transfer from an acceptable source chunk.\<close>

lemma copy_transfer_computes:
  assumes ok: "opts_ok opts" "offs_ok fs" "roomy opts fs" and sel: "selected opts c" "c < n_chunks opts fs"
    and src: "source_ok opts fs (chunk_start opts c) e"
    and fd: "fd_reg w fd i True True pos" and len: "int (length (inodes w i)) = fs"
  defines "k \<equiv> min (nat (chunk_end opts fs c - chunk_start opts c)) (length (inodes w i) - nat (chunk_start opts e))"
  shows "sys_cfr fd (Some (chunk_start opts e)) fd (Some (chunk_start opts c)) (chunk_end opts fs c - chunk_start opts c) w =
    (case next_fault w of
       Fail er \<Rightarrow> (-1, (pop_fault w)\<lparr>errno_of := er\<rparr>)
     | flt \<Rightarrow> (int (short_count flt k),
         copied_os i w (rand_st w) (tl (faults w)) (copy_over opts c e (short_count flt k) (inodes w i))))"
proof -
  note f = chunk_facts [OF ok(1,2) sel]
  have e: "0 \<le> e" "e < n_chunks opts fs" "e \<noteq> c"
    using src sel by (auto simp: source_ok_def split: if_splits)
  have fe: "0 \<le> chunk_start opts e" "chunk_start opts e < fs"
    using less_n_chunks_iff [OF ok(1) e(1), of fs] e opts_okD [OF ok(1)] f(6)
    by (auto simp: chunk_start_def)
  let ?len = "chunk_end opts fs c - chunk_start opts c"
  have "?len mod 2 ^ 64 = ?len" using f ok(2) by (intro mod_pos_pos_trivial) (simp_all add: offs_ok_def)
  then have cnt: "cfr_count w i (nat (chunk_start opts e)) ?len = k" by (simp only: cfr_count_def k_def)
  have "int k \<le> o_chunk_size opts" "chunk_start opts e + int k \<le> fs"
    using f(4,7) fe len by (auto simp: k_def)
  then have "\<not> overlaps (nat (chunk_start opts e)) (nat (chunk_start opts c)) k"
    using f(2) fe(1) e(3) chunk_start_strict_mono [OF ok(1), of e c] chunk_start_strict_mono [OF ok(1), of c e]
    by (cases e c rule: linorder_cases) (auto simp: overlaps_def)
  moreover have "chunk_start opts e + ?len \<le> LLONG_MAX"
    using fe f(7) ok(3) by (simp add: roomy_def)
  ultimately show ?thesis
    using sys_cfr_computes [OF fd, of ?len "chunk_start opts e" "chunk_start opts c"] f fe ok(2)
    by (simp add: cnt copied_os_transfer Let_def offs_ok_def cong: fault.case_cong)
qed

lemma copy_body_computes:
  fixes b n
  assumes ok: "opts_ok opts" "offs_ok fs" "roomy opts fs" and sel: "selected opts c" "c < n_chunks opts fs"
    and fd: "fd_reg w fd i True True pos" and len: "int (length (inodes w i)) = fs"
  defines "r \<equiv> copy_pick opts fs c (rand_st w, faults w, inodes w i, b, n)"
  shows "wp True (copy_body opts fd fs c (b, n)) (pick_ok i w r) (pick_bail fd i w r) (\<lambda>_ _. False) w"
proof -
  note f = chunk_facts [OF ok(1,2) sel]
  let ?x = "lcg_step (rand_st w)"
  let ?w = "w\<lparr>rand_st := ?x\<rparr>" and ?s = "chunk_start opts c"
  let ?rest = "\<lambda>source. if 0 \<le> source then
       c_bind (c_lib (sys_cfr fd (Some source) fd (Some ?s) (chunk_end opts fs c - ?s))) (\<lambda>copied.
        if copied = -1 then c_bind (c_lib (sys_close fd)) (\<lambda>_. c_return EXIT_IO)
        else c_bind (s64 (b + copied)) (\<lambda>b. c_bind (s64 (n + 1)) (\<lambda>n. c_val (b, n))))
       else c_val (b, n)"
  have pass: "pick_ok i w r (b, n) ?w" if "d_less (o_probability opts) (Fin (of_int ?x / 2 ^ 48)) \<or> n_chunks opts fs < 2"
    using that by (auto simp: r_def copy_pick_def Let_def pick_ok_def copied_os_redrawn source_draw_def)
  have "wp True (rand_source_offset opts ?s fs)
      (\<lambda>source. wp True (?rest source) (pick_ok i w r) (pick_bail fd i w r) (\<lambda>_ _. False)) (pick_bail fd i w r) (\<lambda>_ _. False) ?w"
    if nd: "\<not> d_less (o_probability opts) (Fin (of_int ?x / 2 ^ 48))"
  proof (cases "n_chunks opts fs < 2")
    case True
    with pass show ?thesis by (simp add: wp_no_source [OF ok(1,2)])
  next
    case False
    then obtain y e where e: "source_draw opts fs ?s ?x = (y, Some e)" "source_ok opts fs ?s e"
      using source_draw_ok [OF ok(1)] by (metis not_le)
    have e0: "0 \<le> chunk_start opts e" using e(2) opts_okD [OF ok(1)] by (simp add: source_ok_def chunk_start_def)
    have r: "r = copy_pick opts fs c (rand_st w, faults w, inodes w i, b, n)" by (simp add: r_def)
    note tr = copy_transfer_computes [OF ok sel e(2), of "w\<lparr>rand_st := y\<rparr>" fd i pos]
    show ?thesis
    proof (rule wp_source_draw [OF ok(1,2)])
      show "source_draw opts fs ?s (rand_st ?w) = (y, Some e)" using e(1) by simp
      show "wp True (?rest (chunk_start opts e)) (pick_ok i w r) (pick_bail fd i w r) (\<lambda>_ _. False) (?w\<lparr>rand_st := y\<rparr>)"
      proof (cases "faults w")
        case Nil
        then show ?thesis using tr fd len e0 nd e(1)
          by (auto simp: wp_lib r copy_pick_def Let_def pick_ok_def next_fault_def short_count_def copied_os_def fd_reg_def)
      next
        case (Cons flt fl)
        then show ?thesis using tr fd len e0 nd e(1)
          by (cases flt) (auto simp: wp_lib r copy_pick_def Let_def pick_ok_def pick_bail_def next_fault_def short_count_def copied_os_def
            pop_fault_def fd_reg_def split: prod.split)
      qed
    qed
  qed
  with pass show ?thesis
    unfolding copy_body_def
    by (auto simp: wp_lib lib_drand48_def Let_def wp_chunk_offset [OF ok(1) f(1) sel(2) ok(2)] cong: if_cong)
qed

section \<open>The loop\<close>

text \<open>
  Before chunk \<open>c\<close> the rest of the reference, from where the program is, still computes the result
  \<open>r\<close>; a failed transfer ends both.  \<open>copy_inv\<close> says why the statistics fit.
\<close>

definition copyx_inv :: "opts_t \<Rightarrow> int \<Rightarrow> int \<Rightarrow> nat \<Rightarrow> os \<Rightarrow> copy_result \<Rightarrow> int \<Rightarrow> int \<times> int \<Rightarrow> os \<Rightarrow> bool" where
  "copyx_inv opts fd fs i wi r c s w \<longleftrightarrow> copy_inv False opts fd fs i wi c s w \<and>
     w = copied_os i wi (rand_st w) (faults w) (inodes w i) \<and>
     copy_fold opts fs (chunks_from opts fs c) (rand_st w, faults w, inodes w i, s) = r"

lemma copyx_bail:
  assumes "copyx_inv opts fd fs i wi r c (b, n) w" and "selected opts c" "c < n_chunks opts fs"
    and "pick_bail fd i w (copy_pick opts fs c (rand_st w, faults w, inodes w i, b, n)) v w'"
  shows "pick_bail fd i wi r v w'"
proof -
  have "opts_ok opts" and w: "w = copied_os i wi (rand_st w) (faults w) (inodes w i)"
    and r: "copy_fold opts fs (chunks_from opts fs c) (rand_st w, faults w, inodes w i, b, n) = r"
    using assms(1) by (simp_all add: copyx_inv_def copy_inv_def)
  then have "copied_os i w x fl bs = copied_os i wi x fl bs" for x fl bs using w by (metis copied_os_simps(9))
  with assms(4) r chunks_from_step [OF \<open>opts_ok opts\<close> assms(2,3)] show ?thesis by (auto simp: pick_bail_def)
qed

lemma copyx_step:
  assumes "copyx_inv opts fd fs i wi r c (b, n) w" and "selected opts c" "c < n_chunks opts fs"
    and "copy_inv False opts fd fs i wi (c + uint (o_mod opts)) s w'"
    and "pick_ok i w (copy_pick opts fs c (rand_st w, faults w, inodes w i, b, n)) s w'"
  shows "copyx_inv opts fd fs i wi r (c + uint (o_mod opts)) s w'"
proof -
  have "opts_ok opts" and w: "w = copied_os i wi (rand_st w) (faults w) (inodes w i)"
    and r: "copy_fold opts fs (chunks_from opts fs c) (rand_st w, faults w, inodes w i, b, n) = r"
    using assms(1) by (simp_all add: copyx_inv_def copy_inv_def)
  then have "copied_os i w x fl bs = copied_os i wi x fl bs" for x fl bs using w by (metis copied_os_simps(9))
  with assms(4,5) r chunks_from_step [OF \<open>opts_ok opts\<close> assms(2,3)] show ?thesis by (auto simp: pick_ok_def copyx_inv_def)
qed

interpretation copyx_mode: chunk_mode False opts "n_chunks opts fs" "copy_body opts fd fs"
    "copyx_inv opts fd fs i wi r" "pick_bail fd i wi r" for opts fd fs i wi r
proof unfold_locales
  fix c s w assume inv: "copyx_inv opts fd fs i wi r c s w"
  then have cinv: "copy_inv False opts fd fs i wi c s w" by (simp add: copyx_inv_def)
  then show "opts_ok opts \<and> (False \<or> n_chunks opts fs + 2 ^ 32 \<le> LLONG_MAX)" by (rule copy_mode.inv_opts)
  assume sel: "selected opts c" "c < n_chunks opts fs"
  obtain b n where s: "s = (b, n)" by force
  obtain pos where "opts_ok opts" "offs_ok fs" "roomy opts fs" "fd_reg w fd i True True pos" "int (length (inodes w i)) = fs"
    using copy_invD [OF cinv] cinv by (auto simp: copy_inv_def fd_reg_def)
  with copy_body_computes [OF this(1-3) sel this(4,5), of b n]
  show "wp False (copy_body opts fd fs c s) (copyx_inv opts fd fs i wi r (c + uint (o_mod opts))) (pick_bail fd i wi r) (\<lambda>_ _. False) w"
    unfolding s
    by (intro wp_mono [OF wp_conj [OF copy_body_keeps [OF cinv [unfolded s] sel]]])
      (use inv [unfolded s] sel in \<open>auto intro: copyx_step copyx_bail\<close>)
qed

text \<open>What the mode leaves, after success and after an I/O error.\<close>

definition copyx_post :: "int \<Rightarrow> nat \<Rightarrow> os \<Rightarrow> copy_result \<Rightarrow> int \<Rightarrow> os \<Rightarrow> bool" where
  "copyx_post fd i w r v w' \<longleftrightarrow> v = EXIT_IO \<and> pick_bail fd i w r v w' \<or>
     v = EXIT_OK \<and> (\<exists>x fl bs b n. r = Inr (x, fl, bs, b, n) \<and>
       w' = (copied_os i w x fl bs)\<lparr>printed := printed w @ [copy_report n b]\<rparr>)"

lemma wp_copy_computes:
  assumes ok: "opts_ok opts" "offs_ok fs" "roomy opts fs" and fd: "fd_reg w fd i True True pos" and len: "fs = int (length (inodes w i))"
  shows "wp False (corrupt_copy opts fd fs (n_chunks opts fs))
    (copyx_post fd i w (copy_spec opts (rand_st w) (faults w) (inodes w i))) R (\<lambda>_ _. False) w"
proof -
  let ?r = "copy_spec opts (rand_st w) (faults w) (inodes w i)"
  let ?Q = "copyx_post fd i w ?r"
  let ?fin = "\<lambda>(b, n). c_bind (c_modify (lib_puts (copy_report n b))) (\<lambda>_. c_val EXIT_OK)"
  have init: "copyx_inv opts fd fs i w ?r (uint (o_index opts)) (0, 0) w"
    using ok fd len copy_steps.start chunks_from_init [of opts fs]
    by (auto simp: copyx_inv_def copy_inv_def copied_os_same copy_spec_def)
  have "wp False (for_chunks opts (n_chunks opts fs) (copy_body opts fd fs) (0, 0))
      (\<lambda>s. wp False (?fin s) ?Q ?Q (\<lambda>_ _. False)) (pick_bail fd i w ?r) (\<lambda>_ _. False) w"
  proof (rule copyx_mode.wp_loop [OF init])
    fix c s w' assume inv: "copyx_inv opts fd fs i w ?r c s w'" and c: "n_chunks opts fs \<le> c"
    obtain b n where s: "s = (b, n)" by force
    have r: "?r = Inr (rand_st w', faults w', inodes w' i, b, n)" and w': "w' = copied_os i w (rand_st w') (faults w') (inodes w' i)"
      using inv c s by (simp_all add: copyx_inv_def)
    have "printed w' = printed w" using w' by (metis copied_os_simps(6))
    with w' have "lib_puts (copy_report n b) w' =
        (copied_os i w (rand_st w') (faults w') (inodes w' i))\<lparr>printed := printed w @ [copy_report n b]\<rparr>"
      by (simp add: lib_puts_def)
    with r show "wp False (?fin s) ?Q ?Q (\<lambda>_ _. False) w'" unfolding s copyx_post_def by auto
  qed
  then show ?thesis
    unfolding corrupt_copy_def copy_report_def by (auto simp: copyx_post_def pick_bail_def split_def elim!: wp_mono)
qed

section \<open>Without faults\<close>

lemma copy_pick_quiet:
  obtains x' bs' b' n' where "copy_pick opts fs c (x, [], bs, b, n) = Inr (x', [], bs', b', n')"
  using that by (cases "source_draw opts fs (chunk_start opts c) (lcg_step x)")
    (force simp: copy_pick_def Let_def split: option.splits)

lemma copy_fold_quiet: "\<exists>x' bs' b' n'. copy_fold opts fs cs (x, [], bs, b, n) = Inr (x', [], bs', b', n')"
proof (induction cs arbitrary: x bs b n)
  case (Cons c cs)
  obtain x' bs' b' n' where "copy_pick opts fs c (x, [], bs, b, n) = Inr (x', [], bs', b', n')" by (rule copy_pick_quiet)
  with Cons.IH show ?case by simp
qed simp

lemma copy_spec_quiet:
  obtains x' bs' b' n' where "copy_spec opts x [] bs = Inr (x', [], bs', b', n')"
  using that copy_fold_quiet unfolding copy_spec_def by blast

text \<open>The reference depends on neither the mode nor the file.\<close>

lemma copy_spec_opts: "copy_spec (opts\<lparr>o_mode := m, o_file := f\<rparr>) = copy_spec opts"
proof -
  let ?o = "opts\<lparr>o_mode := m, o_file := f\<rparr>"
  have sel: "selected ?o = selected opts" "n_chunks ?o = n_chunks opts" "chunk_start ?o = chunk_start opts"
      "chunk_end ?o = chunk_end opts"
    by (auto simp: fun_eq_iff selected_def n_chunks_def region_end_def chunk_start_def chunk_end_def)
  then have "source_ok ?o = source_ok opts" by (intro ext) (simp add: source_ok_def)
  then have "source_draw ?o = source_draw opts" by (intro ext) (simp only: source_draw_def sel)
  moreover have "copy_over ?o = copy_over opts" by (intro ext) (simp add: copy_over_def sel)
  ultimately have "copy_pick ?o = copy_pick opts" by (intro ext) (simp add: copy_pick_def sel cong: if_cong)
  then have "copy_fold ?o fs cs s = copy_fold opts fs cs s" for fs cs s
    by (induction cs arbitrary: s) (simp_all split: sum.split)
  then show ?thesis by (intro ext) (simp add: copy_spec_def chunks_from_def sel)
qed

section \<open>Properties\<close>

text \<open>C2: Equivalence.  The copy mode computes the reference: for every fault plan and every state of the generator
  the final state of the whole system is the initial one with the generator, the rest of the fault plan and the
  bytes of the file taken from \<open>copy_spec\<close>; on success one line reports the reference's count of chunks and
  bytes, and a failed call leaves its error and closes the descriptor.\<close>

theorem corrupt_copy_computes:
  assumes "opts_ok opts" and "roomy opts fs" and "fd_reg w fd i True True pos"
    and "fs = int (length (inodes w i))"
  shows "corrupt_copy opts fd fs (n_chunks opts fs) w =
    (case copy_spec opts (rand_st w) (faults w) (inodes w i) of
       Inr (x, fl, bs, b, n) \<Rightarrow> Val EXIT_OK (w\<lparr>rand_st := x, faults := fl, inodes := (inodes w)(i := bs),
         printed := printed w @ [copy_report n b]\<rparr>)
     | Inl (x, fl, bs, e) \<Rightarrow> Val EXIT_IO (snd (sys_close fd
         (w\<lparr>rand_st := x, faults := fl, inodes := (inodes w)(i := bs), errno_of := e\<rparr>))))"
proof -
  have "offs_ok fs"
    using assms(2,4) opts_okD(4) [OF assms(1)] by (simp add: offs_ok_def roomy_def)
  from wp_copy_computes [OF assms(1) this assms(2-4)] show ?thesis
    by (rule wp_totalD) (auto simp: copyx_post_def pick_bail_def copied_os_def)
qed

theorem corrupt_copy_computes_witness:
  "\<exists>w'. corrupt_copy sample_opts 0 8 4
       ((sample_os [1, 2, 3, 4, 5, 6, 7, 8] [Some (new_ofd (Reg 0) O_RDWR)])\<lparr>faults := [Short 1]\<rparr>) = Val EXIT_OK w' \<and>
     inodes w' 0 = [7, 2, 3, 4, 3, 4, 7, 8] \<and> printed w' = [''Corrupted 2 chunks (3 bytes)'']"
proof -
  let ?w = "(sample_os [1, 2, 3, 4, 5, 6, 7, 8] [Some (new_ofd (Reg 0) O_RDWR)])\<lparr>faults := [Short 1]\<rparr>"
  have fd: "fd_reg ?w 0 0 True True 0" "8 = int (length (inodes ?w 0))" "rand_st ?w = 0" "printed ?w = []"
    by (simp_all add: fd_reg_def fd_get_def new_ofd_def sample_os_def)
  have spec: "copy_spec sample_opts 0 [Short 1] [1, 2, 3, 4, 5, 6, 7, 8] =
      Inr (25979478236433, [], [7, 2, 3, 4, 3, 4, 7, 8], 3, 2)"
    by code_simp
  have "copy_report 2 3 = ''Corrupted 2 chunks (3 bytes)''" by code_simp
  with corrupt_copy_computes [OF sample_opts_ok(1,2) fd(1,2)] spec fd(3,4) show ?thesis by simp
qed

end
