(* ===== verification/CF_Program.thy ===== *)
theory CF_Program
  imports CF_Main CF_Copy_Spec
begin

text \<open>
  Whole runs of \<open>corrupt-file.c\<close>, from the command line to the file: a copy run computes its
  reference, a bitflip run is defined
  and flips what it reports for every value of the clock it seeds its generator with, and a
  snapshot run followed by a restore run brings a damaged file back.

  The first section turns a run of \<open>main\<close> with a mode option and a file name into the run of
  that mode on the open file.
\<close>

section \<open>From the command line to the mode\<close>

definition file_ptr :: "string option \<Rightarrow> cptr" where
  "file_ptr r = (case r of None \<Rightarrow> Null | Some f \<Rightarrow> Str f)"

lemma file_ptr_simps [simp]:
  "file_ptr None = Null" "file_ptr (Some f) = Str f" "file_ptr r \<noteq> Uninit" "c_free (file_ptr r) w = Val () w"
  by (simp_all add: file_ptr_def c_free_def c_val_def split: option.split)

lemma parse_arg_last:
  assumes "sys_realpath s w = (r, w1)"
  shows "argp_parse [Arg s] 0 opts w = Val (0, opts\<lparr>o_file := file_ptr r\<rparr>) w1"
  using assms by (simp add: parse_opt_def c_run file_ptr_def)

text \<open>The file the program opens is the one the command line names.\<close>

lemma realpath_same_file:
  assumes "os_sane w" and "sys_realpath s w = (Some f, w1)" and "nodes w (resolve (cwd w) f) = Some (Reg i)"
  shows "nodes w (resolve (cwd w) s) = Some (Reg i)"
proof -
  let ?p = "resolve (cwd w) s"
  have f: "f = path_string ?p" "nodes w ?p \<noteq> None"
    using assms(2) by (auto simp: sys_realpath_def Let_def split: fault.splits if_splits)
  with assms(1) have "\<forall>c \<in> set ?p. plain c" by (simp add: os_sane_def)
  then show ?thesis
    using assms(3) f resolve_path_string [of ?p "cwd w"]
    by (cases "?p = []") (auto simp: canonical_def resolve_def comps_def path_string_def)
qed

text \<open>
  A run without the clearing option whose arguments parse to the options \<open>o\<close>: it is the run of
  \<open>corrupt\<close> from the seeded generator.
\<close>

lemma main_corrupt:
  assumes "argp_parse es 0 default_opts w = Val (0, opts) w1" and "validate_opts opts = EXIT_OK"
    and "\<not> o_clear_snapshots opts" and "o_file opts = file_ptr r"
    and "wp False (corrupt clog opts) Q (\<lambda>_ _. False) (\<lambda>_ _. False) (lib_srand48 (now w1) w1)"
  obtains v w' where "main shell clog es w = Val v w'" and "Q v w'"
proof -
  obtain v w' where run: "corrupt clog opts (lib_srand48 (now w1) w1) = Val v w'" "Q v w'"
    using assms(5) by (rule wp_totalD)
  have "main shell clog es w = Val v w'"
    unfolding main_after_parse [OF assms(1,2)] using run(1) assms(3,4) by (simp add: c_run main_run_def)
  then show ?thesis using run(2) by (rule that)
qed

section \<open>A bitflip run\<close>

text \<open>
  What a run leaves: a first part of the positions in \<open>bits\<close> flipped, all of them on success, in this
  file only, and every descriptor closed.
\<close>

definition flip_run_post :: "nat list \<Rightarrow> nat \<Rightarrow> os \<Rightarrow> int \<Rightarrow> os \<Rightarrow> bool" where
  "flip_run_post bits i w v w' \<longleftrightarrow> nodes w' = nodes w \<and> fd_get (fds w') = fd_get (fds w) \<and>
     (\<forall>j. j \<noteq> i \<longrightarrow> inodes w' j = inodes w j) \<and>
     (\<exists>ps rest. bits = ps @ rest \<and> flipped ps (inodes w i) (inodes w' i) \<and>
       (v = EXIT_IO \<and> printed w' = printed w \<or>
        v = EXIT_OK \<and> rest = [] \<and> (\<exists>n. printed w' = printed w @ [flip_report n (int (length ps))])))"

text \<open>The walk depends on neither the mode nor the file.\<close>

lemma flip_walk_opts:
  "flip_walk clog (default_opts\<lparr>o_mode := m, o_probability := p, o_file := f\<rparr>) = flip_walk clog (default_opts\<lparr>o_probability := p\<rparr>)"
proof -
  have "selected (default_opts\<lparr>o_mode := m, o_probability := p, o_file := f\<rparr>) = selected (default_opts\<lparr>o_probability := p\<rparr>)"
    by (simp add: fun_eq_iff selected_def)
  then show ?thesis
    by (intro ext) (simp add: flip_walk_def chunks_from_def bit_stream_def chunk_bits_def [abs_def] chunk_start_def chunk_end_def
        n_chunks_def region_end_def)
qed

text \<open>A close between the mode and the end of the run.\<close>

lemma flip_run_close:
  assumes "flip_post clog opts fs i w1 v w2" and "sys_close fd w2 = (r, w3)"
    and "same_files w w1" and "printed w1 = printed w" and "fd_get (fds w) = (fd_get (fds w1))(fd := None)"
  shows "flip_run_post (flip_walk clog opts fs (rand_st w1)) i w v w3"
proof -
  note c = same_files_close [OF assms(2)] printed_close [OF assms(2)] fd_get_close [OF assms(2)]
  obtain ps rest where "flipped ps (inodes w1 i) (inodes w2 i)" "flip_walk clog opts fs (rand_st w1) = ps @ rest"
    "v = EXIT_IO \<and> printed w2 = printed w1 \<or>
     v = EXIT_OK \<and> rest = [] \<and> (\<exists>n. printed w2 = printed w1 @ [flip_report n (int (length ps))])"
    and "touches i w1 w2" "fds w2 = fds w1"
    using assms(1) unfolding flip_post_def by blast
  then show ?thesis
    using assms(3-5) c unfolding flip_run_post_def same_files_def touches_def by auto
qed

text \<open>
  The generator is seeded just before: a file of at most 5929 bytes has fewer bits than the
  generator takes draws to come by zero.
\<close>

lemma wp_bitflip_seeded:
  assumes lg: "log_ok clog" "exp_le clog (Fin q) (2 ^ 28)" and q: "0 < q"
    and opts: "opts = default_opts\<lparr>o_mode := MODE_BITFLIP, o_probability := Fin q, o_file := file_ptr r\<rparr>"
    and seed: "rand_st w = srand48_of t"
    and same: "\<And>f j. r = Some f \<Longrightarrow> nodes w (resolve (cwd w) f) = Some (Reg j) \<Longrightarrow> j = i"
    and small: "length (inodes w i) \<le> 5929"
  shows "wp False (corrupt clog opts) (flip_run_post (flip_walk clog opts (int (length (inodes w i))) (srand48_of t)) i w) R (\<lambda>_ _. False) w"
    (is "wp False _ ?Q _ _ _")
proof -
  have ok: "opts_ok opts" and mode: "o_mode opts \<noteq> MODE_NONE" by (simp_all add: opts default_opts_def opts_ok_def OFF_MAX_def)
  let ?fs = "int (length (inodes w i))"
  have draws: "(lcg_step ^^ Suc n) (rand_st w) \<noteq> 0" if "int n \<le> 8 * ?fs" for n
    unfolding seed using that small by (intro seeded_never_zero) linarith
  show ?thesis
  proof (rule wp_corrupt_mode [OF ok mode])
    fix w' assume "same_files w w'" "fd_get (fds w') = fd_get (fds w)" "printed w' = printed w"
    then show "?Q EXIT_IO w'"
      by (simp add: flip_run_post_def same_files_def) (rule exI [of _ "[]"], simp)
  next
    fix f j n t assume f: "o_file opts = Str f" and j: "nodes w (resolve (cwd w) f) = Some (Reg j)"
      and a: "fd_alloc (fds w) (new_ofd (Reg j) O_RDWR) = (n, t)"
    have ji: "j = i" using same f j by (cases r) (simp_all add: opts)
    note new = fdt.alloc_fresh [OF a] fdt.get_alloc [OF a]
    let ?w = "pop_fault ((pop_fault w)\<lparr>fds := t\<rparr>)"
    have "flip_safe clog opts ?fs ?w"
      unfolding flip_safe_def using small lg(2) draws by (simp add: roomy_def opts default_opts_def del: funpow.simps)
    then have env: "flip_env False clog opts (int n) ?fs i ?w"
      using ok lg q small new ji by (auto simp: flip_env_def offs_ok_def opts fd_reg_def new_ofd_def)
    show "wp False (run_mode clog opts (int n) (int (length (inodes w j))) (n_chunks opts (int (length (inodes w j)))))
        (\<lambda>v w'. \<forall>r w''. sys_close (int n) w' = (r, w'') \<longrightarrow> ?Q v w'') ?Q (\<lambda>_ _. False) ?w"
    proof -
      have "?Q v w''" if "flip_post clog opts ?fs i ?w v w'" "sys_close (int n) w' = (r, w'')" for v w' r w''
        using flip_run_close [OF that, of w] new seed by (simp add: fun_upd_idem)
      with wp_corrupt_bitflip [OF env, where R = ?Q] show ?thesis
        unfolding ji run_mode_def by (simp add: opts) (erule wp_mono_val, blast)
    qed
  qed (use same small in \<open>auto simp: opts file_ptr_def split: option.splits\<close>)
qed

section \<open>A snapshot run, then a restore run\<close>

lemma wp_corrupt_quiet:
  assumes ok: "opts_ok opts" and mode: "o_mode opts \<noteq> MODE_NONE" and quiet: "faults w = []"
    and f: "o_file opts = Str f" "f \<noteq> []" "nodes w (resolve (cwd w) f) = Some (Reg i)"
    and fs: "fs = int (length (inodes w i))" "offs_ok fs" and a: "fd_alloc (fds w) (new_ofd (Reg i) O_RDWR) = (n, t)"
    and run: "wp u (run_mode clog opts (int n) fs (n_chunks opts fs))
      (\<lambda>v w'. \<forall>r w''. sys_close (int n) w' = (r, w'') \<longrightarrow> Q v w'') Q X (w\<lparr>fds := t\<rparr>)"
  shows "wp u (corrupt clog opts) Q R X w"
proof -
  have op: "sys_open f O_RDWR w = (int n, w\<lparr>fds := t\<rparr>)"
    using quiet f a by (simp add: sys_open_def syscall_def do_open_def open_node_def Let_def)
  have "fd_get t (int n) = Some (new_ofd (Reg i) O_RDWR)" using fdt.get_alloc [OF a] by simp
  then have st: "sys_fstat (int n) (w\<lparr>fds := t\<rparr>) = ((0, fs), w\<lparr>fds := t\<rparr>)"
    using quiet fs(1) by (simp add: sys_fstat_def syscall_def do_fstat_def new_ofd_def)
  have "wp u (run_mode clog opts (int n) fs (n_chunks opts fs))
      (\<lambda>v. wp u (c_bind (c_lib (sys_close (int n))) (\<lambda>_. c_val v)) Q Q X) Q X (w\<lparr>fds := t\<rparr>)"
    using run by (rule wp_mono_val) (simp add: wp_lib split: prod.split)
  then show ?thesis
    using mode by (simp add: corrupt_def open_file_def f(1) wp_lib op corrupt_opened_def st wp_chunk_count [OF ok fs(2)])
qed

lemma close_quiet_kept:
  assumes "sys_close fd w = (r, w')" and "faults w = []"
  shows "same_files w w' \<and> faults w' = [] \<and> printed w' = printed w"
  using assms same_files_close [OF assms(1)] printed_close [OF assms(1)] by (rule_tac sys_close_quiet [OF assms(2), of fd]) auto

text \<open>On a sane file system the absolute name of a file names it.\<close>

lemma sane_file_name:
  assumes "os_sane w" and "nodes w p = Some (Reg i)"
  shows "resolve d (path_string p) = p" "path_string p \<noteq> []" "int (length (inodes w i)) \<le> 2 ^ 61"
proof -
  have "canonical p" using assms by (auto simp: os_sane_def canonical_def)
  then show "resolve d (path_string p) = p" "path_string p \<noteq> []"
    by (rule resolve_path_string) (use \<open>canonical p\<close> in \<open>auto simp: path_string_def canonical_def neq_Nil_conv\<close>)
  show "int (length (inodes w i)) \<le> 2 ^ 61" using assms(1) by (simp add: os_sane_def)
qed

text \<open>The options of a run with a mode and a file name only.\<close>

definition mode_opts :: "modes \<Rightarrow> path \<Rightarrow> opts_t" where
  "mode_opts m p = default_opts\<lparr>o_mode := m, o_file := Str (path_string p)\<rparr>"

lemma mode_opts_simps:
  "o_mode (mode_opts m p) = m" "o_file (mode_opts m p) = Str (path_string p)" "opts_ok (mode_opts m p)"
  "validate_opts (mode_opts m p) = EXIT_OK" "\<not> o_clear_snapshots (mode_opts m p)" "every_chunk (mode_opts m p) p"
  "fs \<le> 2 ^ 61 \<Longrightarrow> roomy (mode_opts m p) fs" "o_end (mode_opts m p) = LLONG_MAX"
  by (simp_all add: mode_opts_def default_opts_def opts_ok_def OFF_MAX_def validate_opts_def exit_code_defs every_chunk_def roomy_def)

text \<open>The pieces and their names do not depend on the mode.\<close>

lemma mode_opts_spec: "snapshot_spec (mode_opts m p) = snapshot_spec (mode_opts m' p)"
proof -
  have "selected (mode_opts m p) = selected (mode_opts m' p)" "n_chunks (mode_opts m p) = n_chunks (mode_opts m' p)"
    by (auto simp: fun_eq_iff mode_opts_def n_chunks_def selected_def region_end_def)
  then have "chunks_from (mode_opts m p) = chunks_from (mode_opts m' p)" by (intro ext) (simp add: chunks_from_def)
  moreover have "snap_step (mode_opts m p) = snap_step (mode_opts m' p)"
    by (auto simp: fun_eq_iff snap_step_def mode_opts_def default_opts_def piece_def chunk_limit_def region_clip_def chunk_start_def)
  ultimately show ?thesis by (intro ext) (simp add: snapshot_spec_def)
qed

lemma snap_room_self:
  assumes "snap_room p w" and "nodes w p = Some (Reg i)"
  shows "resolve d (path_string p) = p" "path_string p \<noteq> []" "snapshot_at p a b \<noteq> p" "\<not> prefix p (snap_dir p)"
proof -
  have p: "canonical p" using assms(1) by (simp add: snap_room_def)
  then show "resolve d (path_string p) = p" by (rule resolve_path_string)
  show "path_string p \<noteq> []" using p by (auto simp: path_string_def canonical_def neq_Nil_conv)
  have "length (snapshot_at p a b) \<noteq> length p"
    using p by (simp add: snapshot_at_def canonical_def comps_def split_SNAPSHOT_DIR)
  then show "snapshot_at p a b \<noteq> p" by auto
  show "\<not> prefix p (snap_dir p)" using assms by (auto simp: snap_room_def)
qed

lemma os_sane_store_ok:
  assumes "os_sane w" and "snap_room p w" and "nodes w p = Some (Reg i)"
  shows "store_ok p i w"
  using assms(1,3) snap_room_self(3) [OF assms(2,3)] unfolding store_ok_def os_sane_def by blast

lemma same_files_store:
  assumes "same_files w w'"
  shows "store_of p w' = store_of p w" "store_ok p i w' = store_ok p i w"
  using assms by (auto simp: same_files_def store_of_def store_ok_def fun_eq_iff split: option.split node.split)

text \<open>A run of either mode on a system where no call fails.\<close>

lemma wp_snapshot_run:
  assumes room: "snap_room p w" "store_ok p i w" and i: "nodes w p = Some (Reg i)" and len: "int (length (inodes w i)) \<le> 2 ^ 61"
  shows "wp False (corrupt clog (mode_opts MODE_SNAPSHOT p))
    (\<lambda>v w'. v = EXIT_OK \<and> snap_room p w' \<and> store_ok p i w' \<and> cwd w' = cwd w \<and> nodes w' p = Some (Reg i) \<and>
      inodes w' i = inodes w i \<and> (\<exists>b k. snapshot_spec (mode_opts MODE_SNAPSHOT p) (inodes w i) (store_of p w) = (store_of p w', b, k)))
    R (\<lambda>_ _. False) w" (is "wp False _ ?Q _ _ _")
proof -
  let ?o = "mode_opts MODE_SNAPSHOT p" and ?fs = "int (length (inodes w i))"
  obtain n t where a: "fd_alloc (fds w) (new_ofd (Reg i) O_RDWR) = (n, t)" by force
  let ?w = "w\<lparr>fds := t\<rparr>"
  note self = snap_room_self [OF room(1) i] and new = fdt.get_alloc [OF a]
  have fs: "offs_ok ?fs" "roomy ?o ?fs" using len by (simp_all add: offs_ok_def mode_opts_simps)
  have fd: "fd_reg ?w (int n) i True True 0" using new by (simp add: fd_reg_def new_ofd_def)
  have post: "?Q v w''" if "snapx_post ?o p i ?w v w'" "sys_close (int n) w' = (r, w'')" for v w' r w''
  proof -
    have "\<forall>a b. p \<noteq> snapshot_at p a b" using self(3) by metis
    then have q: "faults w' = []" "nodes w' p = Some (Reg i)" "i < next_ino w"
      using that(1) self(4) i room(2) by (auto simp: snapx_post_def snap_ready_def with_dirs_def store_ok_def)
    note c = close_quiet_kept [OF that(2) q(1)]
    then have "snap_ready p w'' = snap_ready p w'" "same_files w' w''" using q by (simp_all add: same_files_def snap_ready_def)
    with that(1) q c same_files_store [OF this(2)] show ?thesis by (auto simp: snapx_post_def same_files_def intro: snap_ready_room)
  qed
  show ?thesis
  proof (rule wp_corrupt_quiet [OF _ _ _ mode_opts_simps(2) self(2) _ refl fs(1) a])
    have "wp False (corrupt_snapshot ?o (int n) ?fs (n_chunks ?o ?fs)) (snapx_post ?o p i ?w) ?Q (\<lambda>_ _. False) ?w"
      using room fd by (intro wp_snapshot_quiet) (simp_all add: mode_opts_simps fs snap_room_def)
    then show "wp False (run_mode clog ?o (int n) ?fs (n_chunks ?o ?fs))
        (\<lambda>v w'. \<forall>r w''. sys_close (int n) w' = (r, w'') \<longrightarrow> ?Q v w'') ?Q (\<lambda>_ _. False) ?w"
      unfolding run_mode_def mode_opts_simps(1) modes.case by (rule wp_mono_val) (use post in blast)
  qed (use room i self in \<open>simp_all add: mode_opts_simps snap_room_def\<close>)
qed

lemma wp_restore_run:
  assumes room: "snap_room p w" "store_ok p i w" and i: "nodes w p = Some (Reg i)" and len: "int (length (inodes w i)) \<le> 2 ^ 61"
    and spec: "restore_spec (mode_opts MODE_RESTORE p) (store_of p w) (rand_st w) (inodes w i) = Inr (x, e, bs, b, k)"
  shows "wp False (corrupt clog (mode_opts MODE_RESTORE p))
    (\<lambda>v w'. v = EXIT_OK \<and> touches i w w' \<and> inodes w' i = bs) R (\<lambda>_ _. False) w" (is "wp False _ ?Q _ _ _")
proof -
  let ?o = "mode_opts MODE_RESTORE p" and ?fs = "int (length (inodes w i))"
  obtain n t where a: "fd_alloc (fds w) (new_ofd (Reg i) O_RDWR) = (n, t)" by force
  let ?w = "w\<lparr>fds := t\<rparr>"
  note self = snap_room_self [OF room(1) i] and new = fdt.get_alloc [OF a]
  have fs: "offs_ok ?fs" "roomy ?o ?fs" using len by (simp_all add: offs_ok_def mode_opts_simps)
  have fd: "fd_reg ?w (int n) i True True 0" using new by (simp add: fd_reg_def new_ofd_def)
  have post: "?Q v w''" if "restx_post ?o p i ?w v w'" "sys_close (int n) w' = (r, w'')" for v w' r w''
    using that(1) same_files_close [OF that(2)] spec by (auto simp: restx_post_def same_files_def touches_def)
  show ?thesis
  proof (rule wp_corrupt_quiet [OF _ _ _ mode_opts_simps(2) self(2) _ refl fs(1) a])
    have "wp False (corrupt_restore ?o (int n) ?fs (n_chunks ?o ?fs)) (restx_post ?o p i ?w) ?Q (\<lambda>_ _. False) ?w"
      using room fd by (intro wp_restore_quiet) (simp_all add: mode_opts_simps fs snap_room_def)
    then show "wp False (run_mode clog ?o (int n) ?fs (n_chunks ?o ?fs))
        (\<lambda>v w'. \<forall>r w''. sys_close (int n) w' = (r, w'') \<longrightarrow> ?Q v w'') ?Q (\<lambda>_ _. False) ?w"
      unfolding run_mode_def mode_opts_simps(1) modes.case by (rule wp_mono_val) (use post in blast)
  qed (use room i self in \<open>simp_all add: mode_opts_simps snap_room_def\<close>)
qed

text \<open>The command line \<open>-m mode file\<close>.\<close>

lemma main_mode_quiet:
  assumes m: "(name, m) \<in> {(''snapshot'', MODE_SNAPSHOT), (''restore'', MODE_RESTORE)}"
    and quiet: "faults w = []" and s: "s \<noteq> []" "resolve (cwd w) s = p" "nodes w p = Some (Reg i)"
    and run: "wp False (corrupt clog (mode_opts m p)) Q (\<lambda>_ _. False) (\<lambda>_ _. False) (lib_srand48 (now w) w)"
  obtains v w' where "main shell clog [Opt KEY_m name, Arg s] w = Val v w'" and "Q v w'"
proof (rule main_corrupt [of _ w "mode_opts m p" w "Some (path_string p)" clog Q shell])
  have "sys_realpath s w = (Some (path_string p), w)" using quiet s by (simp add: sys_realpath_def Let_def next_fault_def)
  then show "argp_parse [Opt KEY_m name, Arg s] 0 default_opts w = Val (0, mode_opts m p) w"
    using m by (auto simp: parse_opt_def c_run mode_opts_def)
qed (use run that in \<open>simp_all add: mode_opts_simps\<close>)

section \<open>A copy run\<close>

definition copy_run_post :: "copy_result \<Rightarrow> nat \<Rightarrow> os \<Rightarrow> int \<Rightarrow> os \<Rightarrow> bool" where
  "copy_run_post r i w v w' \<longleftrightarrow> v = EXIT_OK \<and> nodes w' = nodes w \<and> fd_get (fds w') = fd_get (fds w) \<and>
     (\<exists>x bs b n. r = Inr (x, [], bs, b, n) \<and> inodes w' = (inodes w)(i := bs) \<and> printed w' = printed w @ [copy_report n b])"

lemma wp_copy_run:
  assumes ok: "opts_ok opts" "o_mode opts = MODE_COPY" "o_chunk_size opts \<le> 2 ^ 61" and quiet: "faults w = []"
    and f: "o_file opts = Str f" "f \<noteq> []" "nodes w (resolve (cwd w) f) = Some (Reg i)" and len: "int (length (inodes w i)) \<le> 2 ^ 61"
  shows "wp False (corrupt clog opts) (copy_run_post (copy_spec opts (rand_st w) [] (inodes w i)) i w) R (\<lambda>_ _. False) w"
    (is "wp False _ ?Q _ _ _")
proof -
  let ?fs = "int (length (inodes w i))" and ?r = "copy_spec opts (rand_st w) [] (inodes w i)"
  obtain n t where a: "fd_alloc (fds w) (new_ofd (Reg i) O_RDWR) = (n, t)" by force
  let ?w = "w\<lparr>fds := t\<rparr>"
  note new = fdt.alloc_fresh [OF a] fdt.get_alloc [OF a]
  have fs: "offs_ok ?fs" "roomy opts ?fs" using len ok(3) by (simp_all add: offs_ok_def roomy_def)
  have fd: "fd_reg ?w (int n) i True True 0" using new by (simp add: fd_reg_def new_ofd_def)
  obtain x bs b k where r: "?r = Inr (x, [], bs, b, k)" by (rule copy_spec_quiet)
  have post: "?Q v w''" if "copyx_post (int n) i ?w ?r v w'" "sys_close (int n) w' = (q, w'')" for v w' q w''
  proof -
    have v: "v = EXIT_OK" and w': "w' = (copied_os i ?w x [] bs)\<lparr>printed := printed w @ [copy_report k b]\<rparr>"
      using that(1) r by (auto simp: copyx_post_def pick_bail_def)
    have "fd_get (fds w'') = fd_get (fds w)" using fd_get_close [OF that(2)] new w' by (simp add: fun_upd_idem)
    moreover have "inodes w'' = (inodes w)(i := bs)" "nodes w'' = nodes w" "printed w'' = printed w @ [copy_report k b]"
      using same_files_close [OF that(2)] printed_close [OF that(2)] w' by (simp_all add: same_files_def)
    ultimately show ?thesis using v r by (simp add: copy_run_post_def)
  qed
  show ?thesis
  proof (rule wp_corrupt_quiet [OF ok(1) _ quiet f refl fs(1) a])
    have "wp False (corrupt_copy opts (int n) ?fs (n_chunks opts ?fs)) (copyx_post (int n) i ?w ?r) ?Q (\<lambda>_ _. False) ?w"
      using wp_copy_computes [OF ok(1) fs fd, where R = ?Q] quiet by simp
    then show "wp False (run_mode clog opts (int n) ?fs (n_chunks opts ?fs))
        (\<lambda>v w'. \<forall>r w''. sys_close (int n) w' = (r, w'') \<longrightarrow> ?Q v w'') ?Q (\<lambda>_ _. False) ?w"
      unfolding run_mode_def ok(2) modes.case by (rule wp_mono_val) (use post in blast)
  qed (simp add: ok(2))
qed

section \<open>Properties\<close>

text \<open>C5: A bitflip run, from the command line, on a sane file system, for every fault plan and every
  value of the clock it seeds its generator with: when the file has at most 5929 bytes, the probability is
  at least one in a million (two to the minus twentieth), and the logarithm of no draw but zero is below minus
  thirty-four, no operation is undefined and the run ends.  It changes no other file, keeps all names and
  closes every descriptor it opened.  The bits that differ are those of the reference walk that starts from
  this clock value: all of them on success, with their number reported, and a first part of them after an I/O error.\<close>

theorem main_bitflip_defined:
  assumes "os_sane w" and "log_ok clog"
    and log: "\<forall>x. 1 / 2 ^ 48 \<le> x \<and> x < 1 \<longrightarrow> (\<exists>r. - 34 \<le> r \<and> r \<le> 0 \<and> clog (Fin x) = Fin r)"
    and q: "strtod a = Fin q" "1 / 2 ^ 20 \<le> q" "q \<le> 1"
    and i: "nodes w (resolve (cwd w) s) = Some (Reg i)" and small: "length (inodes w i) \<le> 5929"
  shows "\<exists>v w' ps rest. main shell clog [Opt KEY_m ''bitflip'', Opt KEY_p a, Arg s] w = Val v w' \<and>
    nodes w' = nodes w \<and> fd_get (fds w') = fd_get (fds w) \<and> (\<forall>j. j \<noteq> i \<longrightarrow> inodes w' j = inodes w j) \<and>
    flip_walk clog (default_opts\<lparr>o_probability := Fin q\<rparr>) (int (length (inodes w i))) (srand48_of (now w)) = ps @ rest \<and>
    flipped ps (inodes w i) (inodes w' i) \<and>
    (v = EXIT_IO \<and> printed w' = printed w \<or>
     v = EXIT_OK \<and> rest = [] \<and> (\<exists>n. printed w' = printed w @ [flip_report n (int (length ps))]))"
proof -
  obtain r w1 where rp: "sys_realpath s w = (r, w1)" by force
  let ?o = "default_opts\<lparr>o_mode := MODE_BITFLIP, o_probability := Fin q, o_file := file_ptr r\<rparr>"
  let ?w2 = "lib_srand48 (now w1) w1"
  have "0 < (1 / 2 ^ 20 :: rat)" by simp
  then have q0: "0 < q" using q(2) by linarith
  have parse: "argp_parse [Opt KEY_m ''bitflip'', Opt KEY_p a, Arg s] 0 default_opts w = Val (0, ?o) w1"
    using rp q(1) by (simp add: parse_opt_def c_run file_ptr_def)
  have val: "validate_opts ?o = EXIT_OK" using q0 q(3) by (simp add: validate_opts_def default_opts_def OFF_MAX_def exit_code_defs)
  have w2: "inodes ?w2 = inodes w" "nodes ?w2 = nodes w" "cwd ?w2 = cwd w" "fds ?w2 = fds w" "printed ?w2 = printed w"
    "now w1 = now w"
    using rp by (auto simp: lib_srand48_def sys_realpath_def Let_def pop_fault_def split: fault.splits if_splits)
  have "exp_le clog (Fin q) (2 ^ 28)" using q(2) log by (intro exp_leI) blast+
  then have "wp False (corrupt clog ?o) (flip_run_post (flip_walk clog ?o (int (length (inodes ?w2 i))) (srand48_of (now w1))) i ?w2) (\<lambda>_ _. False) (\<lambda>_ _. False) ?w2"
    using rp realpath_same_file [OF assms(1), of s] i small w2
    by (intro wp_bitflip_seeded [OF assms(2) _ q0 refl, where t = "now w1"]) (auto simp: lib_srand48_def)
  then obtain v w' where "main shell clog [Opt KEY_m ''bitflip'', Opt KEY_p a, Arg s] w = Val v w'"
      "flip_run_post (flip_walk clog ?o (int (length (inodes ?w2 i))) (srand48_of (now w1))) i ?w2 v w'"
    by (rule main_corrupt [OF parse val, where shell = shell, rotated 2]) (simp_all add: default_opts_def)
  then show ?thesis unfolding flip_run_post_def w2(1-5) flip_walk_opts unfolding w2(6) by blast
qed

theorem main_bitflip_defined_witness:
  "\<exists>v w' ps. main (\<lambda>_ w. (0, w)) sample_log [Opt KEY_m ''bitflip'', Opt KEY_p ''0.125'', Arg ''/f'']
      (sample_os [1, 2, 3, 4, 5, 6, 7, 8] []) = Val v w' \<and>
    flipped ps [1, 2, 3, 4, 5, 6, 7, 8] (inodes w' 0) \<and>
    (v = EXIT_IO \<or> v = EXIT_OK \<and> (\<exists>n. printed w' = [flip_report n (int (length ps))]))"
proof -
  let ?w = "sample_os [1, 2, 3, 4, 5, 6, 7, 8] []"
  have p: "strtod ''0.125'' = Fin (1 / 8)" by code_simp
  have log: "\<forall>x. 1 / 2 ^ 48 \<le> x \<and> x < 1 \<longrightarrow> (\<exists>r. - 34 \<le> r \<and> r \<le> 0 \<and> sample_log (Fin x) = Fin r)"
    by (auto simp: sample_log_def)
  have i: "nodes ?w (resolve (cwd ?w) ''/f'') = Some (Reg 0)" by (simp add: resolve_def comps_def)
  have pr: "printed ?w = []" by (simp add: sample_os_def)
  show ?thesis
    using main_bitflip_defined [OF sample_sane sample_log_ok log p _ _ i, of "\<lambda>_ w. (0, w)"] pr by auto
qed

text \<open>C9: A copy run, from the command line, on a sane file system where no call fails, with a chunk size of at
  most two to the sixty-first and any modulus that is not zero in 32 bits: it succeeds and leaves in the file, byte
  for byte, what the reference computes from the value of the clock that seeds the generator; it reports
  the reference's counts, keeps all other files, all names and all descriptors.\<close>

theorem main_copy_computes:
  assumes "os_sane w" and "faults w = []" and "s \<noteq> []" and "nodes w (resolve (cwd w) s) = Some (Reg i)"
    and "0 < strtoll a" and "strtoll a \<le> 2 ^ 61" and "(word_of_int (strtoll m) :: 32 word) \<noteq> 0"
  shows "\<exists>w' x bs b n. main shell clog [Opt KEY_m ''copy'', Opt KEY_c a, Opt OPT_MODULUS m, Arg s] w = Val EXIT_OK w' \<and>
    copy_spec (default_opts\<lparr>o_chunk_size := strtoll a, o_mod := word_of_int (strtoll m)\<rparr>) (srand48_of (now w)) [] (inodes w i) =
      Inr (x, [], bs, b, n) \<and>
    inodes w' = (inodes w)(i := bs) \<and> nodes w' = nodes w \<and> fd_get (fds w') = fd_get (fds w) \<and>
    printed w' = printed w @ [copy_report n b]"
proof -
  let ?p = "resolve (cwd w) s" and ?w = "lib_srand48 (now w) w"
  let ?s = "default_opts\<lparr>o_chunk_size := strtoll a, o_mod := word_of_int (strtoll m)\<rparr>"
  let ?o = "?s\<lparr>o_mode := MODE_COPY, o_file := file_ptr (Some (path_string ?p))\<rparr>"
  note nm = sane_file_name [OF assms(1,4)]
  have ok: "validate_opts ?o = EXIT_OK" "opts_ok ?o"
    using assms(5-7) by (simp_all add: validate_opts_def default_opts_def OFF_MAX_def exit_code_defs opts_ok_def word_neq_0_conv word_less_def)
  have "sys_realpath s w = (Some (path_string ?p), w)" using assms(2-4) by (simp add: sys_realpath_def Let_def)
  then have parse: "argp_parse [Opt KEY_m ''copy'', Opt KEY_c a, Opt OPT_MODULUS m, Arg s] 0 default_opts w = Val (0, ?o) w"
    by (simp add: parse_opt_def c_run default_opts_def)
  have w: "faults ?w = []" "rand_st ?w = srand48_of (now w)" "inodes ?w = inodes w" "nodes ?w = nodes w" "cwd ?w = cwd w"
    "fds ?w = fds w" "printed ?w = printed w"
    using assms(2) by (simp_all add: lib_srand48_def)
  have "wp False (corrupt clog ?o) (copy_run_post (copy_spec ?o (rand_st ?w) [] (inodes ?w i)) i ?w) (\<lambda>_ _. False) (\<lambda>_ _. False) ?w"
    using assms nm ok(2) w by (intro wp_copy_run [where f = "path_string ?p"]) simp_all
  then show ?thesis unfolding copy_spec_opts
    by (rule main_corrupt [OF parse ok(1), where shell = shell and r = "Some (path_string ?p)", rotated 2])
      (auto simp: default_opts_def copy_run_post_def w)
qed

theorem main_copy_computes_witness:
  "\<exists>w'. main (\<lambda>_ w. (0, w)) sample_log [Opt KEY_m ''copy'', Opt KEY_c ''2'', Opt OPT_MODULUS ''2'', Arg ''/f'']
      (sample_os [1, 2, 3, 4, 5, 6, 7, 8] []) = Val EXIT_OK w' \<and>
    inodes w' 0 = [3, 4, 3, 4, 3, 4, 7, 8] \<and> printed w' = [''Corrupted 2 chunks (4 bytes)'']"
proof -
  let ?w = "sample_os [1, 2, 3, 4, 5, 6, 7, 8] []"
  have two: "strtoll ''2'' = 2" and rep: "copy_report 2 4 = ''Corrupted 2 chunks (4 bytes)''" by code_simp+
  have w: "nodes ?w (resolve (cwd ?w) ''/f'') = Some (Reg 0)" "now ?w = 1" "printed ?w = []"
    by (simp_all add: resolve_def comps_def sample_os_def)
  have spec: "copy_spec (default_opts\<lparr>o_chunk_size := 2, o_mod := 2\<rparr>) (srand48_of 1) [] [1, 2, 3, 4, 5, 6, 7, 8] =
      Inr (94571660010226, [], [3, 4, 3, 4, 3, 4, 7, 8], 4, 2)"
    by code_simp
  show ?thesis
    using main_copy_computes [OF sample_sane sample_os_simps(3) _ w(1), of "''2''" "''2''" "\<lambda>_ w. (0, w)" sample_log] spec rep w(2,3)
    by (auto simp: two)
qed

text \<open>C8: Round trip of the program on the command lines \<open>-m snapshot FILE\<close> and \<open>-m restore FILE\<close>, that is with the
  default region, chunk size, index, modulus and probability.  On a sane file system where no call fails, with at most
  directories in the way of the snapshot directory and no directory in the place of a snapshot: the run that takes the
  snapshot succeeds and keeps the file; after any
  damage to this file alone that keeps its length, whatever the clocks of the two runs, the run that
  restores succeeds and brings back every byte of the file; all other files and all names are as the
  snapshot run left them.\<close>

theorem main_snapshot_restore:
  assumes "os_sane w" and "faults w = []" and "s \<noteq> []" and "nodes w (resolve (cwd w) s) = Some (Reg i)"
    and "snap_room (resolve (cwd w) s) w"
  shows "\<exists>w1. main shell clog [Opt KEY_m ''snapshot'', Arg s] w = Val EXIT_OK w1 \<and> inodes w1 i = inodes w i \<and>
    (\<forall>w2. touches i w1 w2 \<and> faults w2 = [] \<and> length (inodes w2 i) = length (inodes w i) \<longrightarrow>
      (\<exists>w3. main shell clog [Opt KEY_m ''restore'', Arg s] w2 = Val EXIT_OK w3 \<and> inodes w3 = inodes w1 \<and> nodes w3 = nodes w1))"
proof -
  let ?p = "resolve (cwd w) s" and ?S = "mode_opts MODE_SNAPSHOT (resolve (cwd w) s)" and ?w = "lib_srand48 (now w) w"
  have len: "int (length (inodes w i)) \<le> 2 ^ 61" using assms(1) by (simp add: os_sane_def)
  have own: "store_ok ?p i w" using os_sane_store_ok [OF assms(1,5,4)] .
  have seed: "snap_room ?p ?w" "store_ok ?p i ?w" "inodes ?w = inodes w" "nodes ?w = nodes w" "cwd ?w = cwd w" "store_of ?p ?w = store_of ?p w"
    using assms(5) own by (simp_all add: lib_srand48_def snap_room_def)
  obtain v w1 where w1: "main shell clog [Opt KEY_m ''snapshot'', Arg s] w = Val v w1" "v = EXIT_OK"
    and post: "snap_room ?p w1" "store_ok ?p i w1" "cwd w1 = cwd w" "nodes w1 ?p = Some (Reg i)" "inodes w1 i = inodes w i"
    and snap: "\<exists>b k. snapshot_spec ?S (inodes w i) (store_of ?p w) = (store_of ?p w1, b, k)"
    by (rule main_mode_quiet [OF _ assms(2,3) refl assms(4) wp_snapshot_run [OF seed(1,2)], where shell = shell and name = "''snapshot''" and clog = clog])
      (use assms(4) len seed in auto)
  have "\<exists>w3. main shell clog [Opt KEY_m ''restore'', Arg s] w2 = Val EXIT_OK w3 \<and> inodes w3 = inodes w1 \<and> nodes w3 = nodes w1"
    if w2: "touches i w1 w2" "faults w2 = []" "length (inodes w2 i) = length (inodes w i)" for w2
  proof -
    let ?R = "mode_opts MODE_RESTORE ?p" and ?w2 = "lib_srand48 (now w2) w2"
    note t = w2(1) [unfolded touches_def]
    have p2: "resolve (cwd w2) s = ?p" "nodes w2 ?p = Some (Reg i)" using t post by simp_all
    have room2: "snap_room ?p ?w2" "store_ok ?p i ?w2" "nodes ?w2 ?p = Some (Reg i)" "int (length (inodes ?w2 i)) \<le> 2 ^ 61"
      "store_of ?p ?w2 = store_of ?p w1" "inodes ?w2 = inodes w2" "nodes ?w2 = nodes w2" "cwd ?w2 = cwd w2"
      using post t w2 len p2 touches_store [OF w2(1) post(2)] by (auto simp: lib_srand48_def snap_room_def)
    obtain b k where sR: "snapshot_spec ?R (inodes w i) (store_of ?p w) = (store_of ?p w1, b, k)"
      using snap mode_opts_spec by metis
    have off: "offs_ok (int (length (inodes w i)))" using len by (simp add: offs_ok_def)
    obtain x e b' k' where spec: "restore_spec ?R (store_of ?p ?w2) (rand_st ?w2) (inodes ?w2 i) =
        Inr (x, e, take (nat (o_end ?R)) (inodes w i) @ drop (nat (o_end ?R)) (inodes w2 i), b', k')"
      using restore_spec_every [OF mode_opts_simps(3) off mode_opts_simps(6) sR w2(3)] unfolding room2 by blast
    have whole: "take (nat (o_end ?R)) (inodes w i) @ drop (nat (o_end ?R)) (inodes w2 i) = inodes w i"
      using len w2(3) by (simp add: mode_opts_simps)
    obtain v w3 where w3: "main shell clog [Opt KEY_m ''restore'', Arg s] w2 = Val v w3" "v = EXIT_OK" "touches i ?w2 w3" "inodes w3 i = inodes w i"
      by (rule main_mode_quiet [OF _ w2(2) assms(3) p2 wp_restore_run [OF room2(1-4) spec], where shell = shell and name = "''restore''" and clog = clog])
        (auto simp: whole)
    have "inodes w3 j = inodes w1 j" for j using w3(3,4) t room2(6) post(5) by (cases "j = i") (simp_all add: touches_def)
    moreover have "nodes w3 = nodes w1" using w3(3) t room2(7) by (simp add: touches_def)
    ultimately show ?thesis using w3(1,2) by auto
  qed
  with w1 post(5) show ?thesis by auto
qed

theorem main_snapshot_restore_witness:
  "\<exists>w1 w3. main (\<lambda>_ w. (0, w)) sample_log [Opt KEY_m ''snapshot'', Arg ''/f''] (sample_os [1, 2, 3] []) = Val EXIT_OK w1 \<and>
     main (\<lambda>_ w. (0, w)) sample_log [Opt KEY_m ''restore'', Arg ''/f''] (w1\<lparr>inodes := (inodes w1)(0 := [0, 0, 0]), faults := []\<rparr>) = Val EXIT_OK w3 \<and>
     inodes w3 0 = [1, 2, 3]"
proof -
  let ?w = "sample_os [1, 2, 3] []" and ?main = "main (\<lambda>_ w. (0, w)) sample_log"
  have f: "resolve (cwd ?w) ''/f'' = [''f'']" by (simp add: resolve_def comps_def)
  have sane: "os_sane ?w" by (rule sample_sane) simp
  obtain w1 where w1: "?main [Opt KEY_m ''snapshot'', Arg ''/f''] ?w = Val EXIT_OK w1" "inodes w1 0 = inodes ?w 0"
    and rest: "\<And>w2. touches 0 w1 w2 \<and> faults w2 = [] \<and> length (inodes w2 0) = length (inodes ?w 0) \<Longrightarrow>
      \<exists>w3. ?main [Opt KEY_m ''restore'', Arg ''/f''] w2 = Val EXIT_OK w3 \<and> inodes w3 = inodes w1 \<and> nodes w3 = nodes w1"
    using main_snapshot_restore [OF sane sample_os_simps(3), of "''/f''" 0 "\<lambda>_ w. (0, w)" sample_log] sample_snap_room(1) f by auto
  have "touches 0 w1 (w1\<lparr>inodes := (inodes w1)(0 := [0, 0, 0]), faults := []\<rparr>)" by (simp add: touches_def)
  with rest [of "w1\<lparr>inodes := (inodes w1)(0 := [0, 0, 0]), faults := []\<rparr>"] w1 show ?thesis by auto
qed

end
