(* ===== verification/CF_Confined.thy ===== *)
theory CF_Confined
  imports CF_Main
begin

text \<open>
  What a run of \<open>corrupt-file.c\<close> can touch, whatever the command line says and whatever the system
  calls return: the files its operands name, and the snapshot directory.  The lemmas follow the
  name of the file from the operand through \<open>realpath\<close> to the mode that opens it, and
  \<open>main_confined\<close> states the frame of the whole program.
\<close>

section \<open>The operands\<close>

text \<open>The file names argp delivers to the parser.\<close>

definition operand :: "argp_event list \<Rightarrow> string \<Rightarrow> bool" where
  "operand es a \<longleftrightarrow> Arg a \<in> set es \<or> Opt ARGP_KEY_ARG a \<in> set es"

text \<open>A file pointer that is a string holds the absolute name of an operand.\<close>

definition named :: "argp_event list \<Rightarrow> os \<Rightarrow> opts_t \<Rightarrow> bool" where
  "named es w opts \<longleftrightarrow> (\<forall>f. o_file opts = Str f \<longrightarrow>
     (\<exists>a. operand es a \<and> nodes w (resolve (cwd w) a) \<noteq> None \<and> f = path_string (resolve (cwd w) a)))"

definition same_os :: "os \<Rightarrow> os \<Rightarrow> bool" where
  "same_os w w' \<longleftrightarrow> same_files w w' \<and> fds w' = fds w"

lemma same_os_trans: "same_os w w' \<Longrightarrow> same_os w' w'' \<Longrightarrow> same_os w w''"
  by (simp add: same_os_def same_files_def)

lemma realpath_named:
  assumes "sys_realpath a w = (r, w')"
  shows "same_os w w'" "r = Some f \<Longrightarrow> nodes w (resolve (cwd w) a) \<noteq> None \<and> f = path_string (resolve (cwd w) a)"
  using assms by (auto simp: sys_realpath_def same_os_def Let_def split: fault.splits if_splits)

text \<open>Parsing, from a state where the pointer is as it should be to another.\<close>

definition parsed_named :: "argp_event list \<Rightarrow> os \<Rightarrow> int \<times> opts_t \<Rightarrow> os \<Rightarrow> bool" where
  "parsed_named es w r w' \<longleftrightarrow> named es w (snd r) \<and> same_os w w'"

lemma parse_opt_named:
  assumes "named all w opts" and "same_os w w1" and "k = ARGP_KEY_ARG \<Longrightarrow> operand all a"
  shows "wp True (parse_opt k a n opts) (parsed_named all w) R (\<lambda>_. same_os w) w1"
proof (cases "k = ARGP_KEY_ARG")
  case True
  have same: "nodes w1 = nodes w" "cwd w1 = cwd w" using assms(2) by (simp_all add: same_os_def same_files_def)
  show ?thesis
    using True assms realpath_named [of a w1] same_os_trans [OF assms(2)]
    by (auto simp: parse_opt_def parsed_named_def named_def wp_lib same split: prod.splits option.splits)
next
  case False
  then show ?thesis
    using assms by (cases k) (auto simp: parse_opt_def parsed_named_def named_def)
qed

lemma wp_parse_named:
  assumes "named all w opts" and "same_os w w1" and "\<And>a. operand es a \<Longrightarrow> operand all a"
  shows "wp True (argp_parse es n opts) (parsed_named all w) R (\<lambda>_. same_os w) w1"
  using assms
proof (induction es n opts arbitrary: w1 rule: argp_parse.induct)
  case (1 n opts)
  then show ?case using parse_opt_named [of all w opts w1 ARGP_KEY_END] by simp
next
  case (2 k a es n opts)
  have k: "k = ARGP_KEY_ARG \<Longrightarrow> operand all a" "\<And>b. operand es b \<Longrightarrow> operand all b"
    using "2.prems"(3) by (auto simp: operand_def)
  show ?case
    unfolding argp_parse.simps wp_bind
    by (rule wp_mono_val [OF parse_opt_named [OF "2.prems"(1,2) k(1)]]) (auto simp: parsed_named_def intro!: "2.IH" [where x = 0] k(2))
next
  case (3 a es n opts)
  have k: "operand all a" "\<And>b. operand es b \<Longrightarrow> operand all b"
    using "3.prems"(3) by (auto simp: operand_def)
  show ?case
    unfolding argp_parse.simps wp_bind
    by (rule wp_mono_val [OF parse_opt_named [OF "3.prems"(1,2) k(1)]]) (auto simp: parsed_named_def intro!: "3.IH" [where x = 0] k(2))
qed

section \<open>The frame\<close>

text \<open>
  Outside the snapshot directory no name goes away or changes, a new one is a directory, and a file
  that no operand names keeps its bytes.
\<close>

definition snap_root :: path where
  "snap_root = comps SNAPSHOT_DIR"

definition confined :: "argp_event list \<Rightarrow> os \<Rightarrow> os \<Rightarrow> bool" where
  "confined es w w' \<longleftrightarrow>
     (\<forall>p. \<not> prefix snap_root p \<longrightarrow> nodes w' p = nodes w p \<or> nodes w p = None \<and> nodes w' p = Some Dir) \<and>
     (\<forall>p j. nodes w p = Some (Reg j) \<and> \<not> prefix snap_root p \<and> (\<forall>a. operand es a \<longrightarrow> resolve (cwd w) a \<noteq> p) \<longrightarrow>
        inodes w' j = inodes w j)"

lemma confined_same: "nodes w' = nodes w \<Longrightarrow> inodes w' = inodes w \<Longrightarrow> confined es w w'"
  by (simp add: confined_def)

text \<open>What \<open>rm -rf\<close> of the snapshot directory does, whether or not it succeeds: it removes names in it.\<close>

definition rm_only :: "(string \<Rightarrow> os \<Rightarrow> int \<times> os) \<Rightarrow> bool" where
  "rm_only shell \<longleftrightarrow> (\<forall>w r w'. shell CLEAR_COMMAND w = (r, w') \<longrightarrow>
     inodes w' = inodes w \<and> next_ino w' = next_ino w \<and> cwd w' = cwd w \<and> fds w' = fds w \<and>
     (\<forall>p. nodes w' p = nodes w p \<or> prefix snap_root p \<and> nodes w' p = None))"

lemma snap_root_not_Nil: "\<not> prefix snap_root []"
  by (simp add: snap_root_def comps_def split_SNAPSHOT_DIR)

lemma rm_only_sane:
  assumes "rm_only shell" and "os_sane w" and "shell CLEAR_COMMAND w = (r, w')"
  shows "os_sane w'"
proof -
  have same: "inodes w' = inodes w" "next_ino w' = next_ino w" and nd: "\<And>p. nodes w' p = nodes w p \<or> prefix snap_root p \<and> nodes w' p = None"
    using assms(1,3) by (auto simp: rm_only_def)
  have "nodes w' [] = nodes w []" using nd [of "[]"] snap_root_not_Nil by blast
  moreover have "nodes w' p = Some x \<Longrightarrow> nodes w p = Some x" for p x using nd [of p] by auto
  ultimately show ?thesis using assms(2) unfolding os_sane_def same by (metis not_Some_eq)
qed

lemma rm_only_ok: "rm_only shell \<Longrightarrow> shell_ok shell"
  unfolding shell_ok_def using rm_only_sane by (metis prod.collapse)

text \<open>The name of a file that exists, after \<open>realpath\<close>.\<close>

lemma sane_resolve:
  assumes "os_sane w" and "nodes w p \<noteq> None"
  shows "resolve d (path_string p) = p"
proof (cases "p = []")
  case True
  then show ?thesis by (simp add: path_string_def resolve_def comps_def)
next
  case False
  with assms have "canonical p" by (simp add: os_sane_def canonical_def)
  then show ?thesis by (rule resolve_path_string)
qed

text \<open>A mode on the file \<open>p\<close>: files outside the snapshot directory are neither \<open>p\<close> nor a snapshot.\<close>

lemma mode_effect_confined:
  assumes sane: "os_sane w" and eff: "mode_effect opts i w w'" and f: "o_file opts = Str (path_string p)"
    and p: "nodes w p = Some (Reg i)" and a: "operand es a" "resolve (cwd w) a = p"
  shows "confined es w w'"
proof -
  have links: "nodes w q = Some (Reg j) \<Longrightarrow> nodes w q' = Some (Reg j) \<Longrightarrow> q = q'" for q q' j
    using sane unfolding os_sane_def by blast
  show ?thesis
  proof (cases "o_mode opts = MODE_SNAPSHOT")
    case True
    then have se: "snap_effect (path_string p) w w'" using eff f by (simp add: mode_effect_def Let_def)
    have c: "canonical p" "length (path_string p) \<le> 4017" using sane p by (auto simp: os_sane_def canonical_def)
    have name: "prefix snap_root q" if "snap_name (path_string p) w q" for q
      using that snapshot_path_plain [OF c] by (auto simp: snap_name_def resolve_plain snapshot_at_def snap_root_def)
    have "snap_env (path_string p) j w" if "nodes w q = Some (Reg j)" "\<not> prefix snap_root q" for q j
    proof -
      have "j < next_ino w" using sane that(1) unfolding os_sane_def by blast
      with that(2) name links [OF that(1)] show ?thesis unfolding snap_env_def by metis
    qed
    with se name show ?thesis unfolding confined_def snap_effect_def by metis
  next
    case False
    then have "nodes w' = nodes w \<and> (\<forall>j. j \<noteq> i \<longrightarrow> inodes w' j = inodes w j)"
      using eff by (auto simp: mode_effect_def touches_def Let_def split: modes.splits)
    then show ?thesis using links [OF p] a unfolding confined_def by metis
  qed
qed

text \<open>The run of \<open>corrupt\<close>, from a state that differs from the first by what the shell removed.\<close>

definition cleared :: "os \<Rightarrow> os \<Rightarrow> bool" where
  "cleared w w2 \<longleftrightarrow> inodes w2 = inodes w \<and> cwd w2 = cwd w \<and> fds w2 = fds w \<and>
     (\<forall>p. nodes w2 p = nodes w p \<or> prefix snap_root p \<and> nodes w2 p = None)"

lemma corrupt_confined_run:
  assumes sane: "os_sane w" "os_sane w2" and nm: "named es w opts" and cl: "cleared w w2" and post: "corrupt_post opts w2 v w'"
  shows "confined es w w'" "fd_get (fds w') = fd_get (fds w)"
proof -
  have c: "inodes w2 = inodes w" "cwd w2 = cwd w" "fds w2 = fds w"
    and nd: "\<And>p. nodes w2 p = nodes w p \<or> prefix snap_root p \<and> nodes w2 p = None" using cl by (auto simp: cleared_def)
  show "fd_get (fds w') = fd_get (fds w)" using post c by (simp add: corrupt_post_def)
  have "confined es w2 w'"
  proof (cases "same_files w2 w'")
    case True
    then show ?thesis by (auto simp: same_files_def intro: confined_same)
  next
    case False
    then obtain f i where f: "o_file opts = Str f" "nodes w2 (resolve (cwd w2) f) = Some (Reg i)" "mode_effect opts i w2 w'"
      using post by (auto simp: corrupt_post_def split: if_splits)
    obtain a where a: "operand es a" "nodes w (resolve (cwd w) a) \<noteq> None" "f = path_string (resolve (cwd w) a)"
      using nm f(1) by (auto simp: named_def)
    have "resolve (cwd w2) f = resolve (cwd w) a" using sane_resolve [OF sane(1) a(2)] a(3) by simp
    with mode_effect_confined [OF sane(2) f(3), of "resolve (cwd w) a" es a] f a c show ?thesis by simp
  qed
  then show "confined es w w'"
    using nd c unfolding confined_def by metis
qed

section \<open>Properties\<close>

text \<open>C6: The frame of the whole program: on every command line, for every fault plan and every value of the
  clock, on a sane file system and with a shell that only removes names in the snapshot directory.  When
  the program returns, names outside the snapshot directory are as before except for directories that were
  missing; every file outside of it that no operand of the command line names keeps its bytes; and the
  open descriptors are those from before.  When the argument parser leaves the process, nothing has changed.\<close>

theorem main_confined:
  assumes "os_sane w" and "log_ok clog" and "rm_only shell"
  shows "case main shell clog es w of
      Val v w' \<Rightarrow> confined es w w' \<and> fd_get (fds w') = fd_get (fds w)
    | Exit n w' \<Rightarrow> nodes w' = nodes w \<and> inodes w' = inodes w \<and> fds w' = fds w
    | Undef r \<Rightarrow> \<not> defined_args es
    | _ \<Rightarrow> False"
proof -
  let ?A = "\<lambda>opts w1. named es w opts \<and> same_os w w1" and ?Q = "\<lambda>(v :: int) w'. confined es w w' \<and> fd_get (fds w') = fd_get (fds w)"
  have "named es w default_opts" "same_os w w" by (simp_all add: named_def default_opts_def same_os_def)
  note start = wp_parse_named [OF this, of es]
  have parse: "wp True (argp_parse es 0 default_opts) (\<lambda>(e, opts). ?A opts) (\<lambda>_. same_os w) (\<lambda>_. same_os w) w"
    by (rule wp_mono_val [OF start]) (auto simp: parsed_named_def)
  have "wp (\<not> defined_args es) (main shell clog es) ?Q (\<lambda>_ _. False) (\<lambda>n w'. n = EX_USAGE \<and> same_os w w') w"
  proof (rule wp_main_cases [OF assms(1,2) rm_only_ok [OF assms(3)] parse])
    fix opts w1 x w3 assume A: "?A opts w1"
    then show "confined es w w1 \<and> fd_get (fds w1) = fd_get (fds w)"
      by (simp add: same_os_def same_files_def confined_same)
    let ?w2 = "lib_srand48 (now w1) w1"
    have same: "cleared w ?w2" using A by (simp add: lib_srand48_def cleared_def same_os_def same_files_def)
    have rm: "cleared w w3" if "shell CLEAR_COMMAND ?w2 = (x, w3)" for x w3
      using assms(3) that same unfolding rm_only_def cleared_def by metis
    then show "confined es w w3 \<and> fd_get (fds w3) = fd_get (fds w)" if "shell CLEAR_COMMAND ?w2 = (x, w3)"
      using that unfolding confined_def cleared_def by metis
    fix w2 v w' assume "w2 \<in> {?w2, snd (shell CLEAR_COMMAND ?w2)}" "os_sane w2" "corrupt_post opts w2 v w'"
    moreover from this(1) have "cleared w w2" using same rm by (cases "shell CLEAR_COMMAND ?w2") auto
    ultimately show "confined es w w' \<and> fd_get (fds w') = fd_get (fds w)"
      using corrupt_confined_run [OF assms(1)] A by blast
  qed
  then show ?thesis
    by (cases "main shell clog es w") (simp_all add: wp_def same_os_def same_files_def)
qed

theorem main_confined_witness:
  "case main (\<lambda>_ w. (0, w)) sample_log [Opt KEY_m ''copy'', Opt KEY_c ''2'', Arg ''/f'']
      ((sample_os [1, 2, 3, 4] [])\<lparr>nodes := [[] \<mapsto> Dir, [''g''] \<mapsto> Reg 1, [''f''] \<mapsto> Reg 0],
         inodes := (\<lambda>_. [])(0 := [1, 2, 3, 4], 1 := [5]), next_ino := 2\<rparr>) of
     Val v w' \<Rightarrow> inodes w' 1 = [5] \<and> nodes w' [''g''] = Some (Reg 1)
   | Exit n w' \<Rightarrow> inodes w' 1 = [5] | _ \<Rightarrow> False"
proof -
  let ?w = "(sample_os [1, 2, 3, 4] [])\<lparr>nodes := [[] \<mapsto> Dir, [''g''] \<mapsto> Reg 1, [''f''] \<mapsto> Reg 0],
      inodes := (\<lambda>_. [])(0 := [1, 2, 3, 4], 1 := [5]), next_ino := 2\<rparr>"
  let ?es = "[Opt KEY_m ''copy'', Opt KEY_c ''2'', Arg ''/f'']"
  have sane: "os_sane ?w" by (auto simp: os_sane_def plain_def path_string_def split: if_splits)
  have rm: "rm_only (\<lambda>_ w. (0, w))" by (simp add: rm_only_def)
  have "strtoll ''2'' = 2" by code_simp
  then have args: "defined_args ?es" by (auto simp: defined_args_def)
  have other: "\<not> prefix snap_root [''g'']" "\<forall>a. operand ?es a \<longrightarrow> resolve (cwd ?w) a \<noteq> [''g'']"
    by (simp_all add: snap_root_def comps_def split_SNAPSHOT_DIR operand_def resolve_def)
  have g: "nodes ?w [''g''] = Some (Reg 1)" "inodes ?w 1 = [5]" by simp_all
  have keep: "inodes w' 1 = [5] \<and> nodes w' [''g''] = Some (Reg 1)" if "confined ?es ?w w'" for w'
    using that other g unfolding confined_def by (metis option.distinct(1))
  have gone: "inodes w' = inodes ?w \<Longrightarrow> inodes w' 1 = [5]" for w' by simp
  show ?thesis
    using main_confined [OF sane sample_log_ok rm, of ?es] args keep gone
    by (cases "main (\<lambda>_ w. (0, w)) sample_log ?es ?w") simp_all
qed

end
