(* ===== verification/Clock_OS.thy ===== *)
theory Clock_OS
  imports C_Strings
begin

text \<open>
  The clocks under the time tools (\<open>bump-time.c\<close>, \<open>strobe-time.c\<close>, \<open>bumptime.c\<close>,
  \<open>adjtime.c\<close>), as far as the programs can see them: the monotonic clock, how far the wall
  clock is ahead of it (both in nanoseconds), the time zone, a pending gradual adjustment and
  what was printed.  Setting the wall clock changes the difference; the monotonic clock only
  moves forward.

  What the system decides is a plan with one entry per system call: how much time passes
  before the call takes effect, and whether it fails.  Past the end of the plan calls are
  immediate and do not fail.  Theorems that do not mention the plan hold for every plan.
\<close>

section \<open>Time structures\<close>

record timespec =
  tv_sec :: int
  tv_nsec :: int

record timeval =
  tvu_sec :: int
  tv_usec :: int

type_synonym timezone = "int \<times> int"

definition ts_nanos :: "timespec \<Rightarrow> int" where
  "ts_nanos t = tv_sec t * 1000000000 + tv_nsec t"

definition ts_of :: "int \<Rightarrow> timespec" where
  "ts_of x = \<lparr>tv_sec = x div 1000000000, tv_nsec = x mod 1000000000\<rparr>"

lemma ts_nanos_of [simp]: "ts_nanos (ts_of x) = x"
  by (simp add: ts_nanos_def ts_of_def)

lemma ts_of_fields [simp]: "tv_sec (ts_of x) = x div 1000000000" "tv_nsec (ts_of x) = x mod 1000000000"
  by (simp_all add: ts_of_def)

text \<open>Timespecs are ordered by seconds, then nanoseconds.  On normal forms this is the order of times.\<close>

instantiation timespec_ext :: (linorder) linorder
begin

definition less_timespec_ext :: "'a timespec_ext \<Rightarrow> 'a timespec_ext \<Rightarrow> bool" where
  "a < b \<longleftrightarrow> tv_sec a < tv_sec b \<or> tv_sec a = tv_sec b \<and>
     (tv_nsec a < tv_nsec b \<or> tv_nsec a = tv_nsec b \<and> timespec.more a < timespec.more b)"

definition less_eq_timespec_ext :: "'a timespec_ext \<Rightarrow> 'a timespec_ext \<Rightarrow> bool" where
  "a \<le> (b :: 'a timespec_ext) \<longleftrightarrow> a < b \<or> a = b"

instance
  by standard (auto simp: less_timespec_ext_def less_eq_timespec_ext_def intro: timespec.equality)

end

lemma ts_of_less_iff [simp]: "ts_of x < ts_of y \<longleftrightarrow> x < y"
proof -
  have imp: "a < b" if "ts_of a < ts_of b" for a b
  proof (rule ccontr)
    assume "\<not> a < b"
    then have "b div 1000000000 \<le> a div 1000000000" by (simp add: zdiv_mono1)
    with that have "b div 1000000000 = a div 1000000000" "a mod 1000000000 < b mod 1000000000"
      by (auto simp: less_timespec_ext_def)
    then show False using \<open>\<not> a < b\<close> div_mult_mod_eq [of a 1000000000] div_mult_mod_eq [of b 1000000000] by linarith
  qed
  have "ts_of x \<noteq> ts_of y" if "x < y" using that by (metis ts_nanos_of less_irrefl)
  with imp [of x y] imp [of y x] show ?thesis by (metis less_linear less_asym)
qed

definition tv_nanos :: "timeval \<Rightarrow> int" where
  "tv_nanos t = tvu_sec t * 1000000000 + tv_usec t * 1000"

definition tv_of :: "int \<Rightarrow> timeval" where
  "tv_of x = \<lparr>tvu_sec = x div 1000000000, tv_usec = x mod 1000000000 div 1000\<rparr>"

lemma tv_of_micros: "tv_of x = \<lparr>tvu_sec = x div 1000 div 1000000, tv_usec = x div 1000 mod 1000000\<rparr>"
  using zmod_zmult2_eq [of 1000000 x 1000] zdiv_zmult2_eq [of 1000000 x 1000] by (simp add: tv_of_def)

lemma tv_nanos_micros: "tv_nanos \<lparr>tvu_sec = t div 1000000, tv_usec = t mod 1000000\<rparr> = t * 1000"
proof -
  have "t = t div 1000000 * 1000000 + t mod 1000000" by simp
  then show ?thesis unfolding tv_nanos_def timeval.select_convs by linarith
qed

section \<open>The clocks\<close>

record clk =
  mono :: int
  skew :: int
  tz :: timezone
  slew :: "timeval option"
  plan :: "(nat \<times> bool) list"
  clk_out :: "string list"

abbreviation wall :: "clk \<Rightarrow> int" where
  "wall w \<equiv> mono w + skew w"

definition clock_call :: "'a \<Rightarrow> (clk \<Rightarrow> (int \<times> 'a) \<times> clk) \<Rightarrow> clk \<Rightarrow> (int \<times> 'a) \<times> clk" where
  "clock_call a op w = (case plan w of
     [] \<Rightarrow> op w
   | (d, bad) # p \<Rightarrow>
       let w' = w\<lparr>mono := mono w + int d, plan := p\<rparr> in
       if bad then ((-1, a), w') else op w')"

definition sys_gettime_mono :: "clk \<Rightarrow> (int \<times> timespec option) \<times> clk" where
  "sys_gettime_mono = clock_call None (\<lambda>w. ((0, Some (ts_of (mono w))), w))"

definition sys_gettime_real :: "clk \<Rightarrow> (int \<times> timespec option) \<times> clk" where
  "sys_gettime_real = clock_call None (\<lambda>w. ((0, Some (ts_of (wall w))), w))"

text \<open>
  The kernel refuses to set the wall clock to a time that is not normalised, before the
  epoch, behind the monotonic clock, or within thirty years of the end of its range.
\<close>

definition valid_time :: "clk \<Rightarrow> int \<Rightarrow> bool" where
  "valid_time w x \<longleftrightarrow> 0 \<le> x \<and> mono w \<le> x \<and> x div 1000000000 < 8277292036"

definition sys_settime :: "timespec \<Rightarrow> clk \<Rightarrow> (int \<times> unit) \<times> clk" where
  "sys_settime t = clock_call () (\<lambda>w.
     if 0 \<le> tv_nsec t \<and> tv_nsec t < 1000000000 \<and> valid_time w (ts_nanos t)
     then ((0, ()), w\<lparr>skew := ts_nanos t - mono w\<rparr>) else ((-1, ()), w))"

definition sys_gettimeofday :: "clk \<Rightarrow> (int \<times> (timeval \<times> timezone) option) \<times> clk" where
  "sys_gettimeofday = clock_call None (\<lambda>w. ((0, Some (tv_of (wall w), tz w)), w))"

definition sys_settimeofday :: "timeval \<Rightarrow> timezone \<Rightarrow> clk \<Rightarrow> (int \<times> unit) \<times> clk" where
  "sys_settimeofday t z = clock_call () (\<lambda>w.
     if 0 \<le> tv_usec t \<and> tv_usec t < 1000000 \<and> valid_time w (tv_nanos t)
     then ((0, ()), w\<lparr>skew := tv_nanos t - mono w, tz := z\<rparr>) else ((-1, ()), w))"

text \<open>Sleeping takes at least the requested time on the monotonic clock.\<close>

definition sys_nanosleep :: "timespec \<Rightarrow> clk \<Rightarrow> (int \<times> unit) \<times> clk" where
  "sys_nanosleep t = clock_call () (\<lambda>w.
     if 0 \<le> tv_sec t \<and> 0 \<le> tv_nsec t \<and> tv_nsec t < 1000000000
     then ((0, ()), w\<lparr>mono := mono w + ts_nanos t\<rparr>) else ((-1, ()), w))"

definition sys_adjtime :: "timeval \<Rightarrow> clk \<Rightarrow> (int \<times> unit) \<times> clk" where
  "sys_adjtime t = clock_call () (\<lambda>w. ((0, ()), w\<lparr>slew := Some t\<rparr>))"

definition clk_puts :: "string \<Rightarrow> clk \<Rightarrow> clk" where
  "clk_puts s w = w\<lparr>clk_out := clk_out w @ [s]\<rparr>"

text \<open>A conversion \<open>%d\<close> reads an \<open>int\<close>: the low half of a 64-bit argument.\<close>

definition low_int :: "int \<Rightarrow> int" where
  "low_int x = sint (word_of_int x :: 32 word)"

lemma low_int_small: "- (2 ^ 31) \<le> x \<Longrightarrow> x < 2 ^ 31 \<Longrightarrow> low_int x = x"
  by (simp add: low_int_def signed_take_bit_int_eq_self_iff sint_sbintrunc')

text \<open>Clocks on which the theorems are exercised.\<close>

definition sample_clk :: clk where
  "sample_clk = \<lparr>mono = 5000000000, skew = 1700000000000000123, tz = (0, 0), slew = None, plan = [], clk_out = []\<rparr>"

section \<open>Exact arithmetic on time structures\<close>

text \<open>Enough room for the sums of the tools: the fields stay far from the ends of their type.\<close>

definition ts_small :: "timespec \<Rightarrow> bool" where
  "ts_small t \<longleftrightarrow> \<bar>tv_sec t\<bar> \<le> 2 ^ 60 \<and> \<bar>tv_nsec t\<bar> \<le> 2 ^ 60"

lemma ts_small_of: "\<bar>x\<bar> \<le> 2 ^ 88 \<Longrightarrow> ts_small (ts_of x)"
proof -
  assume x: "\<bar>x\<bar> \<le> 2 ^ 88"
  have m: "0 \<le> x mod 1000000000" "x mod 1000000000 < 1000000000" by simp_all
  then have "\<bar>x div 1000000000\<bar> \<le> 2 ^ 60"
    using x div_mult_mod_eq [of x 1000000000] by (simp add: abs_le_iff) linarith
  with m show ?thesis by (simp add: ts_small_def)
qed

text \<open>
  The carrying loops of the tools, for a number of subunits per second.  They bring a pair of
  seconds and subunits of any sign into normal form, without changing the time it stands for.
\<close>

definition borrow :: "int \<Rightarrow> int \<times> int \<Rightarrow> ('w, int \<times> int) prog" where
  "borrow per = c_while (\<lambda>(s, n). n \<le> per)
     (\<lambda>(s, n). c_bind (s64 (s - 1)) (\<lambda>s'. c_bind (s64 (n + per)) (\<lambda>n'. c_val (s', n'))))"

definition carry :: "int \<Rightarrow> int \<times> int \<Rightarrow> ('w, int \<times> int) prog" where
  "carry per = c_while (\<lambda>(s, n). per \<le> n)
     (\<lambda>(s, n). c_bind (s64 (s + 1)) (\<lambda>s'. c_bind (s64 (n - per)) (\<lambda>n'. c_val (s', n'))))"

definition rebalance :: "int \<Rightarrow> int \<times> int \<Rightarrow> ('w, int \<times> int) prog" where
  "rebalance per x = c_bind (borrow per x) (carry per)"

locale subunit =
  fixes per :: int
  assumes per_range: "0 < per" "per \<le> 2 ^ 32"
begin

lemma wp_borrow:
  assumes "\<bar>s\<bar> \<le> 2 ^ 61" and "\<bar>n\<bar> \<le> 2 ^ 61"
    and post: "\<And>s' n'. s' * per + n' = s * per + n \<Longrightarrow> per < n' \<Longrightarrow> n' \<le> max n (2 * per) \<Longrightarrow>
      s' \<le> s \<Longrightarrow> s - s' \<le> n' - n \<Longrightarrow> Q (s', n') w"
  shows "wp u (borrow per (s, n)) Q R X w"
  unfolding borrow_def
proof (rule wp_while [where I = "\<lambda>(s', n') w'. w' = w \<and> s' * per + n' = s * per + n \<and>
        n \<le> n' \<and> n' \<le> max n (2 * per) \<and> s' \<le> s \<and> s - s' \<le> n' - n" and
      m = "\<lambda>(s', n') w'. nat (2 * per + 1 - n')"])
  fix x w'
  assume "(case x of (s', n') \<Rightarrow> \<lambda>w'. w' = w \<and> s' * per + n' = s * per + n \<and>
        n \<le> n' \<and> n' \<le> max n (2 * per) \<and> s' \<le> s \<and> s - s' \<le> n' - n) w'"
    and "case x of (s, n) \<Rightarrow> n \<le> per"
  then obtain s' n' where x: "x = (s', n')" "w' = w" "s' * per + n' = s * per + n"
      "n \<le> n'" "n' \<le> max n (2 * per)" "s' \<le> s" "s - s' \<le> n' - n" "n' \<le> per"
    by auto
  have "in_s64 (s' - 1)" "in_s64 (n' + per)"
    using assms(1,2) per_range x(4-8) by (auto simp: in_s64_def)
  moreover have "(s' - 1) * per + (n' + per) = s * per + n"
    using x(3) by (simp add: algebra_simps)
  moreover have "n \<le> n' + per \<and> n' + per \<le> max n (2 * per) \<and> s' - 1 \<le> s \<and> s - (s' - 1) \<le> n' + per - n \<and>
      nat (2 * per + 1 - (n' + per)) < nat (2 * per + 1 - n')"
    using x(4-8) per_range by auto
  ultimately show "wp u (case x of (s, n) \<Rightarrow> c_bind (s64 (s - 1)) (\<lambda>s'. c_bind (s64 (n + per)) (\<lambda>n'. c_val (s', n'))))
      (\<lambda>y w''. (case y of (s', n') \<Rightarrow> \<lambda>w'. w' = w \<and> s' * per + n' = s * per + n \<and>
        n \<le> n' \<and> n' \<le> max n (2 * per) \<and> s' \<le> s \<and> s - s' \<le> n' - n) w'' \<and>
        (case y of (s', n') \<Rightarrow> \<lambda>w'. nat (2 * per + 1 - n')) w'' < (case x of (s', n') \<Rightarrow> \<lambda>w'. nat (2 * per + 1 - n')) w')
      R X w'"
    unfolding x(1,2) by (simp only: prod.case wp_bind wp_s64 wp_val if_True simp_thms)
qed (use post in auto)

lemma wp_carry:
  assumes "- (2 ^ 63) \<le> s" "s \<le> 2 ^ 61" and "per \<le> n" and "n \<le> 2 ^ 61"
    and post: "Q ((s * per + n) div per, (s * per + n) mod per) w"
  shows "wp u (carry per (s, n)) Q R X w"
  unfolding carry_def
proof (rule wp_while [where I = "\<lambda>(s', n') w'. w' = w \<and> s' * per + n' = s * per + n \<and>
        0 \<le> n' \<and> n' \<le> n \<and> s \<le> s' \<and> s' - s \<le> n - n'" and m = "\<lambda>(s', n') w'. nat n'"])
  fix x w'
  assume "(case x of (s', n') \<Rightarrow> \<lambda>w'. w' = w \<and> s' * per + n' = s * per + n \<and>
        0 \<le> n' \<and> n' \<le> n \<and> s \<le> s' \<and> s' - s \<le> n - n') w'"
    and "case x of (s, n) \<Rightarrow> per \<le> n"
  then obtain s' n' where x: "x = (s', n')" "w' = w" "s' * per + n' = s * per + n"
      "n' \<le> n" "s \<le> s'" "s' - s \<le> n - n'" "per \<le> n'"
    by auto
  have "in_s64 (s' + 1)" "in_s64 (n' - per)"
    using assms(1-4) per_range x(4-7) by (auto simp: in_s64_def)
  moreover have "(s' + 1) * per + (n' - per) = s * per + n"
    using x(3) by (simp add: algebra_simps)
  moreover have "0 \<le> n' - per \<and> n' - per \<le> n \<and> s \<le> s' + 1 \<and> s' + 1 - s \<le> n - (n' - per) \<and>
      nat (n' - per) < nat n'"
    using x(4-7) per_range by auto
  ultimately show "wp u (case x of (s, n) \<Rightarrow> c_bind (s64 (s + 1)) (\<lambda>s'. c_bind (s64 (n - per)) (\<lambda>n'. c_val (s', n'))))
      (\<lambda>y w''. (case y of (s', n') \<Rightarrow> \<lambda>w'. w' = w \<and> s' * per + n' = s * per + n \<and>
        0 \<le> n' \<and> n' \<le> n \<and> s \<le> s' \<and> s' - s \<le> n - n') w'' \<and>
        (case y of (s', n') \<Rightarrow> \<lambda>w'. nat n') w'' < (case x of (s', n') \<Rightarrow> \<lambda>w'. nat n') w')
      R X w'"
    unfolding x(1,2) by (simp only: prod.case wp_bind wp_s64 wp_val if_True simp_thms)
next
  fix x w'
  assume "(case x of (s', n') \<Rightarrow> \<lambda>w'. w' = w \<and> s' * per + n' = s * per + n \<and>
        0 \<le> n' \<and> n' \<le> n \<and> s \<le> s' \<and> s' - s \<le> n - n') w'"
    and "\<not> (case x of (s, n) \<Rightarrow> per \<le> n)"
  then obtain s' n' where x: "x = (s', n')" "w' = w" "s * per + n = s' * per + n'" "0 \<le> n'" "n' < per"
    by (cases x) (simp add: not_le)
  then have "(s * per + n) div per = s'" "(s * per + n) mod per = n'"
    using per_range by (simp_all add: div_pos_pos_trivial mod_pos_pos_trivial)
  then show "Q x w'"
    using post x(1,2) by simp
qed (use assms per_range in auto)

text \<open>The two loops together compute the quotient and the remainder, rounded down.\<close>

lemma wp_rebalance:
  assumes "\<bar>s\<bar> \<le> 2 ^ 61" and "\<bar>n\<bar> \<le> 2 ^ 61"
  shows "wp u (rebalance per (s, n)) Q R X w =
    Q ((s * per + n) div per, (s * per + n) mod per) w"
proof -
  let ?r = "((s * per + n) div per, (s * per + n) mod per)"
  have run: "wp u (rebalance per (s, n)) Q R X w" if "Q ?r w" for u Q R X
    unfolding rebalance_def wp_bind
  proof (rule wp_borrow [OF assms])
    fix s' n'
    assume a: "s' * per + n' = s * per + n" "per < n'" "n' \<le> max n (2 * per)" "s' \<le> s" "s - s' \<le> n' - n"
    have "- (2 ^ 63) \<le> s'" "s' \<le> 2 ^ 61" "n' \<le> 2 ^ 61"
      using a(2-) assms per_range by (auto simp: max_def split: if_splits)
    then show "wp u (carry per (s', n')) Q R X w"
      using a that by (intro wp_carry) auto
  qed
  have "wp False (rebalance per (s, n)) (\<lambda>x w'. x = ?r \<and> w' = w) (\<lambda>_ _. False) (\<lambda>_ _. False) w"
    by (rule run) simp
  then have "rebalance per (s, n) w = Val ?r w" by (auto elim: wp_totalD)
  then show ?thesis by (simp add: wp_def)
qed

end

interpretation nanos: subunit 1000000000 by unfold_locales simp_all
interpretation micros: subunit 1000000 by unfold_locales simp_all

end
