(* ===== verification/Strobe_Time.thy ===== *)
theory Strobe_Time
  imports Clock_OS
begin

text \<open>
  \<open>strobe-time.c\<close>: timespec arithmetic, the clock accessors, and the program that flips the
  wall clock between its normal offset and an offset that is \<open>delta\<close> milliseconds away.

  The lemmas show that the arithmetic on timespecs is exact and leaves normal forms, that
  the comparator orders backwards, that the program ends when the period is positive, how
  often it strobes, and that it leaves the wall clock where it was, up to the time that
  passes between reading one clock and reading or setting the other.
\<close>

section \<open>Timespec arithmetic\<close>

definition NANOS_PER_SEC :: int where
  "NANOS_PER_SEC = 1000000000"

definition nanos_to_timespec :: "int \<Rightarrow> ('w, timespec) prog" where
  "nanos_to_timespec nanos =
     c_bind (s64_mod nanos NANOS_PER_SEC) (\<lambda>dnanos.
     c_bind (s64 (nanos - dnanos)) (\<lambda>d.
     c_bind (s64_div d NANOS_PER_SEC) (\<lambda>dseconds.
     c_val \<lparr>tv_sec = dseconds, tv_nsec = dnanos\<rparr>)))"

definition balance_timespec_m :: "timespec \<Rightarrow> ('w, timespec) prog" where
  "balance_timespec_m t =
     c_bind (rebalance NANOS_PER_SEC (tv_sec t, tv_nsec t)) (\<lambda>(s, n).
     c_val \<lparr>tv_sec = s, tv_nsec = n\<rparr>)"

definition add_timespec :: "timespec \<Rightarrow> timespec \<Rightarrow> ('w, timespec) prog" where
  "add_timespec a b =
     c_bind (s64 (tv_sec a + tv_sec b)) (\<lambda>s.
     c_bind (s64 (tv_nsec a + tv_nsec b)) (\<lambda>n.
     balance_timespec_m \<lparr>tv_sec = s, tv_nsec = n\<rparr>))"

definition sub_timespec :: "timespec \<Rightarrow> timespec \<Rightarrow> ('w, timespec) prog" where
  "sub_timespec a b =
     c_bind (s64 (tv_sec a - tv_sec b)) (\<lambda>s.
     c_bind (s64 (tv_nsec a - tv_nsec b)) (\<lambda>n.
     balance_timespec_m \<lparr>tv_sec = s, tv_nsec = n\<rparr>))"

definition cmp_timespec :: "timespec \<Rightarrow> timespec \<Rightarrow> int" where
  "cmp_timespec a b =
     (if tv_sec a < tv_sec b then 1
      else if tv_sec b < tv_sec a then -1
      else if tv_nsec a < tv_nsec b then 1
      else if tv_nsec b < tv_nsec a then -1
      else 0)"

section \<open>Clock access\<close>

text \<open>A failed read of the monotonic clock goes unnoticed; the structure stays uninitialised.\<close>

definition monotonic_now :: "(clk, timespec) prog" where
  "monotonic_now =
     c_bind (c_lib sys_gettime_mono) (\<lambda>(_, t).
       case t of None \<Rightarrow> c_undef UninitRead | Some t \<Rightarrow> c_val t)"

definition wall_now :: "(clk, timespec) prog" where
  "wall_now =
     c_bind (c_lib sys_gettime_real) (\<lambda>(r, t).
       if r \<noteq> 0 then c_exit 1
       else case t of None \<Rightarrow> c_undef UninitRead | Some t \<Rightarrow> c_val t)"

definition set_wall_clock :: "timespec \<Rightarrow> (clk, unit) prog" where
  "set_wall_clock ts =
     c_bind (c_lib (sys_settime ts)) (\<lambda>(r, _). if r \<noteq> 0 then c_exit 2 else c_val ())"

section \<open>The program\<close>

text \<open>
  \<open>argv\<close> ends with a null pointer; converting it, or reading past it, is undefined.
  The product with the scale is converted from \<open>double\<close> to a 64-bit integer.
\<close>

definition arg_nanos :: "string list \<Rightarrow> nat \<Rightarrow> int \<Rightarrow> ('w, int) prog" where
  "arg_nanos argv i scale =
     (if i < length argv then d_to_s64 (d_mul (atof (argv ! i)) (Fin (of_int scale)))
      else c_undef NullDeref)"

text \<open>
  C does not fix which of the two arguments of \<open>sub_timespec\<close> is evaluated first.  The
  experimental variant of the program differs in how it reads and sets the wall clock, so the
  shared parts take these two functions as arguments.
\<close>

definition current_offset :: "(clk, timespec) prog \<Rightarrow> bool \<Rightarrow> (clk, timespec) prog" where
  "current_offset get_wall wall_first =
     (if wall_first then c_bind get_wall (\<lambda>a. c_bind monotonic_now (\<lambda>b. sub_timespec a b))
      else c_bind monotonic_now (\<lambda>b. c_bind get_wall (\<lambda>a. sub_timespec a b)))"

definition strobing :: "timespec \<Rightarrow> (clk, bool) prog" where
  "strobing end_ts = c_bind monotonic_now (\<lambda>t. c_val (0 < cmp_timespec t end_ts))"

definition strobe_step :: "(timespec \<Rightarrow> (clk, unit) prog) \<Rightarrow> timespec \<Rightarrow> timespec \<Rightarrow> timespec \<Rightarrow> timespec
    \<Rightarrow> bool \<times> bool \<times> int \<Rightarrow> (clk, bool \<times> bool \<times> int) prog" where
  "strobe_step set_wall normal_offset weird_offset period end_ts = (\<lambda>(_, weird, count).
     c_bind monotonic_now (\<lambda>t.
     c_bind (add_timespec t (if weird then normal_offset else weird_offset)) (\<lambda>ts.
     c_bind (set_wall ts) (\<lambda>_.
     c_bind (s64 (count + 1)) (\<lambda>count'.
     c_bind (c_lib (sys_nanosleep period)) (\<lambda>(r, _).
     if r \<noteq> 0 then c_exit 3
     else c_bind (strobing end_ts) (\<lambda>go. c_val (go, \<not> weird, count'))))))))"

definition strobe_until :: "(timespec \<Rightarrow> (clk, unit) prog) \<Rightarrow> timespec \<Rightarrow> timespec \<Rightarrow> timespec \<Rightarrow> timespec
    \<Rightarrow> (clk, int) prog" where
  "strobe_until set_wall normal_offset weird_offset period end_ts =
     c_bind (strobing end_ts) (\<lambda>go.
     c_bind (c_while (\<lambda>(go, _). go) (strobe_step set_wall normal_offset weird_offset period end_ts) (go, False, 0))
       (\<lambda>(_, _, count). c_val count))"

definition strobe_reset :: "(timespec \<Rightarrow> (clk, unit) prog) \<Rightarrow> timespec \<Rightarrow> int \<Rightarrow> (clk, int) prog" where
  "strobe_reset set_wall normal_offset count =
     c_bind monotonic_now (\<lambda>t.
     c_bind (add_timespec t normal_offset) (\<lambda>ts.
     c_bind (set_wall ts) (\<lambda>_.
     c_bind (c_modify (clk_puts (show_int (low_int count)))) (\<lambda>_.
     c_val 0))))"

definition strobe_for :: "(timespec \<Rightarrow> (clk, unit) prog) \<Rightarrow> timespec \<Rightarrow> timespec \<Rightarrow> timespec \<Rightarrow> timespec
    \<Rightarrow> (clk, int) prog" where
  "strobe_for set_wall normal_offset weird_offset period duration =
     c_bind monotonic_now (\<lambda>t.
     c_bind (add_timespec t duration) (\<lambda>end_ts.
     c_bind (strobe_until set_wall normal_offset weird_offset period end_ts) (\<lambda>count.
     strobe_reset set_wall normal_offset count)))"

definition strobe_clock :: "bool \<Rightarrow> timespec \<Rightarrow> timespec \<Rightarrow> timespec \<Rightarrow> (clk, int) prog" where
  "strobe_clock wall_first delta period duration =
     c_bind (current_offset wall_now wall_first) (\<lambda>normal_offset.
     c_bind (add_timespec normal_offset delta) (\<lambda>weird_offset.
     strobe_for set_wall_clock normal_offset weird_offset period duration))"

definition strobe_main :: "bool \<Rightarrow> string list \<Rightarrow> (clk, int) prog" where
  "strobe_main wall_first argv =
     c_call
      (if length argv < 2 then c_return 1
       else
         c_bind (arg_nanos argv 1 1000000) (\<lambda>a. c_bind (nanos_to_timespec a) (\<lambda>delta.
         c_bind (arg_nanos argv 2 1000000) (\<lambda>b. c_bind (nanos_to_timespec b) (\<lambda>period.
         c_bind (arg_nanos argv 3 1000000000) (\<lambda>c. c_bind (nanos_to_timespec c) (\<lambda>duration.
         strobe_clock wall_first delta period duration)))))))"

section \<open>The arithmetic is exact\<close>

lemma wp_balance:
  assumes "\<bar>tv_sec t\<bar> \<le> 2 ^ 61" and "\<bar>tv_nsec t\<bar> \<le> 2 ^ 61"
  shows "wp u (balance_timespec_m t) Q R X w = Q (ts_of (ts_nanos t)) w"
  unfolding balance_timespec_m_def NANOS_PER_SEC_def wp_bind nanos.wp_rebalance [OF assms]
  by (simp add: ts_of_def ts_nanos_def)

lemma wp_add:
  assumes "ts_small a" and "ts_small b"
  shows "wp u (add_timespec a b) Q R X w = Q (ts_of (ts_nanos a + ts_nanos b)) w"
proof -
  have "\<bar>tv_sec a + tv_sec b\<bar> \<le> 2 ^ 61" "\<bar>tv_nsec a + tv_nsec b\<bar> \<le> 2 ^ 61"
    using assms by (auto simp: ts_small_def)
  moreover from this have "in_s64 (tv_sec a + tv_sec b)" "in_s64 (tv_nsec a + tv_nsec b)"
    by (auto simp: in_s64_def)
  ultimately show ?thesis
    by (simp add: add_timespec_def wp_balance) (simp add: ts_nanos_def algebra_simps)
qed

lemma wp_sub:
  assumes "ts_small a" and "ts_small b"
  shows "wp u (sub_timespec a b) Q R X w = Q (ts_of (ts_nanos a - ts_nanos b)) w"
proof -
  have "\<bar>tv_sec a - tv_sec b\<bar> \<le> 2 ^ 61" "\<bar>tv_nsec a - tv_nsec b\<bar> \<le> 2 ^ 61"
    using assms by (auto simp: ts_small_def)
  moreover from this have "in_s64 (tv_sec a - tv_sec b)" "in_s64 (tv_nsec a - tv_nsec b)"
    by (auto simp: in_s64_def)
  ultimately show ?thesis
    by (simp add: sub_timespec_def wp_balance) (simp add: ts_nanos_def algebra_simps)
qed

text \<open>C division truncates: for a negative number both fields are negative or zero.\<close>

definition ts_trunc :: "int \<Rightarrow> timespec" where
  "ts_trunc x = \<lparr>tv_sec = x sdiv 1000000000, tv_nsec = x smod 1000000000\<rparr>"

lemma ts_nanos_trunc [simp]: "ts_nanos (ts_trunc x) = x"
  using sdiv_mult_smod_eq [of x 1000000000] by (simp add: ts_trunc_def ts_nanos_def)

lemma ts_trunc_nonneg: "0 \<le> x \<Longrightarrow> ts_trunc x = ts_of x"
  by (simp add: ts_trunc_def ts_of_def sdiv_nonneg_int smod_nonneg_int)

lemma smod_bounds:
  "0 \<le> (x::int) \<Longrightarrow> 0 \<le> x smod 1000000000 \<and> x smod 1000000000 \<le> x \<and> x smod 1000000000 < 1000000000"
  "(x::int) \<le> 0 \<Longrightarrow> x smod 1000000000 \<le> 0 \<and> x \<le> x smod 1000000000 \<and> - 1000000000 < x smod 1000000000"
proof -
  show "0 \<le> x smod 1000000000 \<and> x smod 1000000000 \<le> x \<and> x smod 1000000000 < 1000000000" if "0 \<le> x"
    using that zmod_le_nonneg_dividend [OF that] by (simp add: smod_nonneg_int)
  assume "x \<le> 0"
  then have "x smod 1000000000 = - (- x mod 1000000000)"
    by (cases "x = 0") (simp_all add: signed_modulo_int_def sgn_if)
  then show "x smod 1000000000 \<le> 0 \<and> x \<le> x smod 1000000000 \<and> - 1000000000 < x smod 1000000000"
    using \<open>x \<le> 0\<close> zmod_le_nonneg_dividend [of "- x" 1000000000] by simp
qed

lemma mult_sdiv_cancel: "(q * 1000000000) sdiv 1000000000 = (q::int)"
  by (auto simp: signed_divide_int_def sgn_if abs_mult)

lemma sdiv_bounds: "\<bar>(x::int) sdiv 1000000000\<bar> \<le> \<bar>x\<bar>"
  using div_le_self_int [of "\<bar>x\<bar>" 1000000000]
  by (simp add: signed_divide_int_def abs_mult abs_sgn_eq pos_imp_zdiv_nonneg_iff)

lemma in_s64_trunc:
  assumes "in_s64 x"
  shows "in_s64 (x sdiv 1000000000)" "in_s64 (x smod 1000000000)" "in_s64 (x - x smod 1000000000)"
proof -
  show "in_s64 (x smod 1000000000)" "in_s64 (x - x smod 1000000000)"
    using assms smod_bounds [of x] by (cases "0 \<le> x"; auto simp: in_s64_def)+
  have "in_s64 (x sdiv 1000000000)" if "x \<noteq> LLONG_MIN"
    using assms that sdiv_bounds [of x] by (auto simp: in_s64_def abs_le_iff)
  then show "in_s64 (x sdiv 1000000000)"
    by (cases "x = LLONG_MIN") (auto simp: in_s64_def signed_divide_int_def)
qed

lemma wp_nanos_to_timespec:
  assumes "in_s64 x"
  shows "wp u (nanos_to_timespec x) Q R X w = Q (ts_trunc x) w"
  using in_s64_trunc [OF assms]
  by (simp add: nanos_to_timespec_def NANOS_PER_SEC_def s64_mod_def s64_div_def ts_trunc_def
      minus_smod_eq_sdiv_mult mult_sdiv_cancel)

lemma ts_small_trunc: "\<bar>x\<bar> \<le> 2 ^ 60 \<Longrightarrow> ts_small (ts_trunc x)"
  using smod_bounds [of x] sdiv_bounds [of x]
  by (cases "0 \<le> x") (auto simp: ts_small_def ts_trunc_def abs_le_iff)

text \<open>The comparator decides the order of timespecs, with the earlier one in front giving one.\<close>

lemma cmp_timespec_order: "cmp_timespec a b = (if a < b then 1 else if b < a then -1 else 0)"
  by (auto simp: cmp_timespec_def less_timespec_ext_def)

lemma cmp_ts_of: "cmp_timespec (ts_of x) (ts_of y) = (if x < y then 1 else if y < x then -1 else 0)"
  by (simp add: cmp_timespec_order)

section \<open>Arguments\<close>

lemma wp_arg_nanos:
  assumes "i < length argv" "argv ! i = show_int d" and "\<bar>d\<bar> < 2 ^ 53" and "\<bar>d * scale\<bar> < 2 ^ 53"
  shows "wp u (arg_nanos argv i scale) Q R X w = Q (d * scale) w"
proof -
  have "d_mul (atof (show_int d)) (Fin (of_int scale)) = Fin (of_int (d * scale))"
    using atof_show_int [OF assms(3)] rnd_of_int [OF assms(4)] by simp
  moreover have "d_trunc (of_int (d * scale)) = d * scale" by (simp only: d_trunc_def floor_of_int ceiling_of_int if_cancel)
  moreover have "in_s64 (d * scale)" using assms(4) by (auto simp: in_s64_def)
  ultimately show ?thesis using assms(1,2) by (simp add: arg_nanos_def d_to_s64_def)
qed

definition strobe_args :: "string \<Rightarrow> int \<Rightarrow> int \<Rightarrow> int \<Rightarrow> string list" where
  "strobe_args prog delta_ms period_ms duration_s =
     [prog, show_int delta_ms, show_int period_ms, show_int duration_s]"

definition strobe_range :: "int \<Rightarrow> int \<Rightarrow> int \<Rightarrow> bool" where
  "strobe_range d p s \<longleftrightarrow> \<bar>d\<bar> \<le> 10 ^ 9 \<and> 0 < p \<and> p \<le> 10 ^ 9 \<and> 0 \<le> s \<and> s \<le> 10 ^ 6"

text \<open>What both programs make of their arguments.\<close>

lemma strobe_args_wp:
  assumes "strobe_range d p s"
  shows "\<not> length (strobe_args prog d p s) < 2"
    and "wp u (arg_nanos (strobe_args prog d p s) 1 1000000) Q R X w = Q (d * 1000000) w"
    and "wp u (arg_nanos (strobe_args prog d p s) 2 1000000) Q R X w = Q (p * 1000000) w"
    and "wp u (arg_nanos (strobe_args prog d p s) 3 1000000000) Q R X w = Q (s * 1000000000) w"
    and "wp u (nanos_to_timespec (d * 1000000)) Q' R X w = Q' (ts_trunc (d * 1000000)) w"
    and "wp u (nanos_to_timespec (p * 1000000)) Q' R X w = Q' (ts_of (p * 1000000)) w"
    and "wp u (nanos_to_timespec (s * 1000000000)) Q' R X w = Q' (ts_of (s * 1000000000)) w"
proof -
  have r: "\<bar>d * 1000000\<bar> < 2 ^ 53" "\<bar>p * 1000000\<bar> < 2 ^ 53" "\<bar>s * 1000000000\<bar> < 2 ^ 53"
    "\<bar>d\<bar> < 2 ^ 53" "\<bar>p\<bar> < 2 ^ 53" "\<bar>s\<bar> < 2 ^ 53" "0 \<le> p * 1000000" "0 \<le> s * 1000000000"
    using assms by (auto simp: strobe_range_def)
  then have i: "in_s64 (d * 1000000)" "in_s64 (p * 1000000)" "in_s64 (s * 1000000000)"
    by (auto simp: in_s64_def)
  let ?a = "strobe_args prog d p s"
  have n: "1 < length ?a" "2 < length ?a" "3 < length ?a" "?a ! 1 = show_int d" "?a ! 2 = show_int p" "?a ! 3 = show_int s"
    by (simp_all add: strobe_args_def)
  show "\<not> length ?a < 2" by (simp add: strobe_args_def)
  show "wp u (arg_nanos ?a 1 1000000) Q R X w = Q (d * 1000000) w" by (rule wp_arg_nanos [OF n(1,4) r(4,1)])
  show "wp u (arg_nanos ?a 2 1000000) Q R X w = Q (p * 1000000) w" by (rule wp_arg_nanos [OF n(2,5) r(5,2)])
  show "wp u (arg_nanos ?a 3 1000000000) Q R X w = Q (s * 1000000000) w" by (rule wp_arg_nanos [OF n(3,6) r(6,3)])
  show "wp u (nanos_to_timespec (d * 1000000)) Q' R X w = Q' (ts_trunc (d * 1000000)) w"
    by (rule wp_nanos_to_timespec [OF i(1)])
  show "wp u (nanos_to_timespec (p * 1000000)) Q' R X w = Q' (ts_of (p * 1000000)) w"
    using wp_nanos_to_timespec [OF i(2)] ts_trunc_nonneg [OF r(7)] by simp
  show "wp u (nanos_to_timespec (s * 1000000000)) Q' R X w = Q' (ts_of (s * 1000000000)) w"
    using wp_nanos_to_timespec [OF i(3)] ts_trunc_nonneg [OF r(8)] by simp
qed

lemma wp_strobe_main:
  assumes "strobe_range d p s"
  shows "wp u (strobe_main first (strobe_args prog d p s)) Q R X w =
    wp u (strobe_clock first (ts_trunc (d * 1000000)) (ts_of (p * 1000000)) (ts_of (s * 1000000000))) Q Q X w"
  unfolding strobe_main_def wp_call wp_if if_not_P [OF strobe_args_wp(1) [OF assms]] wp_bind strobe_args_wp [OF assms]
  by (rule refl)

section \<open>What a system call changes\<close>

definition lag :: "clk \<Rightarrow> int" where
  "lag w = int (sum_list (map fst (plan w)))"

text \<open>No call waits longer than \<open>L\<close>, and none fails unless \<open>u\<close>.\<close>

definition lags_le :: "bool \<Rightarrow> int \<Rightarrow> clk \<Rightarrow> bool" where
  "lags_le u L w \<longleftrightarrow> 0 \<le> L \<and> (\<forall>e \<in> set (plan w). int (fst e) \<le> L \<and> (u \<or> \<not> snd e))"

text \<open>Before a call takes effect some time passes, at most \<open>L\<close>.\<close>

definition passes :: "int \<Rightarrow> clk \<Rightarrow> clk \<Rightarrow> bool" where
  "passes L w w' \<longleftrightarrow> mono w \<le> mono w' \<and> mono w' \<le> mono w + L \<and> mono w' + lag w' = mono w + lag w \<and>
     set (plan w') \<subseteq> set (plan w) \<and> skew w' = skew w \<and> tz w' = tz w \<and> slew w' = slew w \<and> clk_out w' = clk_out w"

lemma passes_frame: "passes L w w' \<Longrightarrow> skew w' = skew w \<and> clk_out w' = clk_out w"
  by (simp add: passes_def)

lemma lags_le_passes: "passes L w w' \<Longrightarrow> lags_le u L w \<Longrightarrow> lags_le u L w'"
  by (auto simp: passes_def lags_le_def)

lemma lags_le_updates [simp]:
  "lags_le u L (w\<lparr>skew := x\<rparr>) = lags_le u L w" "lags_le u L (w\<lparr>mono := y\<rparr>) = lags_le u L w"
  "lag (w\<lparr>skew := x\<rparr>) = lag w" "lag (w\<lparr>mono := y\<rparr>) = lag w"
  by (simp_all add: lags_le_def lag_def)

lemma lag_nonneg: "0 \<le> lag w"
  by (simp add: lag_def)

lemma clock_call_cases:
  assumes "lags_le u L w"
  obtains (bad) w' where "clock_call a op w = ((-1, a), w')" "passes L w w'" u
  | (ran) w' where "clock_call a op w = op w'" "passes L w w'"
proof (cases "plan w")
  case Nil
  then show ?thesis
    using assms by (intro ran [of w]) (simp_all add: clock_call_def passes_def lags_le_def)
next
  case (Cons e p)
  obtain d b where e: "e = (d, b)" by force
  let ?w = "w\<lparr>mono := mono w + int d, plan := p\<rparr>"
  have "passes L w ?w"
    using Cons assms by (auto simp: passes_def lags_le_def lag_def e)
  with Cons e show ?thesis
    using assms by (cases b) (auto intro: ran [of ?w] bad [of ?w] simp: clock_call_def Let_def lags_le_def)
qed

lemma wp_monotonic_now:
  assumes "lags_le u L w" and "\<And>w'. passes L w w' \<Longrightarrow> Q (ts_of (mono w')) w'"
  shows "wp u monotonic_now Q R X w"
  using assms(1)
  by (rule clock_call_cases [where a = "None :: timespec option" and op = "\<lambda>w. ((0, Some (ts_of (mono w))), w)"])
    (auto simp: monotonic_now_def wp_lib sys_gettime_mono_def assms(2))

lemma wp_wall_now:
  assumes "lags_le u L w" and "\<And>w'. passes L w w' \<Longrightarrow> Q (ts_of (wall w')) w'" and "\<And>w'. passes L w w' \<Longrightarrow> X 1 w'"
  shows "wp u wall_now Q R X w"
  using assms(1)
  by (rule clock_call_cases [where a = "None :: timespec option" and op = "\<lambda>w. ((0, Some (ts_of (wall w))), w)"])
    (auto simp: wall_now_def wp_lib sys_gettime_real_def assms(2,3))

lemma wp_set_wall_clock:
  assumes "lags_le u L w" and "\<And>w'. passes L w w' \<Longrightarrow> Q () (w'\<lparr>skew := x - mono w'\<rparr>)" and "\<And>w'. passes L w w' \<Longrightarrow> X 2 w'"
  shows "wp u (set_wall_clock (ts_of x)) Q R X w"
  using assms(1)
  by (rule clock_call_cases [where a = "()" and op = "\<lambda>w.
      if 0 \<le> tv_nsec (ts_of x) \<and> tv_nsec (ts_of x) < 1000000000 \<and> valid_time w (ts_nanos (ts_of x))
      then ((0, ()), w\<lparr>skew := ts_nanos (ts_of x) - mono w\<rparr>) else ((-1, ()), w)"])
    (auto simp: set_wall_clock_def wp_lib sys_settime_def assms(2,3))

lemma wp_nanosleep:
  assumes "lags_le u L w" and "\<And>w'. passes L w w' \<Longrightarrow> Q (0, ()) (w'\<lparr>mono := mono w' + x\<rparr>)" and "\<And>w'. passes L w w' \<Longrightarrow> Q (-1, ()) w'"
  shows "wp u (c_lib (sys_nanosleep (ts_of x))) Q R X w"
  using assms(1)
  by (rule clock_call_cases [where a = "()" and op = "\<lambda>w.
      if 0 \<le> tv_sec (ts_of x) \<and> 0 \<le> tv_nsec (ts_of x) \<and> tv_nsec (ts_of x) < 1000000000
      then ((0, ()), w\<lparr>mono := mono w + ts_nanos (ts_of x)\<rparr>) else ((-1, ()), w)"])
    (auto simp: wp_lib sys_nanosleep_def assms(2,3))

lemma passes_trans: "passes L w w1 \<Longrightarrow> passes K w1 w2 \<Longrightarrow> passes (L + K) w w2"
  by (auto simp: passes_def)

section \<open>Access to the wall clock\<close>

text \<open>After the wall clock was set to \<open>x\<close>, up to the precision of the interface.\<close>

definition wall_set :: "int \<Rightarrow> int \<Rightarrow> int \<Rightarrow> clk \<Rightarrow> clk \<Rightarrow> bool" where
  "wall_set L err x w w' \<longleftrightarrow> mono w \<le> mono w' \<and> mono w' \<le> mono w + L \<and> mono w' + lag w' = mono w + lag w \<and>
     set (plan w') \<subseteq> set (plan w) \<and> x - err \<le> wall w' \<and> wall w' \<le> x"

text \<open>Every state of the loop has an offset that satisfies \<open>K\<close>: this is what an early exit leaves.\<close>

definition strobe_inv :: "(int \<Rightarrow> bool) \<Rightarrow> bool \<Rightarrow> int \<Rightarrow> int \<Rightarrow> int \<Rightarrow> int \<Rightarrow> int \<Rightarrow> bool \<times> bool \<times> int \<Rightarrow> clk \<Rightarrow> bool" where
  "strobe_inv K u L M m1 P E = (\<lambda>(go, _, n) w. K (skew w) \<and> lags_le u L w \<and> 0 \<le> n \<and> m1 + n * P \<le> mono w \<and>
     mono w + lag w = M + n * P \<and> (go \<longrightarrow> m1 + n * P < E) \<and> n * P \<le> E - m1 + P)"

lemma strobe_inv_mono:
  assumes "strobe_inv K u L M m1 P E s w" and "0 \<le> m1" and "M \<le> 2 ^ 80" "E \<le> 2 ^ 80" "0 < P" "P \<le> 2 ^ 80" "m1 \<le> 2 ^ 80"
    and "passes L w w'"
  shows "0 \<le> mono w'" "mono w' \<le> 2 ^ 82" "lags_le u L w'" "ts_small (ts_of (mono w'))"
proof -
  obtain go wd n where s: "s = (go, wd, n)" by (cases s)
  have "0 \<le> n * P" using assms(1,5) by (simp add: strobe_inv_def s)
  moreover have "m1 + n * P \<le> mono w" "mono w + lag w = M + n * P" "n * P \<le> E - m1 + P"
    "mono w \<le> mono w'" "mono w' + lag w' = mono w + lag w"
    using assms(1,8) by (simp_all add: strobe_inv_def s passes_def)
  moreover have "(2::int) ^ 82 = 4 * 2 ^ 80" by simp
  ultimately show m: "0 \<le> mono w'" "mono w' \<le> 2 ^ 82"
    using assms(2-7) lag_nonneg [of w'] by linarith+
  show "lags_le u L w'" using assms(1,8) by (simp add: strobe_inv_def s lags_le_passes split: prod.splits)
  show "ts_small (ts_of (mono w'))" using m by (intro ts_small_of) simp
qed

text \<open>Sleeping for a period, and checking the time again.\<close>

lemma strobe_sleep_wp:
  assumes w3: "K (skew w3)" "lags_le u L w3" "m1 + n * P \<le> mono w3" "mono w3 + lag w3 = M + n * P"
    and n: "0 \<le> n" "m1 + n * P < E" and P: "0 < P"
  shows "wp u (c_bind (c_lib (sys_nanosleep (ts_of P))) (\<lambda>(r, _).
       if r \<noteq> 0 then c_exit 3 else c_bind (strobing (ts_of E)) (\<lambda>go. c_val (go, wd, n + 1))))
    (\<lambda>s' w'. strobe_inv K u L M m1 P E s' w' \<and> nat (E - m1 - snd (snd s') * P) < nat (E - m1 - n * P))
    R (\<lambda>n w'. n \<in> {2, 3} \<and> K (skew w')) w3"
  unfolding wp_bind
proof (rule wp_nanosleep [OF w3(2)])
  fix w4 assume p: "passes L w3 w4"
  let ?w = "w4\<lparr>mono := mono w4 + P\<rparr>"
  have l: "lags_le u L ?w" using lags_le_passes [OF p w3(2)] by simp
  have "wp u (c_bind (strobing (ts_of E)) (\<lambda>go. c_val (go, wd, n + 1)))
    (\<lambda>s' w'. strobe_inv K u L M m1 P E s' w' \<and> nat (E - m1 - snd (snd s') * P) < nat (E - m1 - n * P))
    R (\<lambda>n w'. n \<in> {2, 3} \<and> K (skew w')) ?w"
    unfolding strobing_def wp_bind wp_val
  proof (rule wp_monotonic_now [OF l])
    fix w5 assume p5: "passes L ?w w5"
    have "mono w4 + P \<le> mono w5" "mono w5 + lag w5 = mono w3 + lag w3 + P" "mono w3 \<le> mono w4" "skew w5 = skew w3"
      using p p5 by (simp_all add: passes_def)
    moreover have "nat (E - m1 - (n + 1) * P) < nat (E - m1 - n * P)" using n(2) P by (simp add: distrib_right)
    ultimately show "strobe_inv K u L M m1 P E (0 < cmp_timespec (ts_of (mono w5)) (ts_of E), wd, n + 1) w5 \<and>
        nat (E - m1 - snd (snd (0 < cmp_timespec (ts_of (mono w5)) (ts_of E), wd, n + 1)) * P) < nat (E - m1 - n * P)"
      using w3 n lags_le_passes [OF p5 l] by (auto simp: strobe_inv_def cmp_ts_of distrib_right)
  qed
  then show "wp u (case (0, ()) of (r, _) \<Rightarrow> if r \<noteq> 0 then c_exit 3
       else c_bind (strobing (ts_of E)) (\<lambda>go. c_val (go, wd, n + 1)))
    (\<lambda>s' w'. strobe_inv K u L M m1 P E s' w' \<and> nat (E - m1 - snd (snd s') * P) < nat (E - m1 - n * P))
    R (\<lambda>n w'. n \<in> {2, 3} \<and> K (skew w')) ?w" by simp
qed (use w3(1) in \<open>simp add: passes_def\<close>)

text \<open>
  The contract of a pair of functions that read and set the wall clock: both truncate by at
  most \<open>err\<close> nanoseconds, wait no longer than the plan says, and exit with status one or two
  when the call fails.
\<close>

locale wall_access =
  fixes get_wall :: "(clk, timespec) prog" and set_wall :: "timespec \<Rightarrow> (clk, unit) prog" and err :: int
  assumes err_range: "0 \<le> err" "err \<le> 2 ^ 60"
    and read_wall: "lags_le u L w \<Longrightarrow>
      (\<And>w' x. passes L w w' \<Longrightarrow> wall w' - err \<le> x \<Longrightarrow> x \<le> wall w' \<Longrightarrow> Q (ts_of x) w') \<Longrightarrow>
      (\<And>w'. passes L w w' \<Longrightarrow> X 1 w') \<Longrightarrow> wp u get_wall Q R X w"
    and write_wall: "lags_le u L w \<Longrightarrow> (\<And>w'. wall_set L err x w w' \<Longrightarrow> Q' () w') \<Longrightarrow>
      (\<And>w'. passes L w w' \<Longrightarrow> X 2 w') \<Longrightarrow> wp u (set_wall (ts_of x)) Q' R X w"
begin

text \<open>After setting the wall clock by the offset \<open>N\<close> from the monotonic clock.\<close>

lemma set_offset:
  assumes "wall_set L err (mono w1 + N) w1 w2"
  shows "\<bar>skew w2 - N\<bar> \<le> L + err"
  using assms by (auto simp: wall_set_def)

lemma strobe_step_wp:
  assumes inv: "strobe_inv K u L M m1 P E s w" and go: "fst s"
    and b: "0 \<le> m1" "M \<le> 2 ^ 80" "E \<le> 2 ^ 80" "0 < P" "P \<le> 2 ^ 80" "m1 \<le> 2 ^ 80"
    and off: "\<bar>N\<bar> \<le> 2 ^ 80" "\<bar>W\<bar> \<le> 2 ^ 80" and dur: "E - m1 \<le> 2 ^ 62"
    and K: "\<And>x. \<bar>x - N\<bar> \<le> L + err \<or> \<bar>x - W\<bar> \<le> L + err \<Longrightarrow> K x"
  shows "wp u (strobe_step set_wall (ts_of N) (ts_of W) (ts_of P) (ts_of E) s)
    (\<lambda>s' w'. strobe_inv K u L M m1 P E s' w' \<and>
       nat (E - m1 - snd (snd s') * P) < nat (E - m1 - snd (snd s) * P))
    R (\<lambda>n w'. n \<in> {2, 3} \<and> K (skew w')) w"
proof -
  obtain wd n where s: "s = (True, wd, n)" using go by (cases s) auto
  have n: "0 \<le> n" "m1 + n * P < E" "m1 + n * P \<le> mono w" "mono w + lag w = M + n * P" "lags_le u L w" "K (skew w)"
    using inv by (simp_all add: strobe_inv_def s)
  have "n \<le> n * P" using n(1) b(4) by (simp add: mult_le_cancel_left1)
  then have cnt: "in_s64 (n + 1)" using n(1,2) dur by (auto simp: in_s64_def)
  have small: "ts_small (ts_of (if wd then N else W))"
    using off by (intro ts_small_of) auto
  note step = strobe_sleep_wp [OF _ _ _ _ n(1,2) b(4)]
  show ?thesis
    unfolding s strobe_step_def prod.case wp_bind
  proof (rule wp_monotonic_now [OF n(5)])
    fix w1 assume p1: "passes L w w1"
    note m1 = strobe_inv_mono [OF inv b p1]
    show "wp u (add_timespec (ts_of (mono w1)) (if wd then ts_of N else ts_of W))
        (\<lambda>ts. wp u (set_wall ts)
          (\<lambda>_. wp u (s64 (n + 1)) (\<lambda>count'. wp u (c_lib (sys_nanosleep (ts_of P)))
             (\<lambda>a. wp u (case a of (r, _) \<Rightarrow> if r \<noteq> 0 then c_exit 3
                 else c_bind (strobing (ts_of E)) (\<lambda>go. c_val (go, \<not> wd, count')))
             (\<lambda>s' w'. strobe_inv K u L M m1 P E s' w' \<and> nat (E - m1 - snd (snd s') * P) < nat (E - m1 - snd (snd (True, wd, n)) * P))
             R (\<lambda>n w'. n \<in> {2, 3} \<and> K (skew w'))) R (\<lambda>n w'. n \<in> {2, 3} \<and> K (skew w'))) R (\<lambda>n w'. n \<in> {2, 3} \<and> K (skew w'))) R (\<lambda>n w'. n \<in> {2, 3} \<and> K (skew w')))
        R (\<lambda>n w'. n \<in> {2, 3} \<and> K (skew w')) w1"
      unfolding if_distrib [of ts_of, symmetric] wp_add [OF m1(4) small]
    proof (rule write_wall [OF m1(3)])
      fix w2 assume p2: "wall_set L err (ts_nanos (ts_of (mono w1)) + ts_nanos (ts_of (if wd then N else W))) w1 w2"
      have "mono w \<le> mono w2" "mono w2 + lag w2 = mono w + lag w" "lags_le u L w2"
        using p1 p2 m1(3) by (auto simp: passes_def wall_set_def lags_le_def)
      moreover have "K (skew w2)"
        using p2 set_offset [of L w1 "if wd then N else W" w2] by (intro K) (auto split: if_splits)
      moreover note n step cnt
      ultimately
      show "wp u (s64 (n + 1)) (\<lambda>count'. wp u (c_lib (sys_nanosleep (ts_of P)))
             (\<lambda>a. wp u (case a of (r, _) \<Rightarrow> if r \<noteq> 0 then c_exit 3
                 else c_bind (strobing (ts_of E)) (\<lambda>go. c_val (go, \<not> wd, count')))
             (\<lambda>s' w'. strobe_inv K u L M m1 P E s' w' \<and> nat (E - m1 - snd (snd s') * P) < nat (E - m1 - snd (snd (True, wd, n)) * P))
             R (\<lambda>n w'. n \<in> {2, 3} \<and> K (skew w'))) R (\<lambda>n w'. n \<in> {2, 3} \<and> K (skew w'))) R (\<lambda>n w'. n \<in> {2, 3} \<and> K (skew w')) w2"
        by simp
    qed (use n(6) p1 in \<open>simp add: passes_def\<close>)
  qed
qed

text \<open>The sampled offset misses the true one by the time between the two readings.\<close>

lemma wp_current_offset:
  assumes lags: "lags_le u L w" and b: "0 \<le> mono w" "mono w + lag w \<le> 2 ^ 80" "\<bar>skew w\<bar> \<le> 2 ^ 79"
    and post: "\<And>N w'. passes (L + L) w w' \<Longrightarrow> \<bar>N - skew w\<bar> \<le> L + err \<Longrightarrow> Q (ts_of N) w'"
    and X: "\<And>w'. skew w' = skew w \<Longrightarrow> X 1 w'"
  shows "wp u (current_offset get_wall first) Q R X w"
proof -
  have bound: "\<bar>mono w'\<bar> \<le> 2 ^ 88" "wall w' - err \<le> x \<Longrightarrow> x \<le> wall w' \<Longrightarrow> \<bar>x\<bar> \<le> 2 ^ 88"
    if "passes K w w'" for K w' x
    using that b err_range lag_nonneg [of w'] passes_frame [OF that] by (auto simp: passes_def)
  have sub: "wp u (sub_timespec (ts_of x) (ts_of (mono w2))) Q R X w'"
    if p1: "passes K1 w w1" and x: "wall w1 - err \<le> x" "x \<le> wall w1" and p2: "passes K2 w w2"
      and d: "\<bar>mono w1 - mono w2\<bar> \<le> L" and p: "passes (L + L) w w'" for w1 w2 w' K1 K2 x
  proof -
    have "\<bar>x - mono w2 - skew w\<bar> \<le> L + err" using passes_frame [OF p1] d x by simp
    then show ?thesis
      using post [OF p] by (simp only: wp_sub [OF ts_small_of ts_small_of] bound(2) [OF p1 x] bound(1) [OF p2] ts_nanos_of)
  qed
  show ?thesis
  proof (cases first)
    case True
    then show ?thesis
      unfolding current_offset_def
      by (auto intro!: read_wall [OF lags] wp_monotonic_now [OF lags_le_passes [OF _ lags]] X
          intro: sub passes_trans simp: passes_def)
  next
    case False
    then show ?thesis
      unfolding current_offset_def
      by (auto intro!: wp_monotonic_now [OF lags] read_wall [OF lags_le_passes [OF _ lags]] X
          intro: sub passes_trans simp: passes_def)
  qed
qed

text \<open>The loop ends, on any plan, while the period is positive.\<close>

lemma wp_strobe_until:
  assumes lags: "lags_le u L w" and m: "0 \<le> ms" "ms \<le> mono w" "mono w + lag w \<le> 2 ^ 80"
    and args: "0 < P" "P \<le> 2 ^ 80" "ms \<le> E" "E \<le> 2 ^ 80" "E - ms \<le> 2 ^ 62"
    and off: "\<bar>N\<bar> \<le> 2 ^ 80" "\<bar>W\<bar> \<le> 2 ^ 80"
    and K: "K (skew w)" "\<And>x. \<bar>x - N\<bar> \<le> L + err \<or> \<bar>x - W\<bar> \<le> L + err \<Longrightarrow> K x"
    and post: "\<And>n w'. K (skew w') \<Longrightarrow> lags_le u L w' \<Longrightarrow> 0 \<le> mono w' \<Longrightarrow> mono w' + lag w' \<le> 2 ^ 82 \<Longrightarrow> Q n w'"
  shows "wp u (strobe_until set_wall (ts_of N) (ts_of W) (ts_of P) (ts_of E)) Q R (\<lambda>n w'. n \<in> {2, 3} \<and> K (skew w')) w"
  unfolding strobe_until_def strobing_def wp_bind wp_val
proof (rule wp_monotonic_now [OF lags])
  let ?M = "mono w + lag w"
  fix w1 assume p1: "passes L w w1"
  have "ms \<le> 2 ^ 80" using m lag_nonneg [of w] by simp
  note bnd = m(1,3) args(4,1,2) this
  show "wp u (c_while (\<lambda>(go, _). go) (strobe_step set_wall (ts_of N) (ts_of W) (ts_of P) (ts_of E))
      (0 < cmp_timespec (ts_of (mono w1)) (ts_of E), False, 0))
    (\<lambda>a. wp u (case a of (_, _, count) \<Rightarrow> c_val count) Q R (\<lambda>n w'. n \<in> {2, 3} \<and> K (skew w'))) R (\<lambda>n w'. n \<in> {2, 3} \<and> K (skew w')) w1"
  proof (rule wp_while [where I = "strobe_inv K u L ?M ms P E" and m = "\<lambda>s w. nat (E - ms - snd (snd s) * P)"])
    show "strobe_inv K u L ?M ms P E (0 < cmp_timespec (ts_of (mono w1)) (ts_of E), False, 0) w1"
      using p1 m args K(1) lags_le_passes [OF p1 lags] by (auto simp: strobe_inv_def cmp_ts_of passes_def)
  next
    fix s w2 assume "strobe_inv K u L ?M ms P E s w2" and "case s of (go, _) \<Rightarrow> go"
    then show "wp u (strobe_step set_wall (ts_of N) (ts_of W) (ts_of P) (ts_of E) s)
      (\<lambda>s' w'. strobe_inv K u L ?M ms P E s' w' \<and> nat (E - ms - snd (snd s') * P) < nat (E - ms - snd (snd s) * P))
      R (\<lambda>n w'. n \<in> {2, 3} \<and> K (skew w')) w2"
      using off args(5) by (intro strobe_step_wp [OF _ _ bnd]) (auto intro: K(2))
  next
    fix s w2 assume inv: "strobe_inv K u L ?M ms P E s w2"
    obtain go wd n where s: "s = (go, wd, n)" by (cases s)
    have "0 \<le> n * P" "n * P \<le> E - ms + P" "ms + n * P \<le> mono w2" "mono w2 + lag w2 = ?M + n * P" "lags_le u L w2" "K (skew w2)"
      using inv args(1) by (simp_all add: strobe_inv_def s)
    then show "wp u (case s of (_, _, count) \<Rightarrow> c_val count) Q R (\<lambda>n w'. n \<in> {2, 3} \<and> K (skew w')) w2"
      unfolding s using bnd by (auto intro!: post)
  qed
qed

lemma wp_strobe_reset:
  assumes "lags_le u L w" and "0 \<le> mono w" "mono w + lag w \<le> 2 ^ 82" and "\<bar>N\<bar> \<le> 2 ^ 80" and K: "K (skew w)"
    and post: "\<And>w'. \<bar>skew w' - N\<bar> \<le> L + err \<Longrightarrow> Q 0 w'"
  shows "wp u (strobe_reset set_wall (ts_of N) n) Q R (\<lambda>n w'. n \<in> {2, 3} \<and> K (skew w')) w"
  unfolding strobe_reset_def wp_bind
proof (rule wp_monotonic_now [OF assms(1)])
  fix w1 assume p1: "passes L w w1"
  then have "ts_small (ts_of (mono w1))" "ts_small (ts_of N)"
    using assms lag_nonneg [of w1] by (auto simp: passes_def intro!: ts_small_of)
  note add = wp_add [OF this]
  show "wp u (add_timespec (ts_of (mono w1)) (ts_of N)) (\<lambda>ts. wp u (set_wall ts) (\<lambda>_.
     wp u (c_modify (clk_puts (show_int (low_int n)))) (\<lambda>_. wp u (c_val 0) Q R (\<lambda>n w'. n \<in> {2, 3} \<and> K (skew w')))
     R (\<lambda>n w'. n \<in> {2, 3} \<and> K (skew w'))) R (\<lambda>n w'. n \<in> {2, 3} \<and> K (skew w'))) R (\<lambda>n w'. n \<in> {2, 3} \<and> K (skew w')) w1"
    unfolding add ts_nanos_of
    by (rule write_wall [OF lags_le_passes [OF p1 assms(1)]]) (use p1 K in \<open>auto simp: clk_puts_def passes_def wall_set_def intro!: post\<close>)
qed

text \<open>On any plan: the final setting reaches the sampled offset up to one latency.\<close>

lemma wp_strobe_for:
  assumes lags: "lags_le u L w" and b: "0 \<le> mono w" "mono w + lag w \<le> 2 ^ 70"
    and args: "0 < P" "P \<le> 2 ^ 60" "0 \<le> S" "S \<le> 2 ^ 60" and off: "\<bar>N\<bar> \<le> 2 ^ 80" "\<bar>W\<bar> \<le> 2 ^ 80"
    and K: "K (skew w)" "\<And>x. \<bar>x - N\<bar> \<le> L + err \<or> \<bar>x - W\<bar> \<le> L + err \<Longrightarrow> K x"
    and post: "\<And>w'. \<bar>skew w' - N\<bar> \<le> L + err \<Longrightarrow> Q 0 w'"
  shows "wp u (strobe_for set_wall (ts_of N) (ts_of W) (ts_of P) (ts_of S)) Q R (\<lambda>n w'. n \<in> {2, 3} \<and> K (skew w')) w"
  unfolding strobe_for_def wp_bind
proof (rule wp_monotonic_now [OF lags])
  fix w2 assume p2: "passes L w w2"
  have m2: "0 \<le> mono w2" "mono w2 + lag w2 \<le> 2 ^ 70" "mono w2 \<le> 2 ^ 70"
    using p2 b lag_nonneg [of w2] by (auto simp: passes_def)
  then have "ts_small (ts_of (mono w2))" "ts_small (ts_of S)" using args by (auto intro!: ts_small_of)
  note add = wp_add [OF this]
  show "wp u (add_timespec (ts_of (mono w2)) (ts_of S)) (\<lambda>end_ts.
      wp u (strobe_until set_wall (ts_of N) (ts_of W) (ts_of P) end_ts) (\<lambda>count.
      wp u (strobe_reset set_wall (ts_of N) count) Q R (\<lambda>n w'. n \<in> {2, 3} \<and> K (skew w'))) R (\<lambda>n w'. n \<in> {2, 3} \<and> K (skew w')))
      R (\<lambda>n w'. n \<in> {2, 3} \<and> K (skew w')) w2"
    unfolding add ts_nanos_of
    using m2 args off lags_le_passes [OF p2 lags] post K passes_frame [OF p2]
    by (intro wp_strobe_until [where ms = "mono w2"] wp_strobe_reset [where L = L]) auto
qed

end

interpretation strobe: wall_access wall_now set_wall_clock 0
proof unfold_locales
  fix u L w Q R and X :: "int \<Rightarrow> clk \<Rightarrow> bool"
  assume "lags_le u L w" "\<And>w' x. passes L w w' \<Longrightarrow> wall w' - 0 \<le> x \<Longrightarrow> x \<le> wall w' \<Longrightarrow> Q (ts_of x) w'" "\<And>w'. passes L w w' \<Longrightarrow> X 1 w'"
  then show "wp u wall_now Q R X w" by (intro wp_wall_now) auto
next
  fix u L w x Q' R and X :: "int \<Rightarrow> clk \<Rightarrow> bool"
  assume "lags_le u L w" "\<And>w'. wall_set L 0 x w w' \<Longrightarrow> Q' () w'" "\<And>w'. passes L w w' \<Longrightarrow> X 2 w'"
  then show "wp u (set_wall_clock (ts_of x)) Q' R X w"
    by (intro wp_set_wall_clock [where L = L]) (auto simp: wall_set_def passes_def)
qed simp_all

text \<open>
  What an early exit leaves: the offset of before, when the wall clock could not be read; later the
  offset of before or the displaced one, up to \<open>B\<close>.
\<close>

definition strobe_exit :: "int \<Rightarrow> int \<Rightarrow> clk \<Rightarrow> int \<Rightarrow> clk \<Rightarrow> bool" where
  "strobe_exit B D w n w' \<longleftrightarrow> n = 1 \<and> skew w' = skew w \<or>
     n \<in> {2, 3} \<and> (\<bar>skew w' - skew w\<bar> \<le> B \<or> \<bar>skew w' - (skew w + D)\<bar> \<le> B)"

lemma wp_strobe_exit:
  assumes "wp u p Q R (\<lambda>n w'. n \<in> {2, 3} \<and> (\<bar>skew w' - skew w\<bar> \<le> B \<or> \<bar>skew w' - (skew w + D)\<bar> \<le> B)) w1"
  shows "wp u p Q R (strobe_exit B D w) w1"
  using assms by (rule wp_mono) (auto simp: strobe_exit_def)

text \<open>The program restores the offset up to two latencies.\<close>

lemma wp_strobe_clock:
  assumes lags: "lags_le u L w" and b: "0 \<le> mono w" "mono w + lag w \<le> 2 ^ 70" "\<bar>skew w\<bar> \<le> 2 ^ 70" "L \<le> 2 ^ 70"
    and args: "\<bar>D\<bar> \<le> 2 ^ 60" "0 < P" "P \<le> 2 ^ 60" "0 \<le> S" "S \<le> 2 ^ 60"
  shows "wp u (strobe_clock first (ts_trunc D) (ts_of P) (ts_of S))
    (\<lambda>v w'. v = 0 \<and> \<bar>skew w' - skew w\<bar> \<le> 2 * L) R (strobe_exit (2 * L) D w) w"
  unfolding strobe_clock_def wp_bind
proof (rule strobe.wp_current_offset [OF lags])
  fix N w1 assume p1: "passes (L + L) w w1" and N: "\<bar>N - skew w\<bar> \<le> L + 0"
  have "ts_small (ts_of N)" "ts_small (ts_trunc D)"
    using N b args by (auto intro!: ts_small_of ts_small_trunc)
  note add = wp_add [OF this]
  show "wp u (add_timespec (ts_of N) (ts_trunc D)) (\<lambda>wo.
      wp u (strobe_for set_wall_clock (ts_of N) wo (ts_of P) (ts_of S)) (\<lambda>v w'. v = 0 \<and> \<bar>skew w' - skew w\<bar> \<le> 2 * L)
      R (strobe_exit (2 * L) D w)) R (strobe_exit (2 * L) D w) w1"
    unfolding add ts_nanos_of ts_nanos_trunc
    using p1 N b args lags
    by (intro wp_strobe_exit strobe.wp_strobe_for [where L = L]) (auto simp: passes_def lags_le_def)
qed (use b lags in \<open>auto simp: strobe_exit_def\<close>)

section \<open>The program on a quiet system\<close>

text \<open>Calls are immediate and do not fail.\<close>

lemma quiet_calls:
  assumes "plan w = []"
  shows "wp u monotonic_now Q R X w = Q (ts_of (mono w)) w"
    and "wp u wall_now Q R X w = Q (ts_of (wall w)) w"
    and "valid_time w x \<Longrightarrow> wp u (set_wall_clock (ts_of x)) Q' R X w = Q' () (w\<lparr>skew := x - mono w\<rparr>)"
    and "0 \<le> y \<Longrightarrow> wp u (c_lib (sys_nanosleep (ts_of y))) Q'' R X w = Q'' (0, ()) (w\<lparr>mono := mono w + y\<rparr>)"
  using assms
  by (simp_all add: monotonic_now_def wall_now_def set_wall_clock_def wp_lib sys_gettime_mono_def
      sys_gettime_real_def sys_settime_def sys_nanosleep_def clock_call_def pos_imp_zdiv_nonneg_iff)

text \<open>The clocks after \<open>n\<close> strobes.\<close>

definition strobed :: "clk \<Rightarrow> int \<Rightarrow> int \<Rightarrow> int \<Rightarrow> clk" where
  "strobed w D P n = w\<lparr>mono := mono w + n * P, skew := (if odd n then skew w + D else skew w)\<rparr>"

definition strobe_fits :: "clk \<Rightarrow> int \<Rightarrow> int \<Rightarrow> int \<Rightarrow> bool" where
  "strobe_fits w D P S \<longleftrightarrow> plan w = [] \<and> 0 \<le> mono w \<and> 0 \<le> skew w \<and> 0 \<le> skew w + D \<and> 0 < P \<and> 0 \<le> S \<and>
     wall w + \<bar>D\<bar> + S + P < 8277292036 * 1000000000"

lemma strobe_fitsD:
  assumes "strobe_fits w D P S" and "0 \<le> t" "t < S + P" and "x = skew w \<or> x = skew w + D"
  shows "valid_time (w\<lparr>mono := mono w + t, skew := y\<rparr>) (mono w + t + x)" "\<bar>mono w + t\<bar> \<le> 2 ^ 88" "\<bar>x\<bar> \<le> 2 ^ 88"
    "mono w + t + x < 8277292036 * 1000000000"
proof -
  show fit: "mono w + t + x < 8277292036 * 1000000000"
    using assms by (auto simp: strobe_fits_def)
  then have "(mono w + t + x) div 1000000000 < 8277292036" by (simp add: div_less_iff_less_mult)
  then show "valid_time (w\<lparr>mono := mono w + t, skew := y\<rparr>) (mono w + t + x)"
    using assms by (auto simp: valid_time_def strobe_fits_def)
  show "\<bar>mono w + t\<bar> \<le> 2 ^ 88" "\<bar>x\<bar> \<le> 2 ^ 88"
    using assms fit by (auto simp: strobe_fits_def)
qed

lemma skew_mono_commute: "w\<lparr>skew := a, mono := b\<rparr> = w\<lparr>mono := b, skew := a\<rparr>"
  by (cases w) simp

lemma quiet_strobe_step:
  assumes fits: "strobe_fits w D P S" and n: "0 \<le> n" "n * P < S" and c: "in_s64 (n + 1)"
  shows "wp u (strobe_step set_wall_clock (ts_of (skew w)) (ts_of (skew w + D)) (ts_of P) (ts_of (mono w + S)) (go, odd n, n)) Q R X
      (strobed w D P n) = Q ((n + 1) * P < S, odd (n + 1), n + 1) (strobed w D P (n + 1))"
proof -
  have P: "0 < P" "plan w = []" using fits by (simp_all add: strobe_fits_def)
  let ?x = "if odd n then skew w else skew w + D"
  have t: "0 \<le> n * P" "n * P < S + P" using n P by auto
  have x: "?x = skew w \<or> ?x = skew w + D" by simp
  note f = strobe_fitsD [OF fits t x]
  have off: "(if odd n then ts_of (skew w) else ts_of (skew w + D)) = ts_of ?x" by simp
  show ?thesis
    using P f c
    by (simp add: strobe_step_def strobed_def off quiet_calls wp_add ts_small_of strobing_def cmp_ts_of
        distrib_right add.assoc skew_mono_commute cong: if_cong)
qed

lemma quiet_strobe_until:
  assumes fits: "strobe_fits w D P S" and k: "k = (S + P - 1) div P" "k < LLONG_MAX"
  shows "wp False (strobe_until set_wall_clock (ts_of (skew w)) (ts_of (skew w + D)) (ts_of P) (ts_of (mono w + S)))
    (\<lambda>n w'. n = k \<and> w' = strobed w D P k) R X w"
proof -
  have P: "0 < P" "plan w = []" "0 \<le> S" using fits by (simp_all add: strobe_fits_def)
  have go: "n * P < S \<longleftrightarrow> n < k" for n
    using less_ceil_div_iff [OF P(1), of n S] k(1) by simp
  have k0: "0 \<le> k" using P by (simp add: k(1) pos_imp_zdiv_nonneg_iff)
  have "wp False (c_while (\<lambda>(go, _). go)
      (strobe_step set_wall_clock (ts_of (skew w)) (ts_of (skew w + D)) (ts_of P) (ts_of (mono w + S))) (0 < S, False, 0))
    (\<lambda>(_, _, n) w'. n = k \<and> w' = strobed w D P k) R X w"
  proof (rule wp_while [where I = "\<lambda>(go, wd, n) w'. 0 \<le> n \<and> n \<le> k \<and> go = (n < k) \<and> wd = odd n \<and> w' = strobed w D P n"
        and m = "\<lambda>(_, _, n) _. nat (k - n)"])
    show "(case (0 < S, False, 0) of (go, wd, n) \<Rightarrow> \<lambda>w'. 0 \<le> n \<and> n \<le> k \<and> go = (n < k) \<and> wd = odd n \<and> w' = strobed w D P n) w"
      using go [of 0] k0 by (simp add: strobed_def)
  next
    fix s w' assume "(case s of (go, wd, n) \<Rightarrow> \<lambda>w'. 0 \<le> n \<and> n \<le> k \<and> go = (n < k) \<and> wd = odd n \<and> w' = strobed w D P n) w'"
      and "case s of (go, _) \<Rightarrow> go"
    then obtain n where s: "s = (True, odd n, n)" "w' = strobed w D P n" "0 \<le> n" "n < k"
      by (cases s) auto
    then have "in_s64 (n + 1)" "n * P < S" using k(2) go by (auto simp: in_s64_def)
    from quiet_strobe_step [OF fits s(3) this(2,1)] show "wp False
        (strobe_step set_wall_clock (ts_of (skew w)) (ts_of (skew w + D)) (ts_of P) (ts_of (mono w + S)) s)
        (\<lambda>s' w'. (case s' of (go, wd, n) \<Rightarrow> \<lambda>w'. 0 \<le> n \<and> n \<le> k \<and> go = (n < k) \<and> wd = odd n \<and> w' = strobed w D P n) w' \<and>
          (case s' of (_, _, n) \<Rightarrow> \<lambda>_. nat (k - n)) w' < (case s of (_, _, n) \<Rightarrow> \<lambda>_. nat (k - n)) w'') R X w'" for w''
      using s go [of "n + 1"] by simp
  qed auto
  then show ?thesis
    using P by (cases "S = 0") (simp_all add: strobe_until_def strobing_def quiet_calls cmp_ts_of split_def)
qed

lemma quiet_strobe_clock:
  assumes fits: "strobe_fits w D P S" and k: "k = (S + P - 1) div P" "k < LLONG_MAX"
    and D: "\<bar>D\<bar> \<le> 2 ^ 60" and S: "S \<le> 2 ^ 60"
  shows "wp False (strobe_clock first (ts_trunc D) (ts_of P) (ts_of S))
    (\<lambda>v w'. v = 0 \<and> w' = w\<lparr>mono := mono w + k * P, clk_out := clk_out w @ [show_int (low_int k)]\<rparr>) R X w"
proof -
  have P: "0 < P" "plan w = []" "0 \<le> S" using fits by (simp_all add: strobe_fits_def)
  have small: "ts_small (ts_of (skew w))" "ts_small (ts_trunc D)" "ts_small (ts_of S)" "ts_small (ts_of (mono w))"
      "ts_small (ts_of (wall w))"
    using fits D S by (auto simp: strobe_fits_def intro!: ts_small_of ts_small_trunc)
  have "\<not> k * P < S" and "\<not> S \<le> (k - 1) * P"
    using less_ceil_div_iff [OF P(1), of k S] less_ceil_div_iff [OF P(1), of "k - 1" S] k(1) by auto
  then have t: "0 \<le> k * P" "k * P < S + P" using P by (auto simp: left_diff_distrib)
  note f = strobe_fitsD [OF fits t, of "skew w"]
  have "wp False (strobe_reset set_wall_clock (ts_of (skew w)) k)
      (\<lambda>v w'. v = 0 \<and> w' = w\<lparr>mono := mono w + k * P, clk_out := clk_out w @ [show_int (low_int k)]\<rparr>) R X (strobed w D P k)"
    using P f by (simp add: strobe_reset_def strobed_def quiet_calls wp_add ts_small_of clk_puts_def)
  then have "wp False (strobe_until set_wall_clock (ts_of (skew w)) (ts_of (skew w + D)) (ts_of P) (ts_of (mono w + S)))
      (\<lambda>n. wp False (strobe_reset set_wall_clock (ts_of (skew w)) n)
        (\<lambda>v w'. v = 0 \<and> w' = w\<lparr>mono := mono w + k * P, clk_out := clk_out w @ [show_int (low_int k)]\<rparr>) R X) R X w"
    by (intro wp_mono_val [OF quiet_strobe_until [OF fits k]]) auto
  then show ?thesis
    using P by (simp add: strobe_clock_def strobe_for_def current_offset_def quiet_calls wp_sub wp_add small cong: if_cong)
qed

section \<open>Properties\<close>

text \<open>C26: Addition and subtraction of timespecs whose fields have any sign are exact and the result is
  in normal form, with nanoseconds from zero up to a second; the carrying loops end.\<close>

theorem timespec_arithmetic_exact:
  assumes "ts_small a" and "ts_small b"
  shows "\<exists>s d. add_timespec a b w = Val s w \<and> ts_nanos s = ts_nanos a + ts_nanos b \<and>
      0 \<le> tv_nsec s \<and> tv_nsec s < NANOS_PER_SEC \<and>
    sub_timespec a b w = Val d w \<and> ts_nanos d = ts_nanos a - ts_nanos b \<and>
      0 \<le> tv_nsec d \<and> tv_nsec d < NANOS_PER_SEC"
proof -
  have "wp False (add_timespec a b) (\<lambda>s w'. s = ts_of (ts_nanos a + ts_nanos b) \<and> w' = w) (\<lambda>_ _. False) (\<lambda>_ _. False) w"
    "wp False (sub_timespec a b) (\<lambda>s w'. s = ts_of (ts_nanos a - ts_nanos b) \<and> w' = w) (\<lambda>_ _. False) (\<lambda>_ _. False) w"
    using assms by (simp_all add: wp_add wp_sub)
  then have "add_timespec a b w = Val (ts_of (ts_nanos a + ts_nanos b)) w"
    "sub_timespec a b w = Val (ts_of (ts_nanos a - ts_nanos b)) w"
    by (auto elim!: wp_totalD)
  then show ?thesis by (simp add: NANOS_PER_SEC_def)
qed

theorem timespec_arithmetic_exact_witness:
  "\<exists>d. sub_timespec (ts_of 0) (ts_trunc 1500000000) () = Val d () \<and> ts_nanos d = - 1500000000 \<and> 0 \<le> tv_nsec d"
  using timespec_arithmetic_exact [of "ts_of 0" "ts_trunc 1500000000" "()"]
  by (auto simp: ts_small_of ts_small_trunc)

text \<open>Converting nanoseconds to a timespec never overflows and keeps the value; both fields have
  the sign of the argument, so a negative time is not in normal form.\<close>

theorem nanos_to_timespec_exact:
  assumes "in_s64 x"
  shows "\<exists>t. nanos_to_timespec x w = Val t w \<and> ts_nanos t = x \<and> \<bar>tv_nsec t\<bar> < NANOS_PER_SEC \<and>
    (0 \<le> x \<longrightarrow> 0 \<le> tv_nsec t) \<and> (x \<le> 0 \<longrightarrow> tv_nsec t \<le> 0)"
proof -
  have "wp False (nanos_to_timespec x) (\<lambda>t w'. t = ts_trunc x \<and> w' = w) (\<lambda>_ _. False) (\<lambda>_ _. False) w"
    using assms by (simp add: wp_nanos_to_timespec)
  then have "nanos_to_timespec x w = Val (ts_trunc x) w" by (auto elim: wp_totalD)
  moreover have "\<bar>x smod 1000000000\<bar> < 1000000000"
    using smod_bounds [of x] by (cases "0 \<le> x") auto
  ultimately show ?thesis
    using smod_bounds [of x] ts_nanos_trunc [of x] by (auto simp: ts_trunc_def NANOS_PER_SEC_def)
qed

theorem nanos_to_timespec_exact_witness:
  "\<exists>t. nanos_to_timespec (- 1500000000) () = Val t () \<and> ts_nanos t = - 1500000000 \<and> tv_nsec t \<le> 0"
  using nanos_to_timespec_exact [of "- 1500000000" "()"] by (auto simp: in_s64_def)

text \<open>The comparator is total: it answers one when the first timespec is below the second in the order by
  seconds and nanoseconds, minus one when it is above, zero when they are equal.  So its signs are
  reversed against the convention its comment names, and on normal forms it is the sign of the time
  from the first to the second.\<close>

theorem cmp_timespec_reversed:
  "cmp_timespec a b = (if a < b then 1 else if b < a then -1 else 0) \<and>
    cmp_timespec (ts_of x) (ts_of y) = sgn (y - x)"
  by (simp add: cmp_timespec_order sgn_if)

text \<open>C7: Strobing with whole-number arguments in range (at most \<open>10 ^ 9\<close> milliseconds of displacement, a positive
  period of at most as many, at most \<open>10 ^ 6\<close> seconds), on any plan with latencies of at most
  \<open>L\<close> per call, for either evaluation order: the program does not run forever.  If it returns, it returns
  zero and the wall clock's offset from the monotonic clock is what it was before, up to two
  latencies.  If it exits early, with status one the offset was not touched; with status two or three the clock
  is left, up to two latencies, where it was or displaced by the requested amount.  Its behaviour is undefined only if
  the plan makes a call fail (the result of reading the monotonic clock is not checked).\<close>

theorem strobe_restores_offset:
  assumes "strobe_range d p s" and "0 \<le> L" "\<forall>e \<in> set (plan w). int (fst e) \<le> L" "L \<le> 2 ^ 62"
    and "0 \<le> mono w" "mono w + lag w \<le> 2 ^ 62" "\<bar>skew w\<bar> \<le> 2 ^ 62"
  shows "case strobe_main first (strobe_args prog d p s) w of
      Val v w' \<Rightarrow> v = 0 \<and> \<bar>skew w' - skew w\<bar> \<le> 2 * L
    | Exit n w' \<Rightarrow> n = 1 \<and> skew w' = skew w \<or>
        n \<in> {2, 3} \<and> (\<bar>skew w' - skew w\<bar> \<le> 2 * L \<or> \<bar>skew w' - (skew w + d * 1000000)\<bar> \<le> 2 * L)
    | Undef r \<Rightarrow> \<exists>e \<in> set (plan w). snd e
    | _ \<Rightarrow> False"
proof -
  let ?u = "\<exists>e \<in> set (plan w). snd e"
  have "lags_le ?u L w" using assms(2,3) by (auto simp: lags_le_def)
  then have "wp ?u (strobe_main first (strobe_args prog d p s)) (\<lambda>v w'. v = 0 \<and> \<bar>skew w' - skew w\<bar> \<le> 2 * L)
      (\<lambda>_ _. False) (strobe_exit (2 * L) (d * 1000000) w) w"
    unfolding wp_strobe_main [OF assms(1)]
    using assms by (intro wp_strobe_clock) (auto simp: strobe_range_def)
  then show ?thesis
    by (cases "strobe_main first (strobe_args prog d p s) w") (simp_all add: wp_def strobe_exit_def)
qed

theorem strobe_restores_offset_witness:
  "case strobe_main True (strobe_args ''strobe-time'' 200 10 1)
      \<lparr>mono = 5, skew = 1000000000000, tz = (0, 0), slew = None, plan = [(3, False), (4, False)], clk_out = []\<rparr> of
      Val v w' \<Rightarrow> v = 0 \<and> \<bar>skew w' - 1000000000000\<bar> \<le> 8
    | Exit n w' \<Rightarrow> n = 1 \<and> skew w' = 1000000000000 \<or>
        n \<in> {2, 3} \<and> (\<bar>skew w' - 1000000000000\<bar> \<le> 8 \<or> \<bar>skew w' - 1000200000000\<bar> \<le> 8)
    | Undef r \<Rightarrow> False | _ \<Rightarrow> False"
  using strobe_restores_offset [of 200 10 1 4
      "\<lparr>mono = 5, skew = 1000000000000, tz = (0, 0), slew = None, plan = [(3, False), (4, False)], clk_out = []\<rparr>"
      True "''strobe-time''"]
  by (simp add: strobe_range_def lag_def cong: out.case_cong)

text \<open>C23: On a quiet system (calls are immediate and do not fail, and the kernel accepts the times
  that are set) the program has no undefined behaviour, strobes exactly as often as periods fit into
  the duration, rounded up, prints that number, takes that many periods, and leaves the wall
  clock's offset exactly as it was.\<close>

theorem strobe_quiet_exact:
  assumes "strobe_range d p s" and "strobe_fits w (d * 1000000) (p * 1000000) (s * 1000000000)"
  defines "k \<equiv> (s * 1000 + p - 1) div p"
  shows "strobe_main first (strobe_args prog d p s) w =
    Val 0 (w\<lparr>mono := mono w + k * (p * 1000000), clk_out := clk_out w @ [show_int k]\<rparr>)"
proof -
  let ?P = "p * 1000000" and ?S = "s * 1000000000"
  have p: "0 < p" "0 \<le> s" "s \<le> 10 ^ 6" using assms(1) by (simp_all add: strobe_range_def)
  have iff: "c < (?S + ?P - 1) div ?P \<longleftrightarrow> c < k" for c
    using less_ceil_div_iff [of ?P c ?S] less_ceil_div_iff [OF p(1), of c "s * 1000"] p(1) unfolding k_def by auto
  then have k: "k = (?S + ?P - 1) div ?P" by (metis linorder_neq_iff)
  have "k \<le> s * 1000"
    using less_ceil_div_iff [OF p(1), of "s * 1000" "s * 1000"] p unfolding k_def
    by (metis linorder_not_less mult_le_cancel_left1 mult_nonneg_nonneg not_less zero_le_numeral int_one_le_iff_zero_less)
  moreover have "0 \<le> k" using p by (simp add: k_def pos_imp_zdiv_nonneg_iff)
  ultimately have low: "low_int k = k" "k < LLONG_MAX" using p by (auto intro: low_int_small)
  have "wp False (strobe_main first (strobe_args prog d p s))
      (\<lambda>v w'. v = 0 \<and> w' = w\<lparr>mono := mono w + k * ?P, clk_out := clk_out w @ [show_int (low_int k)]\<rparr>)
      (\<lambda>_ _. False) (\<lambda>_ _. False) w"
    unfolding wp_strobe_main [OF assms(1)]
    using assms(1) by (intro quiet_strobe_clock [OF assms(2) k low(2)]) (auto simp: strobe_range_def)
  then show ?thesis unfolding low(1) by (rule wp_totalD) auto
qed

theorem strobe_quiet_exact_witness:
  "strobe_main False (strobe_args ''strobe-time'' 200 300 1)
      \<lparr>mono = 0, skew = 1000000000000, tz = (0, 0), slew = None, plan = [], clk_out = []\<rparr> =
    Val 0 \<lparr>mono = 1200000000, skew = 1000000000000, tz = (0, 0), slew = None, plan = [], clk_out = [show_int 4]\<rparr>"
  using strobe_quiet_exact [of 200 300 1
      "\<lparr>mono = 0, skew = 1000000000000, tz = (0, 0), slew = None, plan = [], clk_out = []\<rparr>" False "''strobe-time''"]
  by (simp add: strobe_range_def strobe_fits_def)

text \<open>C38: The usage check asks for one argument only.  Without arguments the program returns one; with one or two arguments,
  whole numbers of at most \<open>10 ^ 9\<close> milliseconds, it goes on to convert a missing one, and its behaviour is undefined.\<close>

theorem strobe_missing_arguments:
  assumes "\<bar>d\<bar> \<le> 10 ^ 9" "\<bar>p\<bar> \<le> 10 ^ 9"
  shows "strobe_main first [prog] w = Val 1 w \<and>
    strobe_main first [prog, show_int d] w = Undef NullDeref \<and>
    strobe_main first [prog, show_int d, show_int p] w = Undef NullDeref"
proof -
  have r: "\<bar>d * 1000000\<bar> < 2 ^ 53" "\<bar>p * 1000000\<bar> < 2 ^ 53" "\<bar>d\<bar> < 2 ^ 53" "\<bar>p\<bar> < 2 ^ 53"
    and i: "in_s64 (d * 1000000)" "in_s64 (p * 1000000)"
    using assms by (auto simp: in_s64_def)
  have run: "arg_nanos argv 1 1000000 w = Val (d * 1000000) w" if "1 < length argv" "argv ! 1 = show_int d" for argv
    using wp_arg_nanos [OF that r(3,1), of False "\<lambda>x w'. x = d * 1000000 \<and> w' = w" "\<lambda>_ _. False" "\<lambda>_ _. False"]
    by (auto elim: wp_totalD)
  have run2: "arg_nanos argv 2 1000000 w = Val (p * 1000000) w" if "2 < length argv" "argv ! 2 = show_int p" for argv
    using wp_arg_nanos [OF that r(4,2), of False "\<lambda>x w'. x = p * 1000000 \<and> w' = w" "\<lambda>_ _. False" "\<lambda>_ _. False"]
    by (auto elim: wp_totalD)
  have ts: "nanos_to_timespec x w = Val (ts_trunc x) w" if "in_s64 x" for x
    using wp_nanos_to_timespec [OF that, of False "\<lambda>t w'. t = ts_trunc x \<and> w' = w" "\<lambda>_ _. False" "\<lambda>_ _. False"]
    by (auto elim: wp_totalD)
  have no: "arg_nanos argv j sc w = Undef NullDeref" if "length argv \<le> j" for argv j sc
    using that by (simp add: arg_nanos_def c_undef_def)
  show ?thesis
    by (simp add: strobe_main_def c_run run [simplified] run2 ts i no)
qed

theorem strobe_missing_arguments_witness:
  "strobe_main True [''strobe-time'', show_int 200] sample_clk = Undef NullDeref"
  using strobe_missing_arguments [of 200 0] by simp

end
