(* ===== verification/Bump_Time.thy ===== *)
theory Bump_Time
  imports Strobe_Time
begin

text \<open>
  The programs that move the wall clock once: \<open>bump-time.c\<close> (nanoseconds), the CockroachDB
  test's \<open>bumptime.c\<close> (microseconds) and \<open>adjtime.c\<close> (a gradual adjustment).

  The lemmas show by how much each of them moves the clock, on a quiet system exactly and
  under latencies up to the time that passes between reading and setting, and which return
  values go with an unchanged clock.
\<close>

section \<open>bump-time.c\<close>

definition pad_zeros :: "nat \<Rightarrow> string \<Rightarrow> string" where
  "pad_zeros n s = replicate (n - length s) (CHR ''0'') @ s"

text \<open>The output format \<open>%d.%09d\<close>; both conversions read an \<open>int\<close>.\<close>

definition bump_report :: "timespec \<Rightarrow> string" where
  "bump_report t = show_int (low_int (tv_sec t)) @ ''.'' @ pad_zeros 9 (show_int (low_int (tv_nsec t)))"

definition split_delta :: "int \<Rightarrow> int \<Rightarrow> ('w, int \<times> int) prog" where
  "split_delta per delta =
     c_bind (s64_mod delta per) (\<lambda>delta_sub.
     c_bind (s64 (delta - delta_sub)) (\<lambda>d.
     c_bind (s64_div d per) (\<lambda>delta_s.
     c_val (delta_s, delta_sub))))"

definition bump_print :: "(clk, int) prog" where
  "bump_print =
     c_bind (c_lib sys_gettime_real) (\<lambda>(r, t).
     if r \<noteq> 0 then c_return 1
     else case t of None \<Rightarrow> c_undef UninitRead | Some time \<Rightarrow>
       c_bind (c_modify (clk_puts (bump_report time))) (\<lambda>_. c_return 0))"

definition bump_set :: "timespec \<Rightarrow> (clk, int) prog" where
  "bump_set time =
     c_bind (c_lib (sys_settime time)) (\<lambda>(r, _). if r \<noteq> 0 then c_return 2 else bump_print)"

definition bump_time_main :: "string list \<Rightarrow> (clk, int) prog" where
  "bump_time_main argv =
     c_call
      (if length argv < 2 then c_return 1
       else
         c_bind (arg_nanos argv 1 1000000) (\<lambda>delta.
         c_bind (split_delta 1000000000 delta) (\<lambda>(delta_s, delta_ns).
         c_bind (c_lib sys_gettime_real) (\<lambda>(r, t).
         if r \<noteq> 0 then c_return 1
         else case t of None \<Rightarrow> c_undef UninitRead | Some time \<Rightarrow>
           c_bind (s64 (tv_sec time + delta_s)) (\<lambda>s.
           c_bind (s64 (tv_nsec time + delta_ns)) (\<lambda>n.
           c_bind (rebalance 1000000000 (s, n)) (\<lambda>(s, n).
           bump_set \<lparr>tv_sec = s, tv_nsec = n\<rparr>)))))))"

section \<open>bumptime.c\<close>

definition bumptime_set :: "timeval \<Rightarrow> timezone \<Rightarrow> (clk, int) prog" where
  "bumptime_set time z =
     c_bind (c_lib (sys_settimeofday time z)) (\<lambda>(r, _). if r \<noteq> 0 then c_return 2 else c_return 0)"

definition bumptime_main :: "string list \<Rightarrow> (clk, int) prog" where
  "bumptime_main argv =
     c_call
      (if length argv < 2 then c_return 1
       else
         c_bind (arg_nanos argv 1 1000) (\<lambda>delta.
         c_bind (split_delta 1000000 delta) (\<lambda>(delta_s, delta_us).
         c_bind (c_lib sys_gettimeofday) (\<lambda>(r, t).
         if r \<noteq> 0 then c_return 1
         else case t of None \<Rightarrow> c_undef UninitRead | Some (time, z) \<Rightarrow>
           c_bind (s64 (tv_usec time + delta_us)) (\<lambda>n.
           c_bind (s64 (tvu_sec time + delta_s)) (\<lambda>s.
           c_bind (rebalance 1000000 (s, n)) (\<lambda>(s, n).
           bumptime_set \<lparr>tvu_sec = s, tv_usec = n\<rparr> z)))))))"

section \<open>adjtime.c\<close>

definition adjtime_main :: "string list \<Rightarrow> (clk, int) prog" where
  "adjtime_main argv =
     c_call
      (if length argv < 2 then c_return 1
       else
         c_bind (arg_nanos argv 1 1000) (\<lambda>usec.
         c_bind (c_lib (sys_adjtime \<lparr>tvu_sec = 0, tv_usec = usec\<rparr>)) (\<lambda>(r, _).
         if r \<noteq> 0 then c_return 1 else c_return 0)))"

section \<open>Splitting the offset\<close>

lemma wp_split_delta:
  assumes "0 < per" and "\<bar>x\<bar> \<le> 2 ^ 61"
  shows "wp u (split_delta per x) Q R X w = Q (x sdiv per, x smod per) w"
    and "\<bar>x sdiv per\<bar> \<le> \<bar>x\<bar>" "\<bar>x smod per\<bar> \<le> \<bar>x\<bar>" "x sdiv per * per + x smod per = x"
proof -
  show eq: "x sdiv per * per + x smod per = x" by (rule sdiv_mult_smod_eq)
  show q: "\<bar>x sdiv per\<bar> \<le> \<bar>x\<bar>" and m: "\<bar>x smod per\<bar> \<le> \<bar>x\<bar>"
    using div_le_self_int [of "\<bar>x\<bar>" per] zmod_le_nonneg_dividend [of "\<bar>x\<bar>" per] assms(1)
    by (simp_all add: signed_divide_int_def signed_modulo_int_def abs_mult abs_sgn_eq pos_imp_zdiv_nonneg_iff)
  have "(x sdiv per * per) sdiv per = x sdiv per"
    using assms(1) by (simp add: signed_divide_int_def sgn_mult abs_mult sgn_mult_abs)
  moreover have "in_s64 (x sdiv per)" "in_s64 (x smod per)" "in_s64 (x - x smod per)"
    using q m assms(2) by (auto simp: in_s64_def abs_le_iff)
  ultimately show "wp u (split_delta per x) Q R X w = Q (x sdiv per, x smod per) w"
    using assms(1) by (simp add: split_delta_def s64_mod_def s64_div_def minus_smod_eq_sdiv_mult)
qed

text \<open>Adding the parts of an offset to a normalised time and carrying is addition.\<close>

lemma wp_shift_time:
  assumes per: "per = 1000000000 \<or> per = 1000000" and x: "\<bar>x\<bar> \<le> 2 ^ 60" and t: "\<bar>t div per\<bar> \<le> 2 ^ 60"
  shows "in_s64 (t div per + x sdiv per)" "in_s64 (t mod per + x smod per)"
    "wp u (rebalance per (t div per + x sdiv per, t mod per + x smod per)) Q R X w = Q ((t + x) div per, (t + x) mod per) w"
proof -
  have p: "0 < per" using per by auto
  have x61: "\<bar>x\<bar> \<le> 2 ^ 61" using x by simp
  note d = wp_split_delta(2-4) [OF p x61]
  have m: "0 \<le> t mod per" "t mod per \<le> 1000000000" using per by auto
  have b: "\<bar>t div per + x sdiv per\<bar> \<le> 2 ^ 61" "\<bar>t mod per + x smod per\<bar> \<le> 2 ^ 61"
    using d(1,2) x t m by (auto simp: abs_le_iff)
  then show "in_s64 (t div per + x sdiv per)" "in_s64 (t mod per + x smod per)"
    by (auto simp: in_s64_def abs_le_iff)
  have "(t div per + x sdiv per) * per + (t mod per + x smod per) = (t div per * per + t mod per) + (x sdiv per * per + x smod per)"
    by (simp only: distrib_right add.commute add.left_commute)
  also have "\<dots> = t + x" unfolding d(3) by simp
  finally have eq: "(t div per + x sdiv per) * per + (t mod per + x smod per) = t + x" .
  show "wp u (rebalance per (t div per + x sdiv per, t mod per + x smod per)) Q R X w = Q ((t + x) div per, (t + x) mod per) w"
    using per
  proof
    assume "per = 1000000000"
    from nanos.wp_rebalance [OF b, of u Q R X w] eq show ?thesis unfolding \<open>per = 1000000000\<close> by simp
  next
    assume "per = 1000000"
    from micros.wp_rebalance [OF b, of u Q R X w] eq show ?thesis unfolding \<open>per = 1000000\<close> by simp
  qed
qed

lemma abs_div_le: "0 < per \<Longrightarrow> \<bar>t\<bar> \<le> K * per \<Longrightarrow> \<bar>(t::int) div per\<bar> \<le> K"
  using le_zdiv_iff [of per "- K" t] le_zdiv_iff [of per "K + 1" t]
  by (auto simp: abs_le_iff distrib_right)

text \<open>A failing call is an outcome the programs handle.\<close>

lemma wp_clock_call:
  assumes "lags_le True L w" and "\<And>w'. passes L w w' \<Longrightarrow> Q (-1, a) w'"
    and "\<And>w' x w''. passes L w w' \<Longrightarrow> op w' = (x, w'') \<Longrightarrow> Q x w''"
  shows "wp u (c_lib (clock_call a op)) Q R X w"
  using assms(1) by (rule clock_call_cases [where a = a and op = op]) (auto simp: wp_lib assms(2,3) split: prod.splits)

text \<open>Only the clocks, the plan and the output have moved on.\<close>

definition bump_post :: "int \<Rightarrow> int \<Rightarrow> clk \<Rightarrow> int \<Rightarrow> clk \<Rightarrow> bool" where
  "bump_post D K w v w' \<longleftrightarrow>
     mono w \<le> mono w' \<and> mono w' + lag w' = mono w + lag w \<and> set (plan w') \<subseteq> set (plan w) \<and>
     (v = 0 \<and> \<bar>skew w' - (skew w + D)\<bar> \<le> K \<or>
      v = 2 \<and> skew w' = skew w \<or>
      v = 1 \<and> (skew w' = skew w \<or> \<bar>skew w' - (skew w + D)\<bar> \<le> K))"

lemma wp_bump_print:
  assumes "lags_le True L w1" and "\<bar>skew w1 - (skew w + D)\<bar> \<le> K"
    and "mono w \<le> mono w1" "mono w1 + lag w1 = mono w + lag w" "set (plan w1) \<subseteq> set (plan w)"
  shows "wp False bump_print Q (bump_post D K w) X w1"
  unfolding bump_print_def wp_bind sys_gettime_real_def
  by (rule wp_clock_call [OF assms(1)]) (use assms(2-) in \<open>auto simp: bump_post_def passes_def clk_puts_def lag_def\<close>)

lemma wp_bump_set:
  assumes "lags_le True L w1" and p: "passes K w w1" and K: "t = wall w1 + D"
  shows "wp False (bump_set (ts_of t)) Q (bump_post D L w) X w1"
  unfolding bump_set_def wp_bind sys_settime_def
proof (rule wp_clock_call [OF assms(1)], goal_cases)
  case (1 w2)
  with p show ?case by (auto simp: bump_post_def passes_def)
next
  case (2 w2 x w3)
  have "\<bar>wall w1 + D - mono w2 - (skew w + D)\<bar> \<le> L" using p 2(1) by (auto simp: passes_def)
  moreover have "lags_le True L w2" using lags_le_passes [OF 2(1) assms(1)] .
  ultimately show ?case
    using 2 p wp_bump_print [of L "w2\<lparr>skew := wall w1 + D - mono w2\<rparr>" w D L] K
    by (auto simp: bump_post_def passes_def split: if_splits)
qed

lemma wp_bump_time:
  assumes lags: "lags_le True L w" and argv: "1 < length argv" "argv ! 1 = show_int d" and d: "\<bar>d\<bar> \<le> 10 ^ 9"
    and b: "0 \<le> mono w" "mono w + lag w \<le> 2 ^ 62" "\<bar>skew w\<bar> \<le> 2 ^ 62"
  shows "wp False (bump_time_main argv) (bump_post (d * 1000000) L w) R X w"
proof -
  let ?D = "d * 1000000"
  have D: "\<bar>?D\<bar> \<le> 2 ^ 60" "\<bar>?D\<bar> \<le> 2 ^ 61" "\<bar>d\<bar> < 2 ^ 53" "\<bar>?D\<bar> < 2 ^ 53" "\<not> length argv < 2" "(0::int) < 1000000000"
    using d argv(1) by auto
  show ?thesis
    unfolding bump_time_main_def wp_call wp_if if_not_P [OF D(5)] wp_bind wp_arg_nanos [OF argv D(3,4)]
      wp_split_delta(1) [OF D(6,2)] prod.case sys_gettime_real_def
  proof (rule wp_clock_call [OF lags], goal_cases)
    case (1 w1)
    then show ?case by (simp add: bump_post_def passes_def)
  next
    case (2 w1 x w2)
    have "\<bar>wall w1\<bar> \<le> 2 ^ 60 * 1000000000" using 2(1) b lag_nonneg [of w1] by (auto simp: passes_def)
    note sh = wp_shift_time [of 1000000000, OF _ D(1) abs_div_le [OF D(6) this], simplified]
    have x: "x = (0, Some (ts_of (wall w1)))" "w2 = w1" using 2(2) by auto
    show ?case
      unfolding x using sh(1,2) wp_bump_set [OF lags_le_passes [OF 2(1) lags] 2(1) refl, of ?D]
      by (simp add: sh(3) ts_of_def)
  qed
qed

definition bumptime_post :: "int \<Rightarrow> int \<Rightarrow> clk \<Rightarrow> int \<Rightarrow> clk \<Rightarrow> bool" where
  "bumptime_post D K w v w' \<longleftrightarrow> tz w' = tz w \<and>
     (v = 0 \<and> \<bar>skew w' - (skew w + D)\<bar> \<le> K \<or> v \<in> {1, 2} \<and> skew w' = skew w)"

lemma wp_bumptime_set:
  assumes "lags_le True L w1" and p: "passes K w w1" and t: "t = wall w1 div 1000 + d * 1000"
  shows "wp False (bumptime_set \<lparr>tvu_sec = t div 1000000, tv_usec = t mod 1000000\<rparr> (tz w1)) Q
    (\<lambda>v w'. bumptime_post (d * 1000000) (L + 999) w v w') X w1"
  unfolding bumptime_set_def wp_bind sys_settimeofday_def tv_nanos_micros
proof (rule wp_clock_call [OF assms(1)], goal_cases)
  case (1 w2)
  with p show ?case by (simp add: bumptime_post_def passes_def)
next
  case (2 w2 x w3)
  have "t * 1000 = wall w1 - wall w1 mod 1000 + d * 1000000"
    by (simp add: t minus_mod_eq_div_mult distrib_right)
  moreover have "0 \<le> wall w1 mod 1000" "wall w1 mod 1000 \<le> 999" by simp_all
  ultimately have "\<bar>t * 1000 - mono w2 - (skew w + d * 1000000)\<bar> \<le> L + 999"
    using 2(1) p by (auto simp: passes_def)
  with 2 p show ?case by (auto simp: bumptime_post_def passes_def split: if_splits)
qed

lemma wp_bumptime:
  assumes lags: "lags_le True L w" and argv: "1 < length argv" "argv ! 1 = show_int d" and d: "\<bar>d\<bar> \<le> 10 ^ 9"
    and b: "0 \<le> mono w" "mono w + lag w \<le> 2 ^ 62" "\<bar>skew w\<bar> \<le> 2 ^ 62"
  shows "wp False (bumptime_main argv) (\<lambda>v w'. bumptime_post (d * 1000000) (L + 999) w v w') R X w"
proof -
  let ?D = "d * 1000"
  have D: "\<bar>?D\<bar> \<le> 2 ^ 60" "\<bar>?D\<bar> \<le> 2 ^ 61" "\<bar>d\<bar> < 2 ^ 53" "\<bar>?D\<bar> < 2 ^ 53" "\<not> length argv < 2" "(0::int) < 1000000"
    using d argv(1) by auto
  show ?thesis
    unfolding bumptime_main_def wp_call wp_if if_not_P [OF D(5)] wp_bind wp_arg_nanos [OF argv D(3,4)]
      wp_split_delta(1) [OF D(6,2)] prod.case sys_gettimeofday_def
  proof (rule wp_clock_call [OF lags], goal_cases)
    case (1 w1)
    then show ?case by (simp add: bumptime_post_def passes_def)
  next
    case (2 w1 x w2)
    let ?t = "wall w1 div 1000"
    have "\<bar>wall w1\<bar> \<le> 2 ^ 60 * 1000000 * 1000" using 2(1) b lag_nonneg [of w1] by (auto simp: passes_def)
    then have t: "\<bar>?t\<bar> \<le> 2 ^ 60 * 1000000" by (intro abs_div_le) simp_all
    note sh = wp_shift_time [of 1000000, OF _ D(1) abs_div_le [OF D(6) t], simplified]
    have x: "x = (0, Some (\<lparr>tvu_sec = ?t div 1000000, tv_usec = ?t mod 1000000\<rparr>, tz w1))" "w2 = w1"
      using 2(2) by (auto simp: tv_of_micros)
    show ?case
      unfolding x using sh(1,2) wp_bumptime_set [OF lags_le_passes [OF 2(1) lags] 2(1) refl, of d]
      by (simp add: sh(3))
  qed
qed

text \<open>Reading back the nine digits of the fraction.\<close>

lemma digits_val_zeros: "digits_val 10 (replicate n (CHR ''0'') @ s) = digits_val 10 s"
proof (induction n)
  case (Suc n)
  have "digit_val (CHR ''0'') = Some 0" by (simp add: digit_val_def)
  then have "digits_val 10 (CHR ''0'' # t) = digits_val 10 t" for t by (simp add: digits_val_def)
  with Suc show ?case by simp
qed simp

text \<open>The program on a quiet system.\<close>

lemma bump_time_quiet:
  assumes "plan w = []" and "\<bar>d\<bar> \<le> 10 ^ 9" and "\<bar>wall w\<bar> \<le> 2 ^ 62" and "valid_time w (wall w + d * 1000000)"
  shows "bump_time_main [prog, show_int d] w =
    Val 0 (w\<lparr>skew := skew w + d * 1000000, clk_out := clk_out w @ [bump_report (ts_of (wall w + d * 1000000))]\<rparr>)"
proof -
  let ?D = "d * 1000000"
  have D: "\<bar>?D\<bar> \<le> 2 ^ 60" "\<bar>?D\<bar> \<le> 2 ^ 61" "\<bar>d\<bar> < 2 ^ 53" "\<bar>?D\<bar> < 2 ^ 53" "(0::int) < 1000000000"
    using assms(2) by auto
  have argv: "1 < length [prog, show_int d]" "[prog, show_int d] ! 1 = show_int d" "\<not> length [prog, show_int d] < 2"
    by simp_all
  have "\<bar>wall w\<bar> \<le> 2 ^ 60 * 1000000000" using assms(3) by simp
  note sh = wp_shift_time [of 1000000000, OF _ D(1) abs_div_le [OF D(5) this], simplified]
  have "sys_gettime_real w = ((0, Some (ts_of (wall w))), w)"
    using assms(1) by (simp add: sys_gettime_real_def clock_call_def)
  moreover have "sys_settime (ts_of (wall w + ?D)) w = ((0, ()), w\<lparr>skew := skew w + ?D\<rparr>)"
    using assms(1,4) by (simp add: sys_settime_def clock_call_def)
  moreover have "sys_gettime_real (w\<lparr>skew := skew w + ?D\<rparr>) = ((0, Some (ts_of (wall w + ?D))), w\<lparr>skew := skew w + ?D\<rparr>)"
    using assms(1) by (simp add: sys_gettime_real_def clock_call_def add.assoc)
  ultimately have "wp False (bump_time_main [prog, show_int d])
    (\<lambda>v w'. v = 0 \<and> w' = w\<lparr>skew := skew w + ?D, clk_out := clk_out w @ [bump_report (ts_of (wall w + ?D))]\<rparr>)
    (\<lambda>_ _. False) (\<lambda>_ _. False) w"
    unfolding bump_time_main_def wp_call wp_if if_not_P [OF argv(3)] wp_bind wp_arg_nanos [OF argv(1,2) D(3,4)]
      wp_split_delta(1) [OF D(5,2)] prod.case
    using sh(1,2) by (simp add: wp_lib sh(3) bump_set_def bump_print_def ts_of_def [symmetric] clk_puts_def)
  then show ?thesis by (rule wp_totalD) auto
qed

section \<open>Properties\<close>

text \<open>C17: Bumping the clock by a whole number of milliseconds, on any plan with latencies of at most
  \<open>L\<close> per call: the program always returns, without undefined behaviour.  When it returns zero the
  wall clock was moved by the requested amount, up to one latency; when it returns two the clock
  was not moved; when it returns one, the clock either was not moved or was moved correctly and
  could not be read for printing.\<close>

theorem bump_time_moves_clock:
  assumes "\<forall>e \<in> set (plan w). int (fst e) \<le> L" "0 \<le> L" and "\<bar>d\<bar> \<le> 10 ^ 9"
    and "0 \<le> mono w" "mono w + lag w \<le> 2 ^ 62" "\<bar>skew w\<bar> \<le> 2 ^ 62"
  shows "\<exists>v w'. bump_time_main [prog, show_int d] w = Val v w' \<and>
    (v = 0 \<and> \<bar>skew w' - (skew w + d * 1000000)\<bar> \<le> L \<or>
     v = 2 \<and> skew w' = skew w \<or>
     v = 1 \<and> (skew w' = skew w \<or> \<bar>skew w' - (skew w + d * 1000000)\<bar> \<le> L))"
proof -
  have "lags_le True L w" using assms(1,2) by (simp add: lags_le_def)
  then have "wp False (bump_time_main [prog, show_int d]) (bump_post (d * 1000000) L w) (\<lambda>_ _. False) (\<lambda>_ _. False) w"
    using assms by (intro wp_bump_time) simp_all
  then show ?thesis unfolding bump_post_def by (rule wp_totalD) blast
qed

theorem bump_time_moves_clock_witness:
  "\<exists>v w'. bump_time_main [''bump-time'', show_int (- 250)] sample_clk = Val v w' \<and>
    (v = 0 \<and> \<bar>skew w' - (1700000000000000123 - 250000000)\<bar> \<le> 0 \<or> v = 2 \<and> skew w' = 1700000000000000123 \<or>
     v = 1 \<and> (skew w' = 1700000000000000123 \<or> \<bar>skew w' - (1700000000000000123 - 250000000)\<bar> \<le> 0))"
  using bump_time_moves_clock [of sample_clk 0 "- 250" "''bump-time''"]
  by (simp add: sample_clk_def lag_def)

text \<open>C24: On a quiet system, when the kernel accepts the new time, the wall clock moves by exactly the
  requested number of milliseconds, the monotonic clock does not move, and the new wall time is
  printed.\<close>

theorem bump_time_quiet_exact:
  assumes "plan w = []" and "\<bar>d\<bar> \<le> 10 ^ 9" and "\<bar>wall w\<bar> \<le> 2 ^ 62" and "valid_time w (wall w + d * 1000000)"
  shows "bump_time_main [prog, show_int d] w =
    Val 0 (w\<lparr>skew := skew w + d * 1000000, clk_out := clk_out w @ [bump_report (ts_of (wall w + d * 1000000))]\<rparr>)"
  using assms by (rule bump_time_quiet)

theorem bump_time_quiet_exact_witness:
  "bump_time_main [''bump-time'', show_int (- 250)] sample_clk =
    Val 0 (sample_clk\<lparr>skew := 1700000000000000123 - 250000000, clk_out := [bump_report (ts_of (1700000004750000123))]\<rparr>)"
  using bump_time_quiet_exact [of sample_clk "- 250" "''bump-time''"]
  by (simp add: sample_clk_def valid_time_def)

text \<open>Until 2038 the printed time is the decimal number of seconds with exactly nine digits of
  nanoseconds; a second count of two to the thirty-first is printed as a negative number, because
  the format reads an \<open>int\<close>.\<close>

theorem bump_report_format:
  assumes "0 \<le> tv_nsec t" "tv_nsec t < 1000000000"
  shows "\<exists>frac. bump_report t = show_int (low_int (tv_sec t)) @ ''.'' @ frac \<and>
    length frac = 9 \<and> int (digits_val 10 frac) = tv_nsec t \<and>
    (0 \<le> tv_sec t \<and> tv_sec t < 2 ^ 31 \<longrightarrow> low_int (tv_sec t) = tv_sec t) \<and>
    (tv_sec t = 2 ^ 31 \<longrightarrow> low_int (tv_sec t) = - (2 ^ 31))"
proof (intro exI conjI)
  let ?s = "show_int (low_int (tv_nsec t))"
  have n: "?s = show_nat (nat (tv_nsec t))" using assms by (simp add: low_int_small show_int_def)
  have "length ?s \<le> 9" unfolding n using assms length_show_nat [of "nat (tv_nsec t)" 8] by simp
  then show "length (pad_zeros 9 ?s) = 9" by (simp add: pad_zeros_def)
  show "int (digits_val 10 (pad_zeros 9 ?s)) = tv_nsec t"
    using assms by (simp add: pad_zeros_def digits_val_zeros n)
  show "tv_sec t = 2 ^ 31 \<longrightarrow> low_int (tv_sec t) = - (2 ^ 31)" by (simp add: low_int_def)
qed (auto simp: bump_report_def low_int_small)

theorem bump_report_format_witness:
  "\<exists>frac. bump_report (ts_of 1000000005) = show_int (low_int 1) @ ''.'' @ frac \<and> length frac = 9 \<and> digits_val 10 frac = 5"
  using bump_report_format [of "ts_of 1000000005"] by auto

text \<open>C33: The CockroachDB variant, on any plan: it always returns, without undefined behaviour, and
  keeps the time zone.  When it returns zero the wall clock was moved by the requested number of
  milliseconds, up to one latency and less than a microsecond of truncation; otherwise it was not moved.\<close>

theorem bumptime_moves_clock:
  assumes "\<forall>e \<in> set (plan w). int (fst e) \<le> L" "0 \<le> L" and "\<bar>d\<bar> \<le> 10 ^ 9"
    and "0 \<le> mono w" "mono w + lag w \<le> 2 ^ 62" "\<bar>skew w\<bar> \<le> 2 ^ 62"
  shows "\<exists>v w'. bumptime_main [prog, show_int d] w = Val v w' \<and> tz w' = tz w \<and>
    (v = 0 \<and> \<bar>skew w' - (skew w + d * 1000000)\<bar> \<le> L + 999 \<or> v \<in> {1, 2} \<and> skew w' = skew w)"
proof -
  have "lags_le True L w" using assms(1,2) by (simp add: lags_le_def)
  then have "wp False (bumptime_main [prog, show_int d])
      (bumptime_post (d * 1000000) (L + 999) w) (\<lambda>_ _. False) (\<lambda>_ _. False) w"
    using assms by (intro wp_bumptime) simp_all
  then show ?thesis unfolding bumptime_post_def by (rule wp_totalD) blast
qed

theorem bumptime_moves_clock_witness:
  "\<exists>v w'. bumptime_main [''bumptime'', show_int 100] sample_clk = Val v w' \<and> tz w' = (0, 0)"
  using bumptime_moves_clock [of sample_clk 0 100 "''bumptime''"]
  by (auto simp: sample_clk_def lag_def)

text \<open>C37: The gradual adjustment: with a whole number of milliseconds the program never has undefined
  behaviour and never steps a clock; it returns zero exactly when the kernel accepted a slew of that
  many milliseconds (in microseconds, with a seconds field of zero), and else one with no slew requested.\<close>

theorem adjtime_requests_slew:
  assumes "\<bar>d\<bar> \<le> 10 ^ 9"
  shows "\<exists>v w'. adjtime_main [prog, show_int d] w = Val v w' \<and> skew w' = skew w \<and>
    (v = 0 \<and> slew w' = Some \<lparr>tvu_sec = 0, tv_usec = d * 1000\<rparr> \<or> v = 1 \<and> slew w' = slew w)"
proof -
  have D: "\<bar>d\<bar> < 2 ^ 53" "\<bar>d * 1000\<bar> < 2 ^ 53" using assms by auto
  have argv: "1 < length [prog, show_int d]" "[prog, show_int d] ! 1 = show_int d" "\<not> length [prog, show_int d] < 2"
    by simp_all
  have "wp False (adjtime_main [prog, show_int d]) (\<lambda>v w'. skew w' = skew w \<and>
      (v = 0 \<and> slew w' = Some \<lparr>tvu_sec = 0, tv_usec = d * 1000\<rparr> \<or> v = 1 \<and> slew w' = slew w))
      (\<lambda>_ _. False) (\<lambda>_ _. False) w"
    unfolding adjtime_main_def wp_call wp_if if_not_P [OF argv(3)] wp_bind wp_arg_nanos [OF argv(1,2) D]
    by (auto simp: wp_lib sys_adjtime_def clock_call_def Let_def split: list.split prod.split)
  then show ?thesis by (rule wp_totalD) blast
qed

theorem adjtime_requests_slew_witness:
  "\<exists>v w'. adjtime_main [''adjtime'', show_int (- 3)] sample_clk = Val v w' \<and>
    (v = 0 \<and> slew w' = Some \<lparr>tvu_sec = 0, tv_usec = - 3000\<rparr> \<or> v = 1 \<and> slew w' = None)"
  using adjtime_requests_slew [of "- 3" "''adjtime''" sample_clk] by (auto simp: sample_clk_def)

text \<open>Bumping the clock and bumping it back by the same number of milliseconds restores the wall clock exactly, on a quiet
  system whose kernel accepts both times; the two runs print the shifted and the original time.\<close>

theorem bump_there_and_back:
  assumes "plan w = []" and "\<bar>d\<bar> \<le> 10 ^ 9" and "0 \<le> mono w" "mono w \<le> 2 ^ 60" "\<bar>skew w\<bar> \<le> 2 ^ 60"
    and "valid_time w (wall w + d * 1000000)" and "valid_time w (wall w)"
  shows "c_bind (bump_time_main [prog, show_int d]) (\<lambda>_. bump_time_main [prog, show_int (- d)]) w =
    Val 0 (w\<lparr>clk_out := clk_out w @ [bump_report (ts_of (wall w + d * 1000000)), bump_report (ts_of (wall w))]\<rparr>)"
proof -
  let ?w = "w\<lparr>skew := skew w + d * 1000000, clk_out := clk_out w @ [bump_report (ts_of (wall w + d * 1000000))]\<rparr>"
  have "\<bar>wall w\<bar> \<le> 2 ^ 62" "\<bar>wall ?w\<bar> \<le> 2 ^ 62" using assms(2-5) by (auto simp: abs_le_iff)
  moreover have "valid_time ?w (wall ?w + - d * 1000000)" using assms(7) by (simp add: valid_time_def)
  ultimately have "bump_time_main [prog, show_int d] w = Val 0 ?w"
    "bump_time_main [prog, show_int (- d)] ?w = Val 0 (?w\<lparr>skew := skew ?w + - d * 1000000,
       clk_out := clk_out ?w @ [bump_report (ts_of (wall ?w + - d * 1000000))]\<rparr>)"
    using assms by (intro bump_time_quiet; simp)+
  then show ?thesis by (simp add: c_bind_def)
qed

theorem bump_there_and_back_witness:
  "c_bind (bump_time_main [''bump-time'', show_int 250]) (\<lambda>_. bump_time_main [''bump-time'', show_int (- 250)])
      (sample_clk\<lparr>skew := 17000000000000123\<rparr>) =
    Val 0 (sample_clk\<lparr>skew := 17000000000000123, clk_out :=
      [bump_report (ts_of 17000005250000123), bump_report (ts_of 17000005000000123)]\<rparr>)"
  using bump_there_and_back [of "sample_clk\<lparr>skew := 17000000000000123\<rparr>" 250 "''bump-time''"]
  by (simp add: sample_clk_def valid_time_def)

end
