(* ===== verification/Strobe_Experiment.thy ===== *)
theory Strobe_Experiment
  imports Strobe_Time
begin

text \<open>
  \<open>strobe-time-experiment.c\<close>: the variant of \<open>strobe-time.c\<close> that works with the time of day in
  microseconds.  It repeats the timespec arithmetic, the comparator and the read of the monotonic clock of
  \<open>strobe-time.c\<close>; they are written out here as well and \<open>exp_shared\<close> shows that they are the
  same functions, so the loop \<open>strobe_for\<close> of \<open>main\<close>, whose text is the same too, is shared.
  What the file changes is the access to the wall clock, and it adds a conversion back to nanoseconds and a
  remainder.  (The file as a whole is not a valid program: \<open>timespec_to_nanos\<close> has two names
  after its type, and \<open>next_tick\<close> and \<open>sleep_until_next_tick\<close>, which \<open>main\<close> does not
  call, pass the wrong number of arguments and name an undeclared \<open>null\<close>.  The functions
  modelled here are those whose text has a meaning.)

  The interpretation \<open>daytime\<close> of \<open>wall_access\<close> carries the results about the strobing
  loop over, with less than a microsecond of truncation for each access.
\<close>

section \<open>The functions repeated from \<open>strobe-time.c\<close>\<close>

definition exp_nanos_to_timespec :: "int \<Rightarrow> ('w, timespec) prog" where
  "exp_nanos_to_timespec nanos =
     c_bind (s64_mod nanos NANOS_PER_SEC) (\<lambda>dnanos.
     c_bind (s64 (nanos - dnanos)) (\<lambda>d.
     c_bind (s64_div d NANOS_PER_SEC) (\<lambda>dseconds.
     c_val \<lparr>tv_sec = dseconds, tv_nsec = dnanos\<rparr>)))"

definition exp_monotonic_now :: "(clk, timespec) prog" where
  "exp_monotonic_now =
     c_bind (c_lib sys_gettime_mono) (\<lambda>(_, t).
       case t of None \<Rightarrow> c_undef UninitRead | Some t \<Rightarrow> c_val t)"

definition exp_balance_timespec_m :: "timespec \<Rightarrow> ('w, timespec) prog" where
  "exp_balance_timespec_m t =
     c_bind (rebalance NANOS_PER_SEC (tv_sec t, tv_nsec t)) (\<lambda>(s, n).
     c_val \<lparr>tv_sec = s, tv_nsec = n\<rparr>)"

definition exp_add_timespec :: "timespec \<Rightarrow> timespec \<Rightarrow> ('w, timespec) prog" where
  "exp_add_timespec a b =
     c_bind (s64 (tv_sec a + tv_sec b)) (\<lambda>s.
     c_bind (s64 (tv_nsec a + tv_nsec b)) (\<lambda>n.
     exp_balance_timespec_m \<lparr>tv_sec = s, tv_nsec = n\<rparr>))"

definition exp_sub_timespec :: "timespec \<Rightarrow> timespec \<Rightarrow> ('w, timespec) prog" where
  "exp_sub_timespec a b =
     c_bind (s64 (tv_sec a - tv_sec b)) (\<lambda>s.
     c_bind (s64 (tv_nsec a - tv_nsec b)) (\<lambda>n.
     exp_balance_timespec_m \<lparr>tv_sec = s, tv_nsec = n\<rparr>))"

definition exp_cmp_timespec :: "timespec \<Rightarrow> timespec \<Rightarrow> int" where
  "exp_cmp_timespec a b =
     (if tv_sec a < tv_sec b then 1
      else if tv_sec b < tv_sec a then -1
      else if tv_nsec a < tv_nsec b then 1
      else if tv_nsec b < tv_nsec a then -1
      else 0)"

lemma exp_shared:
  "exp_nanos_to_timespec = nanos_to_timespec" "exp_monotonic_now = monotonic_now"
  "exp_balance_timespec_m = balance_timespec_m" "exp_add_timespec = add_timespec"
  "exp_sub_timespec = sub_timespec" "exp_cmp_timespec = cmp_timespec"
proof -
  show b: "exp_balance_timespec_m = (balance_timespec_m :: timespec \<Rightarrow> ('w, timespec) prog)"
    by (simp add: fun_eq_iff exp_balance_timespec_m_def balance_timespec_m_def)
qed (simp_all add: fun_eq_iff exp_nanos_to_timespec_def nanos_to_timespec_def exp_monotonic_now_def monotonic_now_def
    exp_add_timespec_def add_timespec_def exp_sub_timespec_def sub_timespec_def exp_balance_timespec_m_def
    balance_timespec_m_def exp_cmp_timespec_def cmp_timespec_def)

section \<open>Conversions\<close>

definition timespec_to_nanos :: "timespec \<Rightarrow> ('w, int) prog" where
  "timespec_to_nanos t =
     c_bind (s64 (tv_sec t * NANOS_PER_SEC)) (\<lambda>nanos. s64 (nanos + tv_nsec t))"

definition TIMEVAL_TO_TIMESPEC :: "timeval \<Rightarrow> ('w, timespec) prog" where
  "TIMEVAL_TO_TIMESPEC tv =
     c_bind (s64 (tv_usec tv * 1000)) (\<lambda>n. c_val \<lparr>tv_sec = tvu_sec tv, tv_nsec = n\<rparr>)"

definition TIMESPEC_TO_TIMEVAL :: "timespec \<Rightarrow> ('w, timeval) prog" where
  "TIMESPEC_TO_TIMEVAL ts =
     c_bind (s64_div (tv_nsec ts) 1000) (\<lambda>n. c_val \<lparr>tvu_sec = tv_sec ts, tv_usec = n\<rparr>)"

definition mod_timespec :: "timespec \<Rightarrow> timespec \<Rightarrow> ('w, timespec) prog" where
  "mod_timespec a n =
     c_bind (timespec_to_nanos a) (\<lambda>x.
     c_bind (timespec_to_nanos n) (\<lambda>y.
     c_bind (s64_mod x y) exp_nanos_to_timespec))"

section \<open>Clock access\<close>

definition exp_wall_now :: "(clk, timespec) prog" where
  "exp_wall_now =
     c_bind (c_lib sys_gettimeofday) (\<lambda>(r, t).
       if r \<noteq> 0 then c_exit 1
       else case t of None \<Rightarrow> c_undef UninitRead | Some (tv, _) \<Rightarrow> TIMEVAL_TO_TIMESPEC tv)"

definition wall_tz :: "(clk, timezone) prog" where
  "wall_tz =
     c_bind (c_lib sys_gettimeofday) (\<lambda>(r, t).
       if r \<noteq> 0 then c_exit 1
       else case t of None \<Rightarrow> c_undef UninitRead | Some (_, z) \<Rightarrow> c_val z)"

definition exp_set_wall_clock :: "timezone \<Rightarrow> timespec \<Rightarrow> (clk, unit) prog" where
  "exp_set_wall_clock z ts =
     c_bind (TIMESPEC_TO_TIMEVAL ts) (\<lambda>tv.
     c_bind (c_lib (sys_settimeofday tv z)) (\<lambda>(r, _). if r \<noteq> 0 then c_exit 2 else c_val ()))"

section \<open>The program\<close>

definition exp_current_offset :: "bool \<Rightarrow> (clk, timespec) prog" where
  "exp_current_offset wall_first =
     (if wall_first then c_bind exp_wall_now (\<lambda>a. c_bind exp_monotonic_now (\<lambda>b. exp_sub_timespec a b))
      else c_bind exp_monotonic_now (\<lambda>b. c_bind exp_wall_now (\<lambda>a. exp_sub_timespec a b)))"

definition exp_clock :: "bool \<Rightarrow> timespec \<Rightarrow> timespec \<Rightarrow> timespec \<Rightarrow> (clk, int) prog" where
  "exp_clock wall_first delta period duration =
     c_bind (exp_current_offset wall_first) (\<lambda>normal_offset.
     c_bind (exp_add_timespec normal_offset delta) (\<lambda>weird_offset.
     c_bind wall_tz (\<lambda>z.
     strobe_for (exp_set_wall_clock z) normal_offset weird_offset period duration)))"

definition exp_main :: "bool \<Rightarrow> string list \<Rightarrow> (clk, int) prog" where
  "exp_main wall_first argv =
     c_call
      (if length argv < 2 then c_return 1
       else
         c_bind (arg_nanos argv 1 1000000) (\<lambda>a. c_bind (exp_nanos_to_timespec a) (\<lambda>delta.
         c_bind (arg_nanos argv 2 1000000) (\<lambda>b. c_bind (exp_nanos_to_timespec b) (\<lambda>period.
         c_bind (arg_nanos argv 3 1000000000) (\<lambda>c. c_bind (exp_nanos_to_timespec c) (\<lambda>duration.
         exp_clock wall_first delta period duration)))))))"

lemma exp_current_offset: "exp_current_offset = current_offset exp_wall_now"
  by (simp add: fun_eq_iff exp_current_offset_def current_offset_def exp_shared)

section \<open>Truncation to microseconds\<close>

lemma in_s64_micros: "in_s64 (x div 1000 mod 1000000 * 1000)"
proof -
  have "0 \<le> x div 1000 mod 1000000" "x div 1000 mod 1000000 < 1000000" by simp_all
  then show ?thesis unfolding in_s64_def by linarith
qed

lemma ts_of_micros: "ts_of (t * 1000) = \<lparr>tv_sec = t div 1000000, tv_nsec = t mod 1000000 * 1000\<rparr>"
  using div_mult_mult2 [of 1000 t 1000000] mod_mult_mult2 [of t 1000 1000000] by (simp add: ts_of_def)

lemma wp_timeval_to_timespec:
  "wp u (TIMEVAL_TO_TIMESPEC (tv_of x)) Q R X w = Q (ts_of (x div 1000 * 1000)) w"
  using in_s64_micros [of x] by (simp add: TIMEVAL_TO_TIMESPEC_def tv_of_micros ts_of_micros)

lemma wp_timespec_to_timeval: "wp u (TIMESPEC_TO_TIMEVAL (ts_of x)) Q R X w = Q (tv_of x) w"
proof -
  have "0 \<le> x mod 1000000000" "in_s64 (x mod 1000000000)" by (simp_all add: in_s64_def order_trans [of _ 0])
  then show ?thesis by (simp add: TIMESPEC_TO_TIMEVAL_def wp_s64_div_nonneg tv_of_def)
qed

lemma floor_micros: "x - 999 \<le> x div 1000 * 1000" "x div 1000 * 1000 \<le> (x::int)"
  using minus_mod_eq_div_mult [of x 1000] pos_mod_bound [of 1000 x] pos_mod_sign [of 1000 x] by linarith+

lemma tv_nanos_of: "tv_nanos (tv_of x) = x div 1000 * 1000"
  by (simp add: tv_of_micros tv_nanos_micros)

interpretation daytime: wall_access exp_wall_now "exp_set_wall_clock z" 999 for z
proof unfold_locales
  fix u L w Q R and X :: "int \<Rightarrow> clk \<Rightarrow> bool"
  assume a: "lags_le u L w" "\<And>w' x. passes L w w' \<Longrightarrow> wall w' - 999 \<le> x \<Longrightarrow> x \<le> wall w' \<Longrightarrow> Q (ts_of x) w'" "\<And>w'. passes L w w' \<Longrightarrow> X 1 w'"
  show "wp u exp_wall_now Q R X w"
    using a(1)
    by (rule clock_call_cases [where a = "None :: (timeval \<times> timezone) option" and
          op = "\<lambda>w. ((0, Some (tv_of (wall w), tz w)), w)"])
      (auto simp: exp_wall_now_def wp_lib sys_gettimeofday_def wp_timeval_to_timespec floor_micros a(2,3))
next
  fix u L w x Q' R and X :: "int \<Rightarrow> clk \<Rightarrow> bool"
  assume a: "lags_le u L w" "\<And>w'. wall_set L 999 x w w' \<Longrightarrow> Q' () w'" "\<And>w'. passes L w w' \<Longrightarrow> X 2 w'"
  have fin: "Q' () (w'\<lparr>skew := x div 1000 * 1000 - mono w', tz := z\<rparr>)" if "passes L w w'" for w'
    using that floor_micros [of x] by (intro a(2)) (auto simp: wall_set_def passes_def lag_def)
  show "wp u (exp_set_wall_clock z (ts_of x)) Q' R X w"
    unfolding exp_set_wall_clock_def wp_bind wp_timespec_to_timeval sys_settimeofday_def tv_nanos_of
    using a(1)
    by (rule clock_call_cases [where a = "()" and op = "\<lambda>w.
        if 0 \<le> tv_usec (tv_of x) \<and> tv_usec (tv_of x) < 1000000 \<and> valid_time w (x div 1000 * 1000)
        then ((0, ()), w\<lparr>skew := x div 1000 * 1000 - mono w, tz := z\<rparr>) else ((-1, ()), w)"])
      (auto simp: wp_lib a(3) fin)
qed simp_all

text \<open>The program restores the offset up to two latencies and two truncations.\<close>

lemma wp_wall_tz:
  assumes "lags_le u L w" and "\<And>w'. passes L w w' \<Longrightarrow> Q (tz w') w'" and "\<And>w'. passes L w w' \<Longrightarrow> X 1 w'"
  shows "wp u wall_tz Q R X w"
  using assms(1)
  by (rule clock_call_cases [where a = "None :: (timeval \<times> timezone) option" and
        op = "\<lambda>w. ((0, Some (tv_of (wall w), tz w)), w)"])
    (auto simp: wall_tz_def wp_lib sys_gettimeofday_def assms(2,3))

lemma wp_exp_clock:
  assumes lags: "lags_le u L w" and b: "0 \<le> mono w" "mono w + lag w \<le> 2 ^ 70" "\<bar>skew w\<bar> \<le> 2 ^ 70" "L \<le> 2 ^ 70"
    and args: "\<bar>D\<bar> \<le> 2 ^ 60" "0 < P" "P \<le> 2 ^ 60" "0 \<le> S" "S \<le> 2 ^ 60"
  shows "wp u (exp_clock first (ts_trunc D) (ts_of P) (ts_of S))
    (\<lambda>v w'. v = 0 \<and> \<bar>skew w' - skew w\<bar> \<le> 2 * (L + 999)) R (strobe_exit (2 * (L + 999)) D w) w"
  unfolding exp_clock_def exp_shared exp_current_offset wp_bind
proof (rule daytime.wp_current_offset [OF lags])
  fix N w1 assume p1: "passes (L + L) w w1" and N: "\<bar>N - skew w\<bar> \<le> L + 999"
  have "ts_small (ts_of N)" "ts_small (ts_trunc D)"
    using N b args by (auto intro!: ts_small_of ts_small_trunc)
  note add = wp_add [OF this]
  have lags1: "lags_le u L w1" using p1 lags by (auto simp: passes_def lags_le_def)
  show "wp u (add_timespec (ts_of N) (ts_trunc D)) (\<lambda>wo. wp u wall_tz (\<lambda>z.
      wp u (strobe_for (exp_set_wall_clock z) (ts_of N) wo (ts_of P) (ts_of S))
      (\<lambda>v w'. v = 0 \<and> \<bar>skew w' - skew w\<bar> \<le> 2 * (L + 999))
      R (strobe_exit (2 * (L + 999)) D w)) R (strobe_exit (2 * (L + 999)) D w)) R (strobe_exit (2 * (L + 999)) D w) w1"
    unfolding add ts_nanos_of ts_nanos_trunc
  proof (rule wp_wall_tz [OF lags1])
    fix w2 assume p2: "passes L w1 w2"
    show "wp u (strobe_for (exp_set_wall_clock (tz w2)) (ts_of N) (ts_of (N + D)) (ts_of P) (ts_of S))
      (\<lambda>v w'. v = 0 \<and> \<bar>skew w' - skew w\<bar> \<le> 2 * (L + 999)) R (strobe_exit (2 * (L + 999)) D w) w2"
      using p1 p2 N b args lags_le_passes [OF p2 lags1]
      by (intro wp_strobe_exit daytime.wp_strobe_for [where L = L]) (auto simp: passes_def)
  qed (use p1 in \<open>simp add: passes_def strobe_exit_def\<close>)
qed (use b lags in \<open>auto simp: strobe_exit_def\<close>)

lemma wp_exp_main:
  assumes "strobe_range d p s"
  shows "wp u (exp_main first (strobe_args prog d p s)) Q R X w =
    wp u (exp_clock first (ts_trunc (d * 1000000)) (ts_of (p * 1000000)) (ts_of (s * 1000000000))) Q Q X w"
  unfolding exp_main_def exp_shared wp_call wp_if if_not_P [OF strobe_args_wp(1) [OF assms]] wp_bind strobe_args_wp [OF assms]
  by (rule refl)

section \<open>Nanoseconds and back\<close>

lemma wp_timespec_to_nanos:
  assumes "in_s64 x"
  shows "wp u (timespec_to_nanos (ts_trunc x)) Q R X w = Q x w"
proof -
  have "x sdiv 1000000000 * 1000000000 + x smod 1000000000 = x" by (rule sdiv_mult_smod_eq)
  moreover have "in_s64 (x sdiv 1000000000 * 1000000000)"
    using in_s64_trunc(3) [OF assms] by (simp add: minus_smod_eq_sdiv_mult)
  ultimately show ?thesis
    using assms by (simp add: timespec_to_nanos_def ts_trunc_def NANOS_PER_SEC_def)
qed

lemma smod_in_s64:
  assumes "in_s64 a" and "in_s64 n" and "n \<noteq> 0" and "\<not> (a = LLONG_MIN \<and> n = - 1)"
  shows "in_s64 (a sdiv n)" "in_s64 (a smod n)"
proof -
  have "0 \<le> \<bar>a\<bar> mod \<bar>n\<bar>" "\<bar>a\<bar> mod \<bar>n\<bar> \<le> \<bar>a\<bar>"
    using assms(3) by (simp_all add: zmod_le_nonneg_dividend)
  then show "in_s64 (a smod n)"
    using assms(1) by (cases "0 \<le> a") (auto simp: signed_modulo_int_def in_s64_def sgn_if)
  show "in_s64 (a sdiv n)"
  proof (cases "\<bar>n\<bar> = 1")
    case True
    then have "n = 1 \<or> n = - 1" by linarith
    with assms(1,4) show ?thesis by (auto simp: signed_divide_int_def in_s64_def sgn_if)
  next
    case False
    with assms(3) have "2 \<le> \<bar>n\<bar>" by linarith
    then have "\<bar>a\<bar> div \<bar>n\<bar> \<le> \<bar>a\<bar> div 2" by (intro zdiv_mono2) simp_all
    moreover have "0 \<le> \<bar>a\<bar> div \<bar>n\<bar>" by (simp add: div_int_pos_iff)
    moreover have "a sdiv n \<in> {0, \<bar>a\<bar> div \<bar>n\<bar>, - (\<bar>a\<bar> div \<bar>n\<bar>)}"
      by (simp add: signed_divide_int_def sgn_if)
    ultimately show ?thesis using assms(1) by (auto simp: in_s64_def abs_if split: if_splits)
  qed
qed

section \<open>Properties\<close>

text \<open>C27: Converting any 64-bit number of nanoseconds to a timespec and back gives the number again,
  without overflow.\<close>

theorem nanos_roundtrip:
  assumes "in_s64 x"
  shows "c_bind (exp_nanos_to_timespec x) timespec_to_nanos w = Val x w"
proof -
  have "wp False (c_bind (exp_nanos_to_timespec x) timespec_to_nanos) (\<lambda>y w'. y = x \<and> w' = w) (\<lambda>_ _. False) (\<lambda>_ _. False) w"
    using assms by (simp add: exp_shared wp_nanos_to_timespec wp_timespec_to_nanos)
  then show ?thesis by (rule wp_totalD) simp
qed

theorem nanos_roundtrip_witness:
  "c_bind (exp_nanos_to_timespec (- 9223372036854775808)) timespec_to_nanos () = Val (- 9223372036854775808) ()"
  by (rule nanos_roundtrip) (simp add: in_s64_def)

text \<open>C34: The text of the experimental program, which reads and sets the wall clock in microseconds (the file does not
  compile as it stands, because of two functions that \<open>main\<close> does not call), for arguments in the range of the released
  one and any plan with latencies of at most \<open>L\<close>: it does not run forever.  When it returns, it returns zero and has
  restored the offset between the clocks up to two latencies and two truncations of less than a microsecond.  When it exits
  early, with status one the offset was not touched; with status two or three the clock is left, up to the same error, where it was or
  displaced by the requested amount.  Its behaviour is undefined only if the plan makes a call fail.\<close>

theorem experiment_restores_offset:
  assumes "strobe_range d p s" and "0 \<le> L" "\<forall>e \<in> set (plan w). int (fst e) \<le> L" "L \<le> 2 ^ 62"
    and "0 \<le> mono w" "mono w + lag w \<le> 2 ^ 62" "\<bar>skew w\<bar> \<le> 2 ^ 62"
  shows "case exp_main first (strobe_args prog d p s) w of
      Val v w' \<Rightarrow> v = 0 \<and> \<bar>skew w' - skew w\<bar> \<le> 2 * (L + 999)
    | Exit n w' \<Rightarrow> n = 1 \<and> skew w' = skew w \<or>
        n \<in> {2, 3} \<and> (\<bar>skew w' - skew w\<bar> \<le> 2 * (L + 999) \<or> \<bar>skew w' - (skew w + d * 1000000)\<bar> \<le> 2 * (L + 999))
    | Undef r \<Rightarrow> \<exists>e \<in> set (plan w). snd e
    | _ \<Rightarrow> False"
proof -
  let ?u = "\<exists>e \<in> set (plan w). snd e"
  have "lags_le ?u L w" using assms(2,3) by (auto simp: lags_le_def)
  then have "wp ?u (exp_main first (strobe_args prog d p s)) (\<lambda>v w'. v = 0 \<and> \<bar>skew w' - skew w\<bar> \<le> 2 * (L + 999))
      (\<lambda>_ _. False) (strobe_exit (2 * (L + 999)) (d * 1000000) w) w"
    unfolding wp_exp_main [OF assms(1)]
    using assms by (intro wp_exp_clock) (auto simp: strobe_range_def)
  then show ?thesis
    by (cases "exp_main first (strobe_args prog d p s) w") (simp_all add: wp_def strobe_exit_def)
qed

theorem experiment_restores_offset_witness:
  "case exp_main True (strobe_args ''strobe-time'' 200 10 1) sample_clk of
      Val v w' \<Rightarrow> v = 0 \<and> \<bar>skew w' - 1700000000000000123\<bar> \<le> 1998
    | Exit n w' \<Rightarrow> n = 1 \<and> skew w' = 1700000000000000123 \<or>
        n \<in> {2, 3} \<and> (\<bar>skew w' - 1700000000000000123\<bar> \<le> 1998 \<or> \<bar>skew w' - 1700000000200000123\<bar> \<le> 1998)
    | Undef r \<Rightarrow> False | _ \<Rightarrow> False"
  using experiment_restores_offset [of 200 10 1 0 sample_clk True "''strobe-time''"]
  by (simp add: strobe_range_def lag_def sample_clk_def cong: out.case_cong)

text \<open>C39: The remainder of two times is the truncating remainder of their nanoseconds, for all 64-bit numbers of nanoseconds
  except a zero divisor (undefined) and the one quotient that overflows.\<close>

theorem mod_timespec_exact:
  assumes "in_s64 a" and "in_s64 n" and "n \<noteq> 0" and "\<not> (a = LLONG_MIN \<and> n = - 1)"
  shows "mod_timespec (ts_trunc a) (ts_trunc n) w = Val (ts_trunc (a smod n)) w \<and>
    mod_timespec (ts_trunc a) (ts_trunc 0) w = Undef DivByZero"
proof -
  have q: "in_s64 (a sdiv n)" "in_s64 (a smod n)" using smod_in_s64 [OF assms] by simp_all
  have "wp False (mod_timespec (ts_trunc a) (ts_trunc n)) (\<lambda>t w'. t = ts_trunc (a smod n) \<and> w' = w) (\<lambda>_ _. False) (\<lambda>_ _. False) w"
    using assms q by (simp add: mod_timespec_def exp_shared wp_timespec_to_nanos s64_mod_def wp_nanos_to_timespec)
  then have "mod_timespec (ts_trunc a) (ts_trunc n) w = Val (ts_trunc (a smod n)) w" by (rule wp_totalD) simp
  moreover have "timespec_to_nanos (ts_trunc x) w = Val x w" if "in_s64 x" for x
    using wp_timespec_to_nanos [OF that, of False "\<lambda>y w'. y = x \<and> w' = w" "\<lambda>_ _. False" "\<lambda>_ _. False" w]
    by (auto elim: wp_totalD)
  then have "mod_timespec (ts_trunc a) (ts_trunc 0) w = Undef DivByZero"
    using assms(1) by (simp add: mod_timespec_def c_run s64_mod_def in_s64_def)
  ultimately show ?thesis ..
qed

theorem mod_timespec_exact_witness:
  "mod_timespec (ts_trunc (- 7000000001)) (ts_trunc 2000000000) () = Val (ts_trunc (- 1000000001)) ()"
proof -
  have "(- 7000000001) smod (2000000000 :: int) = - 1000000001" by (simp add: signed_modulo_int_def)
  with mod_timespec_exact [of "- 7000000001" 2000000000 "()"] show ?thesis by (simp add: in_s64_def)
qed

end
