(* ===== verification/Spec2Isabelle.thy ===== *)
theory Spec2Isabelle
  imports CF_Program CF_Confined Bump_Time Strobe_Experiment
begin

text \<open>
  \<^bold>\<open>The C programs that Jepsen installs on database nodes to inject faults.\<close>

  Jepsen's harness is written in Clojure.  The faults that need system calls are small C programs
  which it uploads to each node, compiles there and runs as root.  This development models all of
  them and proves what they do to the node.

  \<^item> \<^verbatim>\<open>jepsen/resources/corrupt-file.c\<close> damages part of a file.  It divides a region of the file
    into chunks, selects every \<open>mod\<close>-th of them, and copies other chunks over them, flips bits
    in them, saves them to snapshot files, or restores them from there.
  \<^item> \<^verbatim>\<open>jepsen/resources/bump-time.c\<close> and \<^verbatim>\<open>cockroachdb/resources/bumptime.c\<close> move the wall clock
    once, \<^verbatim>\<open>cockroachdb/resources/adjtime.c\<close> asks the kernel to slew it.
  \<^item> \<^verbatim>\<open>jepsen/resources/strobe-time.c\<close> moves the wall clock back and forth and then restores it;
    \<^verbatim>\<open>strobe-time-experiment.c\<close> is an unfinished variant of it that uses the time of day.

  \<^bold>\<open>How a C function is modelled.\<close>  A function is a program over a world: it takes the world and
  yields a value, returns from the enclosing function, exits the process, has undefined behaviour
  (with the reason), or runs forever.  Theory \<open>C_Prelude\<close> defines these outcomes, sequencing,
  the \<open>while\<close> loop (whose endless run is an outcome, not an assumption), checked 64-bit
  arithmetic, and weakest preconditions \<open>wp u p Q R X w\<close>: from the world \<open>w\<close> the program \<open>p\<close> ends
  (total correctness), a value satisfies \<open>Q\<close>, a return satisfies \<open>R\<close>, an exit satisfies \<open>X\<close>, and
  undefined behaviour is impossible unless \<open>u\<close>.  Signed arithmetic that overflows, division by zero,
  a conversion that does not fit, reading an unassigned variable and reading a null pointer are the
  undefined operations.  The collection \<open>c_run\<close> runs a program on a concrete world by rewriting.

  \<^bold>\<open>The libraries under the programs.\<close>
  \<^item> \<open>Drand48\<close>: the 48-bit congruential generator behind \<open>srand48\<close>, \<open>lrand48\<close> and \<open>drand48\<close>.  The
    locale \<open>draw_source\<close> states what a loop that redraws relies on; it is interpreted on the
    generator, from whose every state every value of \<open>lrand48\<close> is proved to come up, so that
    redrawing until a value fits always ends.  \<open>seeded_never_zero\<close>: a freshly seeded generator does
    not draw zero in its first 47433 draws, whatever the seed (the low sixteen bits of a seed are fixed).
  \<^item> \<open>C_Double\<close>: binary64 with round to nearest even, as far as the programs compute with it.  The
    logarithm is a parameter of the definitions; \<open>log_ok\<close> is what is relied on.
  \<^item> \<open>C_Strings\<close>: \<open>strtoll\<close>, \<open>strtod\<close>, \<open>atof\<close> and decimal output.
  \<^item> \<open>Posix_Files\<close>: directories, files with their bytes, descriptors with offsets, \<open>errno\<close> and the
    system calls of \<^verbatim>\<open>corrupt-file.c\<close>.  The locale \<open>fd_table\<close> is the contract of the descriptor
    table.
  \<^item> \<open>Clock_OS\<close>: the monotonic clock, the offset of the wall clock from it, the time zone, and the
    calls of the time programs.  Timespecs are an instance of \<open>linorder\<close>.  The locale \<open>subunit\<close> holds the carry arithmetic, for nanoseconds
    and for microseconds.

  Both worlds carry a plan that decides, call by call, what the system leaves open: whether a call
  fails and with which error, whether a transfer is short, how much time passes first.
  A theorem that does not restrict the plan holds for every behaviour of the system; one about a
  quiet system assumes the empty plan.

  \<^bold>\<open>The programs.\<close>
  \<^item> \<open>CF_Options\<close>: \<open>opts_t\<close>, \<open>default_opts\<close>, \<open>validate_opts\<close>, \<open>print_opts\<close>, the argp callback \<open>parse_opt\<close>, and
    how argp drives it.  Parsed and validated options satisfy \<open>opts_ok\<close>.
  \<^item> \<open>CF_Chunks\<close>: \<open>rand_int\<close>, \<open>rand_exp_int\<close>, \<open>chunk_offset\<close>, \<open>chunk_count\<close>, \<open>snapshot_path\<close>,
    \<open>rand_source_offset\<close>: range and reach of the draws, the chunk count, and that a source chunk is
    always found, namely at the first acceptable draw (\<open>source_draw\<close>).
  \<^item> \<open>CF_Loop\<close>: the loop over the selected chunks that three modes share (\<open>chunks_from\<close> lists these chunks), as the locale
    \<open>chunk_mode\<close>.  A mode shows that its loop body keeps an invariant; the locale gives that the
    loop ends.  Each of them interprets it on its own body.
  \<^item> \<open>CF_Copy\<close>, \<open>CF_Bitflip\<close>, \<open>CF_Snapshot\<close>, \<open>CF_Restore\<close>: the four modes, each with what it can
    change under every plan.  The copy mode also refines an abstract machine \<open>copy_steps\<close>, which
    at each step overwrites a beginning of a selected chunk with bytes of another one, or passes over it, but only when
    the probability is below one or there is no second chunk.
    \<open>CF_Copy_Spec\<close> computes it: \<open>copy_spec\<close> is an executable function of the state of the generator, the
    plan and the bytes, and \<open>corrupt_copy_computes\<close> states the final state of the mode by it.
    The bitflip mode is compared with a reference: \<open>bit_stream\<close> puts the bits of the selected chunks one
    after the other, \<open>exp_walk\<close> takes exponentially distributed steps through them, and the mode flips the
    bits of this \<open>flip_walk\<close>, whatever the plan.
  \<^item> \<open>CF_Paths\<close>: \<open>dirname\<close>, \<open>mkdir_p\<close>, and when two chunks have different snapshot files.
  \<^item> \<open>CF_Store\<close>: what the snapshot and restore modes promise, without a file system.  The snapshots of a
    file are a map from the start and the end of a piece to its bytes (\<open>store_of\<close>); \<open>snapshot_spec\<close>
    and \<open>restore_spec\<close> are executable functions on it, and on a system where no call fails the two
    modes refine them.
  \<^item> \<open>CF_Roundtrip\<close>: snapshot, damage, restore, proved on the specifications of \<open>CF_Store\<close>; and, for
    every plan, when the restore finds none of the snapshots.
  \<^item> \<open>CF_Main\<close>: \<open>corrupt\<close>, \<open>clear_snapshots\<close> and \<open>main\<close>: what a run of any mode leaves untouched,
    that the program ends, with which status, and when it is undefined.  The shell behind
    \<open>system\<close> is a parameter.
  \<^item> \<open>CF_Confined\<close>: the frame of the whole program on every command line: it follows the name of the
    file from the operand to the mode, and no file is touched that is neither an operand nor in the
    snapshot directory.
  \<^item> \<open>CF_Program\<close>: whole runs from the command line: a copy run computes its reference, a bitflip run is defined for every value of the
    clock that seeds it, and a restore run undoes any damage since the snapshot run.
  \<^item> \<open>Strobe_Time\<close>: timespec arithmetic and \<^verbatim>\<open>strobe-time.c\<close>.  The locale \<open>wall_access\<close> states how
    a reader and a setter of the wall clock behave; the strobing loop is proved in it and it is
    interpreted on the functions of both strobing programs.  It also says where an early exit leaves the clock.
  \<^item> \<open>Bump_Time\<close>: \<^verbatim>\<open>bump-time.c\<close>, \<^verbatim>\<open>bumptime.c\<close> and \<^verbatim>\<open>adjtime.c\<close>.
  \<^item> \<open>Strobe_Experiment\<close>: \<^verbatim>\<open>strobe-time-experiment.c\<close>.  The functions that it repeats are written out
    and shown equal to those of \<open>Strobe_Time\<close>, whose strobing loop it shares.

  \<^bold>\<open>Bounds.\<close>  Loops need no fuel: not ending is an outcome of the model, and the theorems exclude it.
  Numeric bounds in hypotheses are there for signed overflow.  The modes need \<open>roomy\<close>: the size of
  the file plus one chunk, and plus two to the thirty-second, fit \<open>off_t\<close>.  Without it a theorem
  admits undefined behaviour and still restricts what is changed.  For whole command lines,
  \<open>defined_args\<close> and files of at most \<open>2 ^ 61\<close> bytes ensure \<open>roomy\<close>.  Names of files have at most
  4017 characters, so that a snapshot's name fits \<open>PATH_MAX\<close>; what happens beyond is a theorem too.
  The time programs take arguments of at most \<open>10 ^ 9\<close> milliseconds and clocks of at most \<open>2 ^ 62\<close>
  nanoseconds.  The bitflip mode converts an exponentially distributed number to an integer, which is
  undefined when it does not fit.  The theorem about the mode admits that; \<open>corrupt_bitflip_defined\<close> shows when
  it cannot happen: a probability of at least \<open>2 ^ (-20)\<close>, at most \<open>2 ^ 58\<close> bytes, and no draw of zero.
  The program seeds the generator, so for files of at most 5929 bytes (whose bits number less than 47433)
  the last condition holds, and \<open>main_bitflip_defined\<close> does without it.

  A line that a program prints is an element of the list of printed lines, without its newline.  Where
  a format reads a 64-bit number as an \<open>int\<close> (\<^verbatim>\<open>bump-time.c\<close> and \<^verbatim>\<open>strobe-time.c\<close>), which C leaves
  undefined, the model takes what the calling convention gives, its low 32 bits; only the printed text depends on it.

  \<^bold>\<open>Not modelled.\<close>  Messages on the error stream (the text of \<open>print_opts\<close>, whose call is
  commented out, is a value); the signs of zeros and NaNs; permissions, symbolic links and concurrent processes; running out of memory; argp's own splitting of
  the command line, help and version output (a command line is the list of its parsed options and
  arguments; argp never delivers two of the events that this list may hold, \<open>KEY_other\<close> and
  \<open>ARGP_KEY_ARG\<close> as options, so theorems about all lists cover more than the command lines); the seeding of \<open>rand\<close>, which is never drawn from; \<open>next_tick\<close> and
  \<open>sleep_until_next_tick\<close> of \<^verbatim>\<open>strobe-time-experiment.c\<close>, which do not compile (a call with a missing
  argument, a variable called as a function) and are not called.  The Clojure harness, the tests of the individual
  databases and the documentation are not C code and are outside this development.

  This theory holds the property that spans the time programs: a bump followed by a strobe.
\<close>

section \<open>Bumping and strobing\<close>

text \<open>
  The harness (\<^verbatim>\<open>jepsen/src/jepsen/nemesis/time.clj\<close>) runs both programs through a call that
  throws when the status is not zero; so the second run of a sequence starts only after a first that
  returned zero.
\<close>

definition bump_then_strobe :: "bool \<Rightarrow> string \<Rightarrow> int \<Rightarrow> int \<Rightarrow> int \<Rightarrow> int \<Rightarrow> (clk, int) prog" where
  "bump_then_strobe first prog b d p s =
     c_bind (bump_time_main [prog, show_int b]) (\<lambda>r.
     if r \<noteq> 0 then c_val r else strobe_main first (strobe_args prog d p s))"

text \<open>C25: Bumping a node's clock by \<open>b\<close> milliseconds and, when that succeeds, strobing it with arguments in range, on any plan with
  latencies of at most \<open>L\<close>: the two runs end, and the strobe does not undo the bump.  If they return zero, the
  wall clock's offset is the bumped one, up to three latencies.  If the bump fails, its status is returned: with two the
  clock was not moved, with one it either was not moved or was bumped (up to a latency) but not read back.  If the strobe exits
  early, with one the clock is bumped, with two or three it is left, up to three latencies, bumped, or bumped and
  displaced by \<open>d\<close> milliseconds.  The behaviour is undefined only if the plan makes a call fail.\<close>

theorem bump_then_strobe_keeps_bump:
  assumes "\<forall>e \<in> set (plan w). int (fst e) \<le> L" "0 \<le> L" "L \<le> 2 ^ 62" and "\<bar>b\<bar> \<le> 10 ^ 9" and "strobe_range d p s"
    and "0 \<le> mono w" "mono w + lag w \<le> 2 ^ 62" "\<bar>skew w\<bar> \<le> 2 ^ 62"
  shows "case bump_then_strobe first prog b d p s w of
      Val v w' \<Rightarrow> v = 0 \<and> \<bar>skew w' - (skew w + b * 1000000)\<bar> \<le> 3 * L \<or>
        v = 1 \<and> (skew w' = skew w \<or> \<bar>skew w' - (skew w + b * 1000000)\<bar> \<le> L) \<or>
        v = 2 \<and> skew w' = skew w
    | Exit n w' \<Rightarrow> n = 1 \<and> \<bar>skew w' - (skew w + b * 1000000)\<bar> \<le> L \<or>
        n \<in> {2, 3} \<and> (\<bar>skew w' - (skew w + b * 1000000)\<bar> \<le> 3 * L \<or>
          \<bar>skew w' - (skew w + b * 1000000 + d * 1000000)\<bar> \<le> 3 * L)
    | Undef r \<Rightarrow> \<exists>e \<in> set (plan w). snd e
    | _ \<Rightarrow> False"
proof -
  let ?u = "\<exists>e \<in> set (plan w). snd e" and ?B = "b * 1000000" and ?D = "d * 1000000"
  have "lags_le True L w" using assms(1,2) by (simp add: lags_le_def)
  then have "wp False (bump_time_main [prog, show_int b]) (bump_post ?B L w) (\<lambda>_ _. False) (\<lambda>_ _. False) w"
    using assms by (intro wp_bump_time) simp_all
  then obtain v w1 where bump: "bump_time_main [prog, show_int b] w = Val v w1" and post: "bump_post ?B L w v w1"
    by (rule wp_totalD)
  show ?thesis
  proof (cases "v = 0")
    case True
    have m: "0 \<le> mono w1" "mono w1 + lag w1 \<le> 2 ^ 70" and sk: "\<bar>skew w1 - (skew w + ?B)\<bar> \<le> L" and "set (plan w1) \<subseteq> set (plan w)"
      using post assms(6,7) True by (auto simp: bump_post_def)
    moreover from this have "lags_le ?u L w1" using assms(1,2) by (auto simp: lags_le_def)
    moreover have "\<bar>skew w1\<bar> \<le> 2 ^ 70" using sk assms(3,4,8) by (auto simp: abs_le_iff)
    ultimately have "wp ?u (strobe_main first (strobe_args prog d p s)) (\<lambda>v w'. v = 0 \<and> \<bar>skew w' - skew w1\<bar> \<le> 2 * L)
        (\<lambda>_ _. False) (strobe_exit (2 * L) ?D w1) w1"
      unfolding wp_strobe_main [OF assms(5)]
      using assms(3,5) by (intro wp_strobe_clock) (auto simp: strobe_range_def)
    with True bump sk show ?thesis
      by (cases "strobe_main first (strobe_args prog d p s) w1")
        (auto simp: bump_then_strobe_def wp_def strobe_exit_def c_bind_def)
  next
    case False
    with bump post show ?thesis
      by (auto simp: bump_then_strobe_def bump_post_def c_bind_def c_val_def)
  qed
qed

theorem bump_then_strobe_keeps_bump_witness:
  "case bump_then_strobe True ''t'' 250 200 10 1 (sample_clk\<lparr>plan := [(3, False), (4, False)]\<rparr>) of
      Val v w' \<Rightarrow> v = 0 \<and> \<bar>skew w' - 1700000000250000123\<bar> \<le> 12 \<or>
        v = 1 \<and> (skew w' = 1700000000000000123 \<or> \<bar>skew w' - 1700000000250000123\<bar> \<le> 4) \<or>
        v = 2 \<and> skew w' = 1700000000000000123
    | Exit n w' \<Rightarrow> n = 1 \<and> \<bar>skew w' - 1700000000250000123\<bar> \<le> 4 \<or>
        n \<in> {2, 3} \<and> (\<bar>skew w' - 1700000000250000123\<bar> \<le> 12 \<or> \<bar>skew w' - 1700000000450000123\<bar> \<le> 12)
    | Undef r \<Rightarrow> False | _ \<Rightarrow> False"
  using bump_then_strobe_keeps_bump [of "sample_clk\<lparr>plan := [(3, False), (4, False)]\<rparr>" 4 250 200 10 1 True "''t''"]
  by (simp add: strobe_range_def sample_clk_def lag_def cong: out.case_cong)

end
